(* ===== verification/Prelude.thy ===== *)
theory Prelude
  imports Main "HOL-Library.Word" "HOL-Library.Char_ord" "HOL-Library.List_Lexorder"
    "HOL-Library.Sublist"
begin

text \<open>
  Shared vocabulary of the development: what the C++ standard library contributes to the
  sources (byte strings, \<open>tolower\<close>, number printing and \<open>std::stoull\<close>), the result
  type in which a failed \<open>assert\<close>, an exception leaving a \<open>noexcept\<close> function and
  undefined behaviour are values, and the generic lemmas on lists and results the components
  use.  Strings are lists of bytes (\<open>char\<close>); \<open>std::string\<close> is ordered
  lexicographically by unsigned bytes, which is the order of \<open>List_Lexorder\<close> over
  \<open>Char_ord\<close>.
\<close>

named_theorems result_simps "equations of the result type"
named_theorems wf_intros "preservation of the well-formedness invariants"

section \<open>Faults and results\<close>

text \<open>
  The default build is a debug build (\<open>CMakeLists.txt\<close>), so a failed \<open>assert\<close>
  aborts the process.  An exception that leaves a \<open>noexcept\<close> function calls
  \<open>std::terminate\<close>.  Both end the program, as does undefined behaviour.  A loop of the code
  that is bounded in the model by a number of turns ends in \<open>Out_of_turns\<close> when it runs out
  of them, which is shown never to happen.  \<open>Thrown\<close> is an exception on its way out:
  no code of the repository catches it, and \<open>noexcept_call\<close> is the boundary where it ends the
  program.
\<close>

datatype std_exception = Invalid_argument | Out_of_range | Bad_function_call
  | Setting_connection_failure | Session_send_failure | Failing_at_failing | Boost_error_code

datatype fault = Assert_failed | Terminated std_exception | Undefined_behaviour | Out_of_turns
  | Thrown std_exception

type_synonym 'a result = "fault + 'a"

definition res_bind :: "'a result \<Rightarrow> ('a \<Rightarrow> 'b result) \<Rightarrow> 'b result" where
  "res_bind r f = (case r of Inl e \<Rightarrow> Inl e | Inr x \<Rightarrow> f x)"

definition assert_that :: "bool \<Rightarrow> 'a result \<Rightarrow> 'a result" where
  "assert_that b r = (if b then r else Inl Assert_failed)"

definition noexcept_call :: "'a result \<Rightarrow> 'a result" where
  "noexcept_call r = (case r of Inl (Thrown e) \<Rightarrow> Inl (Terminated e) | _ \<Rightarrow> r)"

lemma noexcept_call_simps [simp, result_simps]:
  "noexcept_call (Inr x) = Inr x" "noexcept_call (Inl Assert_failed) = Inl Assert_failed"
  "noexcept_call (Inl Undefined_behaviour) = Inl Undefined_behaviour"
  "noexcept_call (Inl Out_of_turns) = Inl Out_of_turns"
  "noexcept_call (Inl (Thrown e)) = Inl (Terminated e)"
  "noexcept_call (Inl (Terminated e)) = Inl (Terminated e)"
  by (simp_all add: noexcept_call_def)

lemma noexcept_call_Inr [simp]: "noexcept_call r = Inr x \<longleftrightarrow> r = Inr x"
  by (auto simp: noexcept_call_def split: sum.splits fault.splits)

lemma res_bind_simps [simp, result_simps]:
  "res_bind (Inl e) f = Inl e" "res_bind (Inr x) f = f x"
  by (simp_all add: res_bind_def)

lemma res_bind_eq_Inr: "res_bind r f = Inr y \<longleftrightarrow> (\<exists>x. r = Inr x \<and> f x = Inr y)"
  by (cases r) auto

lemma assert_that_simps [simp, result_simps]:
  "assert_that True r = r" "assert_that False r = Inl Assert_failed"
  by (simp_all add: assert_that_def)

lemma assert_that_eq_Inr [simp]: "assert_that b r = Inr x \<longleftrightarrow> b \<and> r = Inr x"
  by (simp add: assert_that_def)

section \<open>Bytes and characters\<close>

type_synonym size_t = "64 word"

abbreviation byte :: "char \<Rightarrow> nat" where
  "byte c \<equiv> of_char c"

definition tolower :: "char \<Rightarrow> char" where
  "tolower c = (if 65 \<le> byte c \<and> byte c \<le> 90 then char_of (byte c + 32) else c)"

lemma byte_less_256 [simp]: "byte c < 256"
proof -
  have "byte (char_of (byte c)) < 256" by (subst of_char_of) simp
  then show ?thesis by simp
qed

lemma byte_char_of: "n < 256 \<Longrightarrow> byte (char_of n) = n"
  by simp

lemma byte_tolower: "byte (tolower c) = (if 65 \<le> byte c \<and> byte c \<le> 90 then byte c + 32 else byte c)"
  by (simp add: tolower_def)

lemma tolower_idem [simp]: "tolower (tolower c) = tolower c"
  by (simp add: tolower_def)

lemma tolower_comp [simp]: "tolower \<circ> tolower = tolower"
  by (simp add: comp_def)

lemma map_tolower_idem [simp]: "map tolower (map tolower s) = map tolower s"
  by simp

section \<open>Printing and reading numbers\<close>

text \<open>
  \<open>std::to_string\<close> and the stream insertions of unsigned integers print without leading
  zeros, hexadecimal digits in lower case.
\<close>

definition digit_char :: "nat \<Rightarrow> char" where
  "digit_char d = (if d < 10 then char_of (48 + d) else char_of (87 + d))"

definition digit_val :: "char \<Rightarrow> nat option" where
  "digit_val c =
    (if 48 \<le> byte c \<and> byte c \<le> 57 then Some (byte c - 48)
     else if 97 \<le> byte c \<and> byte c \<le> 102 then Some (byte c - 87)
     else if 65 \<le> byte c \<and> byte c \<le> 70 then Some (byte c - 55)
     else None)"

fun to_base :: "nat \<Rightarrow> nat \<Rightarrow> string" where
  "to_base b n = (if b < 2 \<or> n < b then [digit_char n]
                  else to_base b (n div b) @ [digit_char (n mod b)])"

declare to_base.simps [simp del]

definition to_dec :: "nat \<Rightarrow> string" where
  "to_dec n = to_base 10 n"

definition to_hex :: "nat \<Rightarrow> string" where
  "to_hex n = to_base 16 n"

text \<open>The value of a digit string in base \<open>b\<close>, \<open>None\<close> when a character is no digit.\<close>

fun read_base :: "nat \<Rightarrow> nat \<Rightarrow> string \<Rightarrow> nat option" where
  "read_base b acc [] = Some acc"
| "read_base b acc (c # cs) =
    (case digit_val c of
       Some d \<Rightarrow> if d < b then read_base b (acc * b + d) cs else None
     | None \<Rightarrow> None)"

lemma digit_val_digit_char [simp]: "d < 16 \<Longrightarrow> digit_val (digit_char d) = Some d"
  by (auto simp: digit_val_def digit_char_def)

lemma read_base_append:
  "read_base b acc (xs @ ys) = (case read_base b acc xs of Some a \<Rightarrow> read_base b a ys | None \<Rightarrow> None)"
  by (induction xs arbitrary: acc) (auto split: option.splits)

lemma read_base_to_base_acc:
  assumes "2 \<le> b" "b \<le> 16"
  shows "read_base b 0 (to_base b n) = Some n"
  using assms
proof (induction b n rule: to_base.induct)
  case (1 b n)
  show ?case
  proof (cases "n < b")
    case True
    with "1.prems" show ?thesis by (simp add: to_base.simps [of b n])
  next
    case False
    then have "read_base b 0 (to_base b (n div b)) = Some (n div b)"
      using "1.IH" "1.prems" by simp
    moreover have "n mod b < b" using "1.prems" by simp
    moreover have "n mod b < 16" using \<open>n mod b < b\<close> "1.prems" by linarith
    ultimately show ?thesis
      using False "1.prems"
      by (simp add: to_base.simps [of b n] read_base_append div_mult_mod_eq)
  qed
qed

lemma read_to_dec [simp]: "read_base 10 0 (to_dec n) = Some n"
  by (simp add: to_dec_def read_base_to_base_acc)

lemma read_to_hex [simp]: "read_base 16 0 (to_hex n) = Some n"
  by (simp add: to_hex_def read_base_to_base_acc)

lemma to_base_not_Nil [simp]: "to_base b n \<noteq> []"
  by (subst to_base.simps) simp

lemma to_hex_not_Nil [simp]: "to_hex n \<noteq> []"
  by (simp add: to_hex_def)

definition is_digit_of :: "nat \<Rightarrow> char \<Rightarrow> bool" where
  "is_digit_of b c = (case digit_val c of Some d \<Rightarrow> d < b | None \<Rightarrow> False)"

lemma set_to_base:
  assumes "2 \<le> b" "b \<le> 16"
  shows "list_all (is_digit_of b) (to_base b n)"
  using assms
proof (induction b n rule: to_base.induct)
  case (1 b n)
  have m: "n mod b < b" using "1.prems" by simp
  then have "n mod b < 16" using "1.prems" by linarith
  with 1 m show ?case
    by (auto simp: to_base.simps [of b n] is_digit_of_def)
qed

lemma digits_to_hex [simp]: "list_all (is_digit_of 16) (to_hex n)"
  by (simp add: to_hex_def set_to_base)

lemma digits_to_dec [simp]: "list_all (is_digit_of 10) (to_dec n)"
  by (simp add: to_dec_def set_to_base)

section \<open>std::stoull in base ten\<close>

text \<open>
  \<open>std::stoull\<close> skips white space, takes an optional sign and the longest run of decimal
  digits, and ignores the rest.  No digit is \<open>invalid_argument\<close>, a value above
  \<open>2^64 - 1\<close> is \<open>out_of_range\<close>; a minus sign negates modulo \<open>2^64\<close>.
\<close>

definition isspace :: "char \<Rightarrow> bool" where
  "isspace c = (byte c = 32 \<or> (9 \<le> byte c \<and> byte c \<le> 13))"

definition stoull :: "string \<Rightarrow> std_exception + size_t" where
  "stoull s =
    (let s1 = dropWhile isspace s;
         neg = (case s1 of c # _ \<Rightarrow> c = CHR ''-'' | [] \<Rightarrow> False);
         s2 = (case s1 of c # cs \<Rightarrow> if c = CHR ''-'' \<or> c = CHR ''+'' then cs else s1 | [] \<Rightarrow> s1);
         ds = takeWhile (is_digit_of 10) s2
     in if ds = [] then Inl Invalid_argument
        else (case read_base 10 0 ds of
                None \<Rightarrow> Inl Invalid_argument
              | Some n \<Rightarrow> if int n \<ge> 2 ^ 64 then Inl Out_of_range
                          else Inr (if neg then - of_nat n else of_nat n)))"

lemma digit_not_special:
  "is_digit_of 10 c \<Longrightarrow> \<not> isspace c \<and> c \<noteq> CHR ''-'' \<and> c \<noteq> CHR ''+''"
  by (auto simp: is_digit_of_def digit_val_def isspace_def split: if_splits)

lemma stoull_digits:
  assumes "list_all (is_digit_of 10) ds" "ds \<noteq> []" "read_base 10 0 ds = Some n" "n < 2 ^ 64"
  shows "stoull ds = Inr (of_nat n)"
proof -
  obtain c cs where ds: "ds = c # cs" using assms(2) by (cases ds) auto
  with assms(1) have "is_digit_of 10 c" by simp
  then have sp: "\<not> isspace c" "c \<noteq> CHR ''-''" "c \<noteq> CHR ''+''"
    by (simp_all add: digit_not_special)
  have dw: "dropWhile isspace ds = ds" using sp ds by simp
  have tw: "takeWhile (is_digit_of 10) ds = ds"
    using assms(1) by (simp add: list_all_iff)
  have neg: "(case ds of c # _ \<Rightarrow> c = CHR ''-'' | [] \<Rightarrow> False) = False"
    "(case ds of c # cs \<Rightarrow> if c = CHR ''-'' \<or> c = CHR ''+'' then cs else ds | [] \<Rightarrow> ds) = ds"
    using sp ds by simp_all
  show ?thesis
    unfolding stoull_def Let_def dw neg tw using assms(2-4) by simp
qed

text \<open>Reading back what \<open>std::to_string\<close> prints of a \<open>size_t\<close> gives the same value.\<close>

lemma stoull_to_dec [simp]: "stoull (to_dec (unat (n :: size_t))) = Inr n"
proof -
  have "stoull (to_dec (unat n)) = Inr (of_nat (unat n))"
  proof (rule stoull_digits)
    show "unat n < 2 ^ 64" using unsigned_less [of n] by simp
  qed (simp_all add: to_dec_def set_to_base read_base_to_base_acc)
  then show ?thesis by simp
qed

section \<open>Lists\<close>

lemma sorted_filter_map: "sorted (map f xs) \<Longrightarrow> sorted (map f (filter P xs))"
  by (induction xs) auto

lemma sorted_remdups_adj_strict: "sorted xs \<Longrightarrow> sorted_wrt (<) (remdups_adj xs)"
  by (induction xs rule: remdups_adj.induct) (auto simp: order_le_neq_trans)

end
