(* ===== verification/Utils.thy ===== *)
theory Utils
  imports Prelude
begin

text \<open>
  \<open>src/src/utils/utils.h\<close> and \<open>utils.cpp\<close>: the string helpers the HTTP layers call
  (case-insensitive comparison, prefix and suffix tests, number printing), with the
  characterisations the other theories use.
\<close>

section \<open>Definitions\<close>

definition get_first_part :: "string \<Rightarrow> char \<Rightarrow> string" where
  "get_first_part s delimiter = takeWhile (\<lambda>c. c \<noteq> delimiter) s"

text \<open>\<open>std::equal\<close> over the first range, walking the second one in step.\<close>

fun std_equal :: "('a \<Rightarrow> 'b \<Rightarrow> bool) \<Rightarrow> 'a list \<Rightarrow> 'b list \<Rightarrow> bool" where
  "std_equal p [] ys = True"
| "std_equal p (x # xs) (y # ys) = (p x y \<and> std_equal p xs ys)"
| "std_equal p (x # xs) [] = False"

definition icompare :: "string \<Rightarrow> string \<Rightarrow> bool" where
  "icompare a b =
    (if length a = length b then std_equal (\<lambda>x y. tolower x = tolower y) b a else False)"

definition iless :: "string \<Rightarrow> string \<Rightarrow> bool" where
  "iless x y =
    (let cmp = (\<lambda>a b. byte (tolower a) \<le> byte (tolower b)) in
     if length x \<le> length y then std_equal cmp x y else \<not> std_equal cmp y x)"

definition i_starts_with :: "string \<Rightarrow> string \<Rightarrow> bool" where
  "i_starts_with a b =
    (if length b \<le> length a then std_equal (\<lambda>x y. tolower x = tolower y) b a else False)"

text \<open>
  The overload with an offset computes \<open>str.size() - str_offset\<close> in \<open>size_t\<close>; an offset
  past the end wraps to a huge value, the length test passes and the comparison reads outside
  the string.
\<close>

definition starts_with_at :: "string \<Rightarrow> string \<Rightarrow> size_t \<Rightarrow> bool result" where
  "starts_with_at str substr off =
    (if (of_nat (length substr) :: size_t) > of_nat (length str) - off then Inr False
     else if unat off > length str then Inl Undefined_behaviour
     else Inr (std_equal (=) substr (drop (unat off) str)))"

definition starts_with :: "string \<Rightarrow> string \<Rightarrow> bool" where
  "starts_with str substr =
    (if length substr > length str then False else std_equal (=) substr str)"

definition ends_with :: "string \<Rightarrow> string \<Rightarrow> bool" where
  "ends_with str substr =
    (if length substr > length str then False else std_equal (=) (rev substr) (rev str))"

definition hex_digits :: string where
  "hex_digits = ''0123456789abcdef''"

fun to_lower_hex :: "string \<Rightarrow> string" where
  "to_lower_hex [] = []"
| "to_lower_hex (c # cs) =
    hex_digits ! (byte c div 16 mod 16) # hex_digits ! (byte c mod 16) # to_lower_hex cs"

text \<open>\<open>utils::from<size_t>\<close> streams in hexadecimal, \<open>utils::from_dec\<close> in decimal.\<close>

definition from_size_t :: "size_t \<Rightarrow> string" where
  "from_size_t n = to_hex (unat n)"

definition from_dec_size_t :: "size_t \<Rightarrow> string" where
  "from_dec_size_t n = to_dec (unat n)"

text \<open>Streaming a negative \<open>int32_t\<close> in hexadecimal prints its two's complement pattern.\<close>

definition from_int32 :: "32 word \<Rightarrow> string" where
  "from_int32 n = to_hex (unat n)"

section \<open>Characterisations\<close>

lemma std_equal_same_length:
  "length xs = length ys \<Longrightarrow> std_equal p xs ys = list_all2 p xs ys"
  by (induction p xs ys rule: std_equal.induct) auto

lemma std_equal_prefix: "std_equal (=) xs ys = prefix xs ys"
  by (induction "(=) :: 'a \<Rightarrow> 'a \<Rightarrow> bool" xs ys rule: std_equal.induct) auto

lemma icompare_iff: "icompare a b \<longleftrightarrow> map tolower a = map tolower b"
proof (cases "length a = length b")
  case True
  then have "icompare a b = list_all2 (\<lambda>x y. tolower x = tolower y) b a"
    by (simp add: icompare_def std_equal_same_length)
  also have "\<dots> \<longleftrightarrow> map tolower b = map tolower a"
    by (simp add: list_all2_conv_all_nth list_eq_iff_nth_eq True)
  finally show ?thesis by auto
next
  case False
  then have "map tolower a \<noteq> map tolower b" by (metis length_map)
  with False show ?thesis by (simp add: icompare_def)
qed

lemma icompare_refl [simp]: "icompare a a"
  by (simp add: icompare_iff)

lemma icompare_lower [simp]:
  "icompare (map tolower a) b = icompare a b" "icompare a (map tolower b) = icompare a b"
  by (simp_all add: icompare_iff)

lemma starts_with_iff: "starts_with s p \<longleftrightarrow> prefix p s"
  by (auto simp: starts_with_def std_equal_prefix dest: prefix_length_le)

lemma ends_with_iff: "ends_with s p \<longleftrightarrow> suffix p s"
  by (auto simp: ends_with_def std_equal_prefix suffix_to_prefix dest: prefix_length_le)

lemma hex_digit_nth: "d < 16 \<Longrightarrow> hex_digits ! d = digit_char d"
proof -
  assume "d < 16"
  then have "d \<in> set [0..<16]" by simp
  moreover have "list_all (\<lambda>d. hex_digits ! d = digit_char d) [0..<16]" by code_simp
  ultimately show ?thesis by (simp only: list_all_iff)
qed

text \<open>Reading the hex dump back two digits at a time.\<close>

fun of_hex_pairs :: "string \<Rightarrow> string option" where
  "of_hex_pairs [] = Some []"
| "of_hex_pairs [c] = None"
| "of_hex_pairs (h # l # cs) =
    (case (digit_val h, digit_val l, of_hex_pairs cs) of
       (Some a, Some b, Some r) \<Rightarrow> Some (char_of (16 * a + b) # r)
     | _ \<Rightarrow> None)"

lemma to_lower_hex_roundtrip: "of_hex_pairs (to_lower_hex s) = Some s"
proof (induction s)
  case (Cons c cs)
  have "byte c div 16 mod 16 < 16" "byte c mod 16 < 16" by simp_all
  moreover have "16 * (byte c div 16 mod 16) + byte c mod 16 = byte c"
  proof -
    have "byte c div 16 < 16" by (rule less_mult_imp_div_less) simp
    then show ?thesis by (simp add: mult_div_mod_eq)
  qed
  moreover have "hex_digits ! (byte c div 16 mod 16) = digit_char (byte c div 16 mod 16)"
    "hex_digits ! (byte c mod 16) = digit_char (byte c mod 16)"
    by (simp_all add: hex_digit_nth)
  ultimately show ?case using Cons.IH by simp
qed simp

lemma get_first_part_append:
  assumes "d \<notin> set a"
  shows "get_first_part (a @ d # b) d = a"
  using assms by (induction a) (auto simp: get_first_part_def)

end
