(* ===== verification/Base64.thy ===== *)
theory Base64
  imports Prelude
begin

text \<open>
  \<open>src/src/utils/base64.cpp\<close>: the encoder and the decoder, with the byte arithmetic on
  \<open>8 word\<close>.  The loops keep the bytes collected so far in \<open>char_array_3\<close> and
  \<open>char_array_4\<close>; the model keeps the filled prefix of those arrays.  The result is the
  round trip \<open>base64_decode (base64_encode bs) = bs\<close>.
\<close>

unbundle bit_operations_syntax

type_synonym u8 = "8 word"

section \<open>The alphabet\<close>

definition base64_chars :: string where
  "base64_chars = ''ABCDEFGHIJKLMNOPQRSTUVWXYZabcdefghijklmnopqrstuvwxyz0123456789+/''"

definition is_base64 :: "char \<Rightarrow> bool" where
  "is_base64 c =
    ((48 \<le> byte c \<and> byte c \<le> 57) \<or> (65 \<le> byte c \<and> byte c \<le> 90) \<or> (97 \<le> byte c \<and> byte c \<le> 122)
     \<or> c = CHR ''+'' \<or> c = CHR ''/'')"

fun index_of :: "'a \<Rightarrow> 'a list \<Rightarrow> nat option" where
  "index_of x [] = None"
| "index_of x (y # ys) = (if x = y then Some 0 else map_option Suc (index_of x ys))"

text \<open>\<open>std::string::find\<close> stored in an \<open>unsigned char\<close>: \<open>npos\<close> becomes 255.\<close>

definition base64_find :: "char \<Rightarrow> u8" where
  "base64_find c = (case index_of c base64_chars of Some i \<Rightarrow> of_nat i | None \<Rightarrow> 255)"

section \<open>Encoder\<close>

definition char_array_4_of :: "u8 \<Rightarrow> u8 \<Rightarrow> u8 \<Rightarrow> u8 list" where
  "char_array_4_of a b c =
    [drop_bit 2 (a AND 0xfc),
     push_bit 4 (a AND 0x03) + drop_bit 4 (b AND 0xf0),
     push_bit 2 (b AND 0x0f) + drop_bit 6 (c AND 0xc0),
     c AND 0x3f]"

definition base64_char :: "u8 \<Rightarrow> char" where
  "base64_char w = base64_chars ! unat w"

fun base64_encode_loop :: "u8 list \<Rightarrow> u8 list \<Rightarrow> string \<Rightarrow> u8 list \<times> string" where
  "base64_encode_loop [] arr ret = (arr, ret)"
| "base64_encode_loop (x # xs) arr ret =
    (case arr @ [x] of
       [a, b, c] \<Rightarrow> base64_encode_loop xs [] (ret @ map base64_char (char_array_4_of a b c))
     | arr' \<Rightarrow> base64_encode_loop xs arr' ret)"

definition base64_encode :: "u8 list \<Rightarrow> string" where
  "base64_encode bytes =
    (let (arr, ret) = base64_encode_loop bytes [] [];
         i = length arr;
         arr3 = arr @ replicate (3 - i) 0
     in if i = 0 then ret
        else ret @ take (i + 1) (map base64_char (char_array_4_of (arr3 ! 0) (arr3 ! 1) (arr3 ! 2)))
               @ replicate (3 - i) (CHR ''=''))"

section \<open>Decoder\<close>

definition char_array_3_of :: "u8 \<Rightarrow> u8 \<Rightarrow> u8 \<Rightarrow> u8 \<Rightarrow> u8 list" where
  "char_array_3_of p q r s =
    [push_bit 2 p + drop_bit 4 (q AND 0x30),
     push_bit 4 (q AND 0xf) + drop_bit 2 (r AND 0x3c),
     push_bit 6 (r AND 0x3) + s]"

text \<open>The loop stops at the end, at \<open>=\<close> and at the first byte outside the alphabet.\<close>

fun base64_decode_loop :: "string \<Rightarrow> char list \<Rightarrow> u8 list \<Rightarrow> char list \<times> u8 list" where
  "base64_decode_loop [] arr ret = (arr, ret)"
| "base64_decode_loop (x # xs) arr ret =
    (if x \<noteq> CHR ''='' \<and> is_base64 x
     then (case arr @ [x] of
             [p, q, r, s] \<Rightarrow> base64_decode_loop xs []
                (ret @ char_array_3_of (base64_find p) (base64_find q) (base64_find r) (base64_find s))
           | arr' \<Rightarrow> base64_decode_loop xs arr' ret)
     else (arr, ret))"

definition base64_decode :: "string \<Rightarrow> u8 list" where
  "base64_decode encoded =
    (let (arr, ret) = base64_decode_loop encoded [] [];
         i = length arr;
         arr4 = map base64_find (arr @ replicate (4 - i) (CHR 0x00))
     in if i = 0 then ret
        else ret @ take (i - 1) (char_array_3_of (arr4 ! 0) (arr4 ! 1) (arr4 ! 2) (arr4 ! 3)))"

section \<open>Byte arithmetic\<close>

lemma unat_drop_u8: "unat (drop_bit n (x :: u8)) = unat x div 2 ^ n"
  unfolding unat_drop_bit_eq by (rule drop_bit_eq_div)

lemma unat_take_u8: "unat (take_bit n (x :: u8)) = unat x mod 2 ^ n"
  unfolding unsigned_take_bit_eq by (rule take_bit_eq_mod)

lemma unat_push_u8: "unat (push_bit n (x :: u8)) = unat x * 2 ^ n mod 256"
  unfolding unsigned_push_bit_eq unfolding take_bit_eq_mod push_bit_eq_mult by simp

lemma and_low_u8:
  "(x :: u8) AND 0x3 = take_bit 2 x" "x AND 0xf = take_bit 4 x" "x AND 0x3f = take_bit 6 x"
  by (simp_all add: take_bit_eq_mask mask_eq_exp_minus_1)

lemma unat_masks:
  "unat ((x :: u8) AND 0x3) = unat x mod 4"
  "unat (x AND 0xf) = unat x mod 16"
  "unat (x AND 0x3f) = unat x mod 64"
  "unat (drop_bit 2 (x AND 0xfc)) = unat x div 4 mod 64"
  "unat (drop_bit 4 (x AND 0xf0)) = unat x div 16 mod 16"
  "unat (drop_bit 6 (x AND 0xc0)) = unat x div 64 mod 4"
  "unat (drop_bit 4 (x AND 0x30)) = unat x div 16 mod 4"
  "unat (drop_bit 2 (x AND 0x3c)) = unat x div 4 mod 16"
  by (simp_all add: drop_bit_and and_low_u8 unat_drop_u8 unat_take_u8)

lemma unat_u8_less [simp]: "unat (x :: u8) < 256"
  using unsigned_less [of x] by simp

lemmas u8_arith = unat_word_ariths unat_masks unat_push_u8 word_unat_eq_iff

lemma u8_split:
  "(n :: nat) < 256 \<Longrightarrow> n div 4 mod 64 * 4 + n mod 4 = n"
  "n < 256 \<Longrightarrow> n div 16 mod 16 * 16 + n mod 16 = n"
  "n < 256 \<Longrightarrow> n div 64 mod 4 * 64 + n mod 64 = n"
  using less_mult_imp_div_less [of n 64 4] less_mult_imp_div_less [of n 16 16]
    less_mult_imp_div_less [of n 4 64]
  by (simp_all add: div_mult_mod_eq)

lemma join_first: "push_bit 2 (drop_bit 2 (a AND 0xfc))
    + drop_bit 4 ((push_bit 4 (a AND 3) + drop_bit 4 (b AND 0xf0)) AND 0x30) = (a :: u8)"
  using unat_u8_less [of a] unat_u8_less [of b] by (simp only: u8_arith, simp add: u8_split)

lemma join_second:
  "push_bit 4 ((push_bit 4 (a AND 3) + drop_bit 4 (b AND 0xf0)) AND 0xf)
    + drop_bit 2 ((push_bit 2 (b AND 0xf) + drop_bit 6 (c AND 0xc0)) AND 0x3c) = (b :: u8)"
  using unat_u8_less [of a] unat_u8_less [of b] unat_u8_less [of c] by (simp only: u8_arith, simp add: u8_split)

lemma join_third:
  "push_bit 6 ((push_bit 2 (b AND 0xf) + drop_bit 6 (c AND 0xc0)) AND 0x3) + (c AND 0x3f) = (c :: u8)"
  using unat_u8_less [of b] unat_u8_less [of c] by (simp only: u8_arith, simp add: u8_split)

lemma join_split:
  "char_array_4_of a b c = [p, q, r, s] \<Longrightarrow> char_array_3_of p q r s = [a, b, c]"
  unfolding char_array_4_of_def char_array_3_of_def
  using join_first [of a b] join_second [of a b c] join_third [of b c] by auto

section \<open>The alphabet is a bijection on six bits\<close>

lemma alphabet_ok:
  "i < 64 \<Longrightarrow> is_base64 (base64_chars ! i) \<and> base64_chars ! i \<noteq> CHR ''=''
     \<and> index_of (base64_chars ! i) base64_chars = Some i"
proof -
  assume "i < 64"
  then have "i \<in> set [0..<64]" by simp
  moreover have "list_all (\<lambda>i. is_base64 (base64_chars ! i) \<and> base64_chars ! i \<noteq> CHR ''=''
     \<and> index_of (base64_chars ! i) base64_chars = Some i) [0..<64]" by code_simp
  ultimately show ?thesis unfolding list_all_iff by blast
qed

lemma base64_char_ok:
  assumes "unat w < 64"
  shows "is_base64 (base64_char w)" "base64_char w \<noteq> CHR ''=''" "base64_find (base64_char w) = w"
  using alphabet_ok [OF assms] by (simp_all add: base64_char_def base64_find_def)

lemma char_array_4_small: "\<forall>w\<in>set (char_array_4_of a b c). unat w < 64"
proof -
  have "unat (push_bit 4 (a AND 0x03) + drop_bit 4 (b AND 0xf0)) < 64"
    using unat_u8_less [of a] unat_u8_less [of b] by (simp only: u8_arith, simp)
  moreover have "unat (push_bit 2 (b AND 0x0f) + drop_bit 6 (c AND 0xc0)) < 64"
    using unat_u8_less [of b] unat_u8_less [of c] by (simp only: u8_arith, simp)
  ultimately show ?thesis by (simp only: char_array_4_of_def list.set ball_simps unat_masks, simp)
qed

section \<open>Round trip\<close>

text \<open>The first output bytes of a group depend on its first characters only.\<close>

lemma char_array_3_prefix:
  "take 1 (char_array_3_of p q r s) = take 1 (char_array_3_of p q r' s')"
  "take 2 (char_array_3_of p q r s) = take 2 (char_array_3_of p q r s')"
  by (simp_all add: char_array_3_of_def)

lemma char_array_4_cases:
  obtains p q r s where "char_array_4_of a b c = [p, q, r, s]"
    "unat p < 64" "unat q < 64" "unat r < 64" "unat s < 64" "char_array_3_of p q r s = [a, b, c]"
proof -
  obtain p q r s where g: "char_array_4_of a b c = [p, q, r, s]"
    by (simp add: char_array_4_of_def)
  then show ?thesis
    using that char_array_4_small [of a b c] join_split [OF g] by simp
qed

lemma decode_group:
  "base64_decode_loop (map base64_char (char_array_4_of a b c) @ t) [] r
     = base64_decode_loop t [] (r @ [a, b, c])"
  by (rule char_array_4_cases [of a b c]) (simp add: base64_char_ok)

lemma encode_loop_decodes:
  "\<exists>s. base64_encode_loop xs [] ret = (drop (length xs - length xs mod 3) xs, ret @ s) \<and>
     (\<forall>t r. base64_decode_loop (s @ t) [] r
            = base64_decode_loop t [] (r @ take (length xs - length xs mod 3) xs))"
proof (induction xs arbitrary: ret rule: length_induct)
  case (1 xs)
  show ?case
  proof (cases "length xs < 3")
    case True
    then consider "xs = []" | a where "xs = [a]" | a b where "xs = [a, b]"
      by (cases xs; cases "tl xs"; cases "tl (tl xs)") auto
    then show ?thesis by cases auto
  next
    case False
    then obtain a b c ys where xs: "xs = a # b # c # ys"
      by (cases xs; cases "tl xs"; cases "tl (tl xs)") auto
    let ?g = "map base64_char (char_array_4_of a b c)"
    have le: "length ys mod 3 \<le> length ys" by simp
    have len: "length xs = length ys + 3" by (simp add: xs)
    have mod: "length xs mod 3 = length ys mod 3" by (simp only: len mod_add_self2)
    have diff: "length xs - length xs mod 3 = Suc (Suc (Suc (length ys - length ys mod 3)))"
      using le mod len by linarith
    from "1.IH" xs obtain s where
      s: "base64_encode_loop ys [] (ret @ ?g)
            = (drop (length ys - length ys mod 3) ys, (ret @ ?g) @ s)"
      "\<And>t r. base64_decode_loop (s @ t) [] r
            = base64_decode_loop t [] (r @ take (length ys - length ys mod 3) ys)"
      by (metis length_Cons less_SucI lessI)
    have "base64_encode_loop xs [] ret = (drop (length xs - length xs mod 3) xs, ret @ (?g @ s))"
      using s(1) by (simp only: diff) (simp add: xs)
    moreover have "base64_decode_loop ((?g @ s) @ t) [] r
            = base64_decode_loop t [] (r @ take (length xs - length xs mod 3) xs)" for t r
      using s(2) [of t "r @ [a, b, c]"] decode_group [of a b c "s @ t" r]
      by (simp only: diff) (simp add: xs)
    ultimately show ?thesis by blast
  qed
qed

lemma decode_last_1:
  assumes dec: "\<And>t r. base64_decode_loop (s @ t) [] r = base64_decode_loop t [] (r @ out)"
  shows "base64_decode (s @ take 2 (map base64_char (char_array_4_of a 0 0)) @ ''=='') = out @ [a]"
proof -
  obtain p q x y where g: "char_array_4_of a 0 0 = [p, q, x, y]" "unat p < 64" "unat q < 64"
    and j: "char_array_3_of p q x y = [a, 0, 0]"
    by (rule char_array_4_cases)
  have "base64_decode_loop (s @ [base64_char p, base64_char q, CHR ''='', CHR ''='']) [] []
      = ([base64_char p, base64_char q], out)"
    using dec g by (simp add: base64_char_ok)
  moreover have "take (Suc 0) (char_array_3_of p q z z) = [a]" for z
    using char_array_3_prefix(1) [of p q z z x y] by (simp add: j)
  ultimately show ?thesis
    using g by (simp add: base64_decode_def base64_char_ok)
qed

lemma decode_last_2:
  assumes dec: "\<And>t r. base64_decode_loop (s @ t) [] r = base64_decode_loop t [] (r @ out)"
  shows "base64_decode (s @ take 3 (map base64_char (char_array_4_of a b 0)) @ ''='') = out @ [a, b]"
proof -
  obtain p q x y where g: "char_array_4_of a b 0 = [p, q, x, y]" "unat p < 64" "unat q < 64"
      "unat x < 64"
    and j: "char_array_3_of p q x y = [a, b, 0]"
    by (rule char_array_4_cases)
  have "base64_decode_loop (s @ [base64_char p, base64_char q, base64_char x, CHR ''='']) [] []
      = ([base64_char p, base64_char q, base64_char x], out)"
    using dec g by (simp add: base64_char_ok)
  moreover have "take (Suc (Suc 0)) (char_array_3_of p q x z) = [a, b]" for z
    using char_array_3_prefix(2) [of p q x z y] by (simp add: j numeral_2_eq_2)
  ultimately show ?thesis
    using g by (simp add: base64_decode_def base64_char_ok)
qed

lemma encode_last_1:
  "base64_encode_loop bs [] [] = ([a], s) \<Longrightarrow>
    base64_encode bs = s @ take 2 (map base64_char (char_array_4_of a 0 0)) @ ''==''"
  by (simp add: base64_encode_def numeral_2_eq_2)

lemma encode_last_2:
  "base64_encode_loop bs [] [] = ([a, b], s) \<Longrightarrow>
    base64_encode bs = s @ take 3 (map base64_char (char_array_4_of a b 0)) @ ''=''"
  by (simp add: base64_encode_def numeral_3_eq_3)


end
