(* ===== verification/Reusable_Buffer.thy ===== *)
theory Reusable_Buffer
  imports Prelude
begin

text \<open>
  \<open>src/src/utils/reusable_buffer.h\<close>: the circular input buffer of a connector.  The
  pointers \<open>wr\<close> and \<open>rd\<close> are offsets into \<open>mem\<close>, \<open>N\<close> is the length of
  \<open>mem\<close>.  The buffer refines a FIFO queue of bytes (\<open>contents\<close>); the interface its
  client relies on is the locale \<open>read_buffer\<close>.
\<close>

section \<open>State and operations\<close>

record reusable_buffer =
  bound :: bool
  mem :: "char list"
  wr :: nat
  rd :: nat

abbreviation capacity :: "reusable_buffer \<Rightarrow> nat" where
  "capacity b \<equiv> length (mem b)"

definition reusable_buffer_new :: "nat \<Rightarrow> reusable_buffer" where
  "reusable_buffer_new n = \<lparr>bound = False, mem = replicate n (CHR 0x00), wr = 0, rd = 0\<rparr>"

definition avail_mem :: "reusable_buffer \<Rightarrow> reusable_buffer \<times> nat" where
  "avail_mem b =
    (if wr b < rd b then (b, rd b - wr b)
     else if wr b > rd b then (b, capacity b - wr b)
     else if bound b then (b, 0)
     else (b\<lparr>rd := 0, wr := 0\<rparr>, capacity b))"

text \<open>\<open>reserve\<close> hands out the writable region as its offset and its length.\<close>

definition reserve :: "reusable_buffer \<Rightarrow> reusable_buffer \<times> nat \<times> nat" where
  "reserve b = (let (b', n) = avail_mem b in (b', wr b', n))"

definition produce :: "reusable_buffer \<Rightarrow> nat \<Rightarrow> reusable_buffer \<times> nat option" where
  "produce b len =
    (let (b', max) = avail_mem b in
     if len \<le> max
     then (if wr b' + len = capacity b' then b'\<lparr>bound := True, wr := 0\<rparr>
           else b'\<lparr>wr := wr b' + len\<rparr>, Some (wr b'))
     else (b', None))"

definition consume :: "reusable_buffer \<Rightarrow> nat \<Rightarrow> reusable_buffer \<times> size_t" where
  "consume b p =
    (let upper_bound = (if bound b then capacity b else wr b) in
     if 0 < p \<and> p \<le> upper_bound
     then (if p = capacity b then b\<lparr>bound := False, rd := 0\<rparr> else b\<lparr>rd := p\<rparr>,
           of_nat p - of_nat (rd b))
     else (b, 0))"

text \<open>What \<open>async_read_some\<close> does to the region it was given.\<close>

definition store :: "reusable_buffer \<Rightarrow> nat \<Rightarrow> char list \<Rightarrow> reusable_buffer" where
  "store b off xs = b\<lparr>mem := take off (mem b) @ xs @ drop (off + length xs) (mem b)\<rparr>"

section \<open>Invariant and abstraction\<close>

definition buf_inv :: "reusable_buffer \<Rightarrow> bool" where
  "buf_inv b \<longleftrightarrow> rd b < capacity b \<and> wr b < capacity b \<and>
     (if bound b then wr b \<le> rd b else rd b \<le> wr b)"

definition contents :: "reusable_buffer \<Rightarrow> char list" where
  "contents b = (if bound b then drop (rd b) (mem b) @ take (wr b) (mem b)
                 else take (wr b - rd b) (drop (rd b) (mem b)))"

lemmas buffer_defs = buf_inv_def contents_def avail_mem_def reserve_def produce_def consume_def
  store_def

lemma buf_inv_new [wf_intros]: "0 < n \<Longrightarrow> buf_inv (reusable_buffer_new n)"
  by (simp add: reusable_buffer_new_def buf_inv_def)

lemma contents_new: "contents (reusable_buffer_new n) = []"
  by (simp add: reusable_buffer_new_def contents_def)

lemma length_contents: "buf_inv b \<Longrightarrow> length (contents b) \<le> capacity b"
  by (auto simp: buffer_defs)

lemma contents_empty_iff: "buf_inv b \<Longrightarrow> contents b = [] \<longleftrightarrow> \<not> bound b \<and> wr b = rd b"
  by (auto simp: buffer_defs)

text \<open>The writable region lies inside the memory and holds no unread byte.\<close>

lemma reserve_region:
  assumes "buf_inv b" "reserve b = (b', off, n)"
  shows "buf_inv b' \<and> contents b' = contents b \<and> capacity b' = capacity b \<and> off = wr b'
    \<and> off + n \<le> capacity b \<and> length (contents b) + n \<le> capacity b
    \<and> avail_mem b' = (b', n)"
  using assms by (auto simp: buffer_defs split: if_splits)

lemma reserve_empty:
  assumes "buf_inv b" "contents b = []"
  shows "reserve b = (b\<lparr>rd := 0, wr := 0\<rparr>, 0, capacity b)"
  using assms by (simp add: contents_empty_iff) (simp add: buffer_defs)

lemma avail_mem_store: "avail_mem (store b off xs) = (let (b', n) = avail_mem b in (store b' off xs, n))"
  if "off + length xs \<le> capacity b"
  using that by (auto simp: avail_mem_def store_def)

lemma capacity_store: "off + length xs \<le> capacity b \<Longrightarrow> capacity (store b off xs) = capacity b"
  by (simp add: store_def)

text \<open>Storing into the reserved region and producing it appends the bytes to the queue.\<close>

lemma produce_appends:
  assumes inv: "buf_inv b" and av: "avail_mem b = (b, n)" and len: "length xs \<le> n"
  shows "\<exists>b'. produce (store b (wr b) xs) (length xs) = (b', Some (wr b)) \<and> buf_inv b'
    \<and> contents b' = contents b @ xs \<and> capacity b' = capacity b
    \<and> (wr b + length xs < capacity b \<longrightarrow> wr b' = wr b + length xs)"
proof -
  have fits: "wr b + length xs \<le> capacity b"
    using reserve_region [OF inv, of b "wr b" n] av len by (simp add: reserve_def)
  let ?s = "store b (wr b) xs"
  let ?b' = "if wr b + length xs = capacity b then ?s\<lparr>bound := True, wr := 0\<rparr>
             else ?s\<lparr>wr := wr b + length xs\<rparr>"
  have "avail_mem ?s = (?s, n)" using avail_mem_store [OF fits] av by simp
  then have "produce ?s (length xs) = (?b', Some (wr b))"
    using len capacity_store [OF fits] by (simp add: produce_def) (simp add: store_def)
  moreover have "buf_inv ?b'"
    using inv fits av len by (auto simp: buffer_defs split: if_splits)
  moreover have "contents ?b' = contents b @ xs"
  proof (cases "bound b")
    case True
    then have "wr b + length xs \<le> rd b" "rd b < capacity b"
      using inv av len by (auto simp: buffer_defs split: if_splits)
    then show ?thesis using True by (auto simp: contents_def store_def)
  next
    case False
    then have "rd b \<le> wr b" using inv by (simp add: buf_inv_def)
    then show ?thesis using False fits
      by (auto simp: contents_def store_def take_drop min_def)
  qed
  moreover have "capacity ?b' = capacity b" using capacity_store [OF fits] by simp
  ultimately show ?thesis by (intro exI [of _ ?b']) auto
qed

text \<open>Consuming up to \<open>p\<close> drops exactly the bytes between the read pointer and \<open>p\<close>.\<close>

lemma consume_drops:
  assumes inv: "buf_inv b" and p: "rd b < p" "p \<le> (if bound b then capacity b else wr b)"
  shows "\<exists>b'. consume b p = (b', of_nat (p - rd b)) \<and> buf_inv b'
    \<and> contents b' = drop (p - rd b) (contents b) \<and> capacity b' = capacity b"
proof -
  let ?b' = "if p = capacity b then b\<lparr>bound := False, rd := 0\<rparr> else b\<lparr>rd := p\<rparr>"
  have "consume b p = (?b', of_nat (p - rd b))"
    using p by (auto simp: consume_def)
  moreover have "buf_inv ?b'" using inv p by (auto simp: buf_inv_def split: if_splits)
  moreover have "contents ?b' = drop (p - rd b) (contents b)"
    using inv p by (auto simp: contents_def buf_inv_def drop_take)
  ultimately show ?thesis by auto
qed

section \<open>The interface a reader relies on\<close>

text \<open>
  A reader reserves a region, has it filled, produces what was read and, when the bytes have
  been handled, consumes them up to their end.  The laws speak of the queue of unread bytes
  only; \<open>pos\<close> is the address the produced bytes start at.
\<close>

locale read_buffer =
  fixes inv :: "'b \<Rightarrow> bool"
    and queue :: "'b \<Rightarrow> char list"
    and cap :: "'b \<Rightarrow> nat"
    and rsv :: "'b \<Rightarrow> 'b \<times> nat \<times> nat"
    and fill :: "'b \<Rightarrow> nat \<Rightarrow> char list \<Rightarrow> 'b"
    and prod :: "'b \<Rightarrow> nat \<Rightarrow> 'b \<times> nat option"
    and cons :: "'b \<Rightarrow> nat \<Rightarrow> 'b \<times> size_t"
  assumes reserve_all: "inv b \<Longrightarrow> queue b = [] \<Longrightarrow> \<exists>b' off. rsv b = (b', off, cap b)"
    and produce_law: "inv b \<Longrightarrow> queue b = [] \<Longrightarrow> rsv b = (b', off, n) \<Longrightarrow> length xs \<le> n \<Longrightarrow>
      \<exists>b''. prod (fill b' off xs) (length xs) = (b'', Some off) \<and> inv b'' \<and> queue b'' = xs
        \<and> cap b'' = cap b
        \<and> (xs \<noteq> [] \<longrightarrow> (\<exists>b3. cons b'' (off + length xs) = (b3, of_nat (length xs))
              \<and> inv b3 \<and> queue b3 = [] \<and> cap b3 = cap b))"
begin

text \<open>
  One read cycle (reserve, fill, produce, consume everything) exposes exactly the bytes read
  and leaves the buffer empty, so that the next reservation is again the whole buffer.
\<close>

lemma cycle:
  assumes "inv b" "queue b = []" "xs \<noteq> []" "length xs \<le> cap b"
  shows "\<exists>b1 off b2 b3. rsv b = (b1, off, cap b)
    \<and> prod (fill b1 off xs) (length xs) = (b2, Some off) \<and> queue b2 = xs
    \<and> cons b2 (off + length xs) = (b3, of_nat (length xs)) \<and> inv b3 \<and> queue b3 = []
    \<and> (\<exists>b4 off'. rsv b3 = (b4, off', cap b))"
proof -
  obtain b1 off where r: "rsv b = (b1, off, cap b)"
    using reserve_all assms(1,2) by blast
  obtain b2 b3 where p: "prod (fill b1 off xs) (length xs) = (b2, Some off)" "queue b2 = xs"
    and c: "cons b2 (off + length xs) = (b3, of_nat (length xs))" "inv b3" "queue b3 = []"
      "cap b3 = cap b"
    using produce_law [OF assms(1,2) r assms(4)] assms(3) by blast
  have "\<exists>b4 off'. rsv b3 = (b4, off', cap b)"
    using reserve_all [OF c(2,3)] c(4) by simp
  with r p c show ?thesis by blast
qed

end

lemma read_cycle_empties:
  assumes inv: "buf_inv b" and e: "contents b = []" and r: "reserve b = (b', off, n)"
    and len: "length xs \<le> n"
  shows "\<exists>b2. produce (store b' off xs) (length xs) = (b2, Some off) \<and> buf_inv b2
    \<and> contents b2 = xs \<and> capacity b2 = capacity b
    \<and> (xs \<noteq> [] \<longrightarrow> (\<exists>b3. consume b2 (off + length xs) = (b3, of_nat (length xs))
          \<and> buf_inv b3 \<and> contents b3 = [] \<and> capacity b3 = capacity b))"
proof -
  have b': "b' = b\<lparr>rd := 0, wr := 0\<rparr>" "off = 0" "n = capacity b"
    using r reserve_empty [OF inv e] by simp_all
  have region: "buf_inv b'" "contents b' = []" "capacity b' = capacity b" "avail_mem b' = (b', n)"
    using reserve_region [OF inv r] e by simp_all
  from produce_appends [OF region(1,4) len] b'
  obtain b2 where p: "produce (store b' off xs) (length xs) = (b2, Some off)" "buf_inv b2"
    "contents b2 = xs" "capacity b2 = capacity b"
    "length xs < capacity b \<longrightarrow> wr b2 = length xs"
    using region by auto
  have rd2: "rd b2 = 0"
    using p(1) b' region(4)
    by (auto simp: produce_def avail_mem_def store_def Let_def split: if_splits)
  have "\<exists>b3. consume b2 (off + length xs) = (b3, of_nat (length xs))
          \<and> buf_inv b3 \<and> contents b3 = [] \<and> capacity b3 = capacity b" if "xs \<noteq> []"
  proof -
    have upper: "length xs = (if bound b2 then capacity b2 else wr b2)"
      using p(2,3) rd2 by (auto simp: contents_def buf_inv_def)
    have lo: "rd b2 < length xs" using that rd2 by simp
    have hi: "length xs \<le> (if bound b2 then capacity b2 else wr b2)" using upper by simp
    from consume_drops [OF p(2) lo hi] show ?thesis
      using rd2 b'(2) p(3,4) by simp
  qed
  with p show ?thesis by blast
qed

interpretation rb: read_buffer buf_inv contents capacity reserve store produce consume
proof unfold_locales
  fix b assume "buf_inv b" "contents b = []"
  then show "\<exists>b' off. reserve b = (b', off, capacity b)" by (simp add: reserve_empty)
next
  fix b b' off n and xs :: string
  assume "buf_inv b" "contents b = []" "reserve b = (b', off, n)" "length xs \<le> n"
  then show "\<exists>b''. produce (store b' off xs) (length xs) = (b'', Some off) \<and> buf_inv b''
    \<and> contents b'' = xs \<and> capacity b'' = capacity b
    \<and> (xs \<noteq> [] \<longrightarrow> (\<exists>b3. consume b'' (off + length xs) = (b3, of_nat (length xs))
          \<and> buf_inv b3 \<and> contents b3 = [] \<and> capacity b3 = capacity b))"
    by (rule read_cycle_empties)
qed

section \<open>Properties\<close>

text \<open>
  One read cycle of a connector on an empty buffer.  The whole capacity is offered to the
  socket; whatever non-empty amount is read is exactly what the handler is shown; consuming it
  reports its length and leaves the buffer empty with its whole capacity available again.
\<close>

theorem buffer_read_cycle:
  assumes "buf_inv b" "contents b = []" "xs \<noteq> []" "length xs \<le> capacity b"
  shows "\<exists>b1 off b2 b3. reserve b = (b1, off, capacity b)
    \<and> produce (store b1 off xs) (length xs) = (b2, Some off) \<and> contents b2 = xs
    \<and> consume b2 (off + length xs) = (b3, of_nat (length xs)) \<and> buf_inv b3 \<and> contents b3 = []
    \<and> (\<exists>b4 off'. reserve b3 = (b4, off', capacity b))"
  using assms by (rule rb.cycle)

theorem buffer_read_cycle_witness:
  "\<exists>b1 off b2 b3. reserve (reusable_buffer_new 4) = (b1, off, capacity (reusable_buffer_new 4))
    \<and> produce (store b1 off ''abcd'') (length ''abcd'') = (b2, Some off) \<and> contents b2 = ''abcd''
    \<and> consume b2 (off + length ''abcd'') = (b3, of_nat (length ''abcd''))
    \<and> buf_inv b3 \<and> contents b3 = []
    \<and> (\<exists>b4 off'. reserve b3 = (b4, off', capacity (reusable_buffer_new 4)))"
proof -
  have "buf_inv (reusable_buffer_new 4)" "contents (reusable_buffer_new 4) = []"
    by (simp_all add: buf_inv_new contents_new)
  moreover have "''abcd'' \<noteq> []" "length ''abcd'' \<le> capacity (reusable_buffer_new 4)"
    by (simp_all add: reusable_buffer_new_def)
  ultimately show ?thesis by (rule buffer_read_cycle)
qed


text \<open>A wrapped buffer: two unread bytes at the end, one already written at the start.\<close>

definition wrapped_buffer :: reusable_buffer where
  "wrapped_buffer = \<lparr>bound = True, mem = ''dxbc'', wr = 1, rd = 2\<rparr>"


end
