(* ===== verification/Http_Commons.thy ===== *)
theory Http_Commons
  imports Utils
begin

text \<open>
  \<open>src/src/http/http_commons.h\<close> (protocol versions, content types, the literals of the
  protocol), \<open>src/src/errors/error_codes.h\<close>, \<open>src/src/errors/internal_error.h/.cpp\<close>
  and \<open>src/src/http/connection_error.h\<close>: the vocabulary of the HTTP layers and the error
  values they exchange.
\<close>

section \<open>Protocol vocabulary\<close>

datatype proto_version = UNSET | HTTP11 | HTTP10 | HTTP20

datatype tranfer_encoding = TE_chunked | TE_compress | TE_deflate | TE_gzip | TE_identity

datatype content_type_t = Charset_utf8 | Text_html | Text_css | Text_plain | Image_png
  | Image_jpeg | Image_x_icon | Application_x_font_woff | Application_x_font_ttf
  | Application_json

definition space :: string where "space = '' ''"
definition comma :: string where "comma = '',''"
definition colon :: string where "colon = '':''"
definition questionmark :: string where "questionmark = ''?''"
definition hash :: string where "hash = ''#''"
definition comma_space :: string where "comma_space = '', ''"
definition semicolon_space :: string where "semicolon_space = ''; ''"
definition colon_space :: string where "colon_space = '': ''"
definition slash :: string where "slash = ''/''"
definition crlf :: string where "crlf = [CHR 0x0D, CHR 0x0A]"
definition transfer_chunked_termination :: string where
  "transfer_chunked_termination = CHR ''0'' # [CHR 0x0D, CHR 0x0A]"

definition http10 :: string where "http10 = ''HTTP/1.0''"
definition http11 :: string where "http11 = ''HTTP/1.1''"
definition http20 :: string where "http20 = ''HTTP/2.0''"

definition hf_connection :: string where "hf_connection = ''connection''"
definition hf_host :: string where "hf_host = ''host''"
definition hf_date :: string where "hf_date = ''date''"
definition hf_content_len :: string where "hf_content_len = ''content-length''"
definition hf_accept_encoding :: string where "hf_accept_encoding = ''accept-encoding''"
definition hf_transfer_encoding :: string where "hf_transfer_encoding = ''transfer-encoding''"
definition hf_via :: string where "hf_via = ''via''"

definition hv_keepalive :: string where "hv_keepalive = ''keep-alive''"
definition hv_connection_close :: string where "hv_connection_close = ''close''"
definition hv_chunked :: string where "hv_chunked = ''Chunked''"

lemmas header_names = hf_connection_def hf_host_def hf_content_len_def hf_accept_encoding_def
  hf_transfer_encoding_def hf_via_def hf_date_def

lemmas separators = space_def comma_space_def semicolon_space_def colon_space_def crlf_def
  slash_def questionmark_def hash_def

fun content_type_name :: "content_type_t \<Rightarrow> string" where
  "content_type_name Charset_utf8 = ''charset=UTF-8''"
| "content_type_name Text_html = ''text/html''"
| "content_type_name Text_css = ''text/css''"
| "content_type_name Text_plain = ''text/plain''"
| "content_type_name Image_png = ''image/png''"
| "content_type_name Image_jpeg = ''image/jpeg''"
| "content_type_name Image_x_icon = ''image/x-icon''"
| "content_type_name Application_x_font_woff = ''application/x-font-woff''"
| "content_type_name Application_x_font_ttf = ''application/x-font-ttf''"
| "content_type_name Application_json = ''application/json''"

definition content_type :: "string \<Rightarrow> content_type_t" where
  "content_type filename =
    (if ends_with filename ''.png'' then Image_png
     else if ends_with filename ''.jpeg'' \<or> ends_with filename ''.jpg'' then Image_jpeg
     else if ends_with filename ''.css'' then Text_css
     else if ends_with filename ''.ico'' then Image_x_icon
     else if ends_with filename ''.woff'' then Application_x_font_woff
     else if ends_with filename ''.ttf'' then Application_x_font_ttf
     else Text_html)"

section \<open>Errors\<close>

datatype http_error_code = Bad_request | Unauthorized | Forbidden | Not_found
  | Method_not_allowed | Request_timeout | Length_required | Entity_too_large | Uri_too_long
  | Unsupported_media_type | Unprocessable_entity | Internal_server_error | Bad_gateway
  | Service_unavailable | Gateway_timeout | Not_implemented

fun http_error_value :: "http_error_code \<Rightarrow> 16 word" where
  "http_error_value Bad_request = 400"
| "http_error_value Unauthorized = 401"
| "http_error_value Forbidden = 403"
| "http_error_value Not_found = 404"
| "http_error_value Method_not_allowed = 405"
| "http_error_value Request_timeout = 408"
| "http_error_value Length_required = 411"
| "http_error_value Entity_too_large = 413"
| "http_error_value Uri_too_long = 414"
| "http_error_value Unsupported_media_type = 415"
| "http_error_value Unprocessable_entity = 422"
| "http_error_value Internal_server_error = 500"
| "http_error_value Bad_gateway = 502"
| "http_error_value Service_unavailable = 503"
| "http_error_value Gateway_timeout = 504"
| "http_error_value Not_implemented = 501"

definition error_to_string :: "http_error_code \<Rightarrow> string" where
  "error_to_string e = (case e of
     Bad_request \<Rightarrow> ''bad request''
   | Forbidden \<Rightarrow> ''forbidden''
   | Method_not_allowed \<Rightarrow> ''method not allowed''
   | Request_timeout \<Rightarrow> ''request timeout''
   | Internal_server_error \<Rightarrow> ''internal server error''
   | Bad_gateway \<Rightarrow> ''bad gateway''
   | Service_unavailable \<Rightarrow> ''service unavailable''
   | Gateway_timeout \<Rightarrow> ''gateway timeout''
   | Not_implemented \<Rightarrow> ''not implemented''
   | Unprocessable_entity \<Rightarrow> ''unprocessable entity''
   | Entity_too_large \<Rightarrow> ''entity too large''
   | Not_found \<Rightarrow> ''not found''
   | Length_required \<Rightarrow> ''length required''
   | Uri_too_long \<Rightarrow> ''URI too long!''
   | Unsupported_media_type \<Rightarrow> ''Unsupported media type.''
   | _ \<Rightarrow> ''Unknown error'')"

datatype error_code = Success | Decoding | Closed_by_client | Invalid_read | Connection_closed
  | Missing_stream_element | Write_error

text \<open>
  \<open>connection_error\<close> wraps an \<open>error_code\<close>; its message is a constant.
  \<open>internal_error\<close> keeps a code and where it was raised; the pointers may be null.
\<close>

record connection_error =
  errc :: error_code

definition connection_error_message :: "connection_error \<Rightarrow> string" where
  "connection_error_message e = ''there was an error''"

record internal_error =
  ie_code :: "32 word"
  ie_source :: "string option"
  ie_file :: "string option"
  ie_line :: "32 word"

definition internal_error_default :: internal_error where
  "internal_error_default = \<lparr>ie_code = 0, ie_source = None, ie_file = None, ie_line = 0\<rparr>"

definition internal_error_new :: "32 word \<Rightarrow> string \<Rightarrow> internal_error" where
  "internal_error_new code source =
    \<lparr>ie_code = code, ie_source = Some source, ie_file = None, ie_line = 0\<rparr>"

definition internal_error_new_at :: "32 word \<Rightarrow> string \<Rightarrow> string \<Rightarrow> 32 word \<Rightarrow> internal_error" where
  "internal_error_new_at code source file line =
    \<lparr>ie_code = code, ie_source = Some source, ie_file = Some file, ie_line = line\<rparr>"

definition internal_error_eq :: "internal_error \<Rightarrow> internal_error \<Rightarrow> bool" where
  "internal_error_eq a b \<longleftrightarrow> ie_code a = ie_code b"

definition internal_error_bool :: "internal_error \<Rightarrow> bool" where
  "internal_error_bool e \<longleftrightarrow> 0 <s ie_code e"

definition internal_error_string :: "internal_error \<Rightarrow> string result" where
  "internal_error_string e = (case ie_source e of
     None \<Rightarrow> Inl Undefined_behaviour
   | Some source \<Rightarrow>
      Inr (source @ '' - '' @ from_int32 (ie_code e)
        @ (case ie_file e of None \<Rightarrow> [] | Some file \<Rightarrow> '' '' @ file)
        @ (if ie_line e \<noteq> 0 then '' '' @ from_int32 (ie_line e) else [])))"

section \<open>Properties\<close>

text \<open>The numeric codes are distinct and are client or server error statuses.\<close>

lemma http_error_value_inj: "http_error_value a = http_error_value b \<longleftrightarrow> a = b"
  by (cases a; cases b) simp_all

lemma http_error_value_range: "400 \<le> http_error_value e \<and> http_error_value e < 505"
  by (cases e) simp_all

text \<open>A file name gets the type of its extension whatever stands before it.\<close>

lemma content_type_extension:
  "content_type (f @ ''.png'') = Image_png" "content_type (f @ ''.jpeg'') = Image_jpeg"
  "content_type (f @ ''.jpg'') = Image_jpeg" "content_type (f @ ''.css'') = Text_css"
  "content_type (f @ ''.ico'') = Image_x_icon" "content_type (f @ ''.woff'') = Application_x_font_woff"
  "content_type (f @ ''.ttf'') = Application_x_font_ttf"
  by (simp_all add: content_type_def ends_with_def)

end
