(* ===== verification/Multimap.thy ===== *)
theory Multimap
  imports Prelude
begin

text \<open>
  The part of \<open>std::multimap\<close> that the message classes use, as the library implements it: a
  sequence of entries in the order of their keys, entries of equal keys in the order of their
  insertion.  \<open>find\<close> is the first entry of its key (libstdc++ takes it from
  \<open>lower_bound\<close>), \<open>insert\<close> puts the entry after those of the same key, \<open>erase\<close> with a key
  removes all of its entries.  The locale \<open>multimap\<close> is the interface the header code relies
  on: what \<open>equal_range\<close> returns after each operation.
\<close>

type_synonym ('k, 'v) mmap = "('k \<times> 'v) list"

fun mm_insert :: "'k::linorder \<Rightarrow> 'v \<Rightarrow> ('k, 'v) mmap \<Rightarrow> ('k, 'v) mmap" where
  "mm_insert k v [] = [(k, v)]"
| "mm_insert k v (e # m) = (if fst e \<le> k then e # mm_insert k v m else (k, v) # e # m)"

definition mm_erase :: "'k \<Rightarrow> ('k, 'v) mmap \<Rightarrow> ('k, 'v) mmap" where
  "mm_erase k m = filter (\<lambda>e. fst e \<noteq> k) m"

definition mm_equal_range :: "'k \<Rightarrow> ('k, 'v) mmap \<Rightarrow> ('k, 'v) mmap" where
  "mm_equal_range k m = filter (\<lambda>e. fst e = k) m"

definition mm_find :: "'k \<Rightarrow> ('k, 'v) mmap \<Rightarrow> ('k \<times> 'v) option" where
  "mm_find k m = find (\<lambda>e. fst e = k) m"

abbreviation mm_values :: "'k \<Rightarrow> ('k, 'v) mmap \<Rightarrow> 'v list" where
  "mm_values k m \<equiv> map snd (mm_equal_range k m)"

definition mm_inv :: "('k::linorder, 'v) mmap \<Rightarrow> bool" where
  "mm_inv m \<longleftrightarrow> sorted (map fst m)"

section \<open>The representation\<close>

lemma set_mm_insert [simp]: "set (mm_insert k v m) = insert (k, v) (set m)"
  by (induction m) auto

lemma length_mm_insert [simp]: "length (mm_insert k v m) = Suc (length m)"
  by (induction m) auto

lemma mm_inv_Nil [simp, wf_intros]: "mm_inv []"
  by (simp add: mm_inv_def)

lemma mm_inv_Cons: "mm_inv (e # m) \<longleftrightarrow> (\<forall>x\<in>set m. fst e \<le> fst x) \<and> mm_inv m"
  by (auto simp: mm_inv_def)

lemma mm_inv_insert [wf_intros]: "mm_inv m \<Longrightarrow> mm_inv (mm_insert k v m)"
  by (induction m) (auto simp: mm_inv_Cons)

lemma mm_inv_filter [wf_intros]: "mm_inv m \<Longrightarrow> mm_inv (filter P m)"
  by (induction m) (auto simp: mm_inv_Cons)

lemma mm_inv_erase [wf_intros]: "mm_inv m \<Longrightarrow> mm_inv (mm_erase k m)"
  by (simp add: mm_erase_def mm_inv_filter)

lemma values_erase [simp]: "mm_values j (mm_erase k m) = (if j = k then [] else mm_values j m)"
  by (auto simp: mm_equal_range_def mm_erase_def filter_empty_conv intro!: arg_cong [of _ _ "map snd"]
      filter_cong)

lemma values_Nil [simp]: "mm_values k [] = []"
  by (simp add: mm_equal_range_def)

lemma values_insert:
  "mm_inv m \<Longrightarrow>
    mm_values j (mm_insert k v m) = mm_values j m @ (if j = k then [v] else [])"
proof (induction m)
  case Nil
  then show ?case by (simp add: mm_equal_range_def)
next
  case (Cons e m)
  have IH: "map snd (filter (\<lambda>e. fst e = j) (mm_insert k v m))
      = map snd (filter (\<lambda>e. fst e = j) m) @ (if j = k then [v] else [])"
    using Cons by (simp add: mm_inv_Cons mm_equal_range_def)
  have "\<not> fst e \<le> k \<Longrightarrow> filter (\<lambda>e. fst e = k) m = []"
    using Cons.prems by (fastforce simp: mm_inv_Cons filter_empty_conv)
  with IH show ?case by (auto simp: mm_equal_range_def)
qed

lemma mm_find_values:
  "map_option snd (mm_find k m) = (case mm_values k m of [] \<Rightarrow> None | v # _ \<Rightarrow> Some v)"
  by (induction m) (auto simp: mm_find_def mm_equal_range_def)

lemma mm_values_set: "set (mm_values k m) = {v. (k, v) \<in> set m}"
  by (force simp: mm_equal_range_def)

lemma insert_above: "\<forall>x\<in>set m. fst x \<le> k \<Longrightarrow> mm_insert k v m = m @ [(k, v)]"
  by (induction m) auto

text \<open>The representation is canonical: the values of each key determine it.\<close>

lemma mm_inv_head_values:
  assumes "mm_inv ((k, v) # m)"
  shows "mm_equal_range k ((k, v) # m) = (k, v) # mm_equal_range k m"
    and "j < k \<Longrightarrow> mm_values j ((k, v) # m) = []"
  using assms by (force simp: mm_equal_range_def mm_inv_Cons filter_empty_conv)+

lemma mm_ext:
  "mm_inv m \<Longrightarrow> mm_inv n \<Longrightarrow> (\<And>k. mm_values k m = mm_values k n) \<Longrightarrow> m = n"
proof (induction m arbitrary: n)
  case Nil
  show ?case
  proof (cases n)
    case (Cons e n')
    then show ?thesis using Nil.prems(3) [of "fst e"] by (simp add: mm_equal_range_def)
  qed simp
next
  case (Cons e m)
  obtain k v where e: "e = (k, v)" by (cases e)
  have ne: "n \<noteq> []" using Cons.prems(3) [of k] e by (auto simp: mm_equal_range_def)
  then obtain j w n' where n: "n = (j, w) # n'" by (cases n) auto
  have kj: "j = k"
  proof (rule ccontr)
    assume "j \<noteq> k"
    then consider "j < k" | "k < j" by (meson linorder_less_linear)
    then show False
    proof cases
      case 1
      then show False using mm_inv_head_values(2) [of k v m j] Cons.prems(1) Cons.prems(3) [of j] e n
        by (simp add: mm_equal_range_def)
    next
      case 2
      then show False using mm_inv_head_values(2) [of j w n' k] Cons.prems(2) Cons.prems(3) [of k] e n
        by (simp add: mm_equal_range_def)
    qed
  qed
  have w: "w = v" using Cons.prems(3) [of k] e n kj by (simp add: mm_equal_range_def)
  have "mm_values i m = mm_values i n'" for i
    using Cons.prems(3) [of i] e n kj w by (auto simp: mm_equal_range_def split: if_splits)
  then have "m = n'" using Cons.IH Cons.prems(1,2) n by (simp add: mm_inv_Cons)
  then show ?case using e n kj w by simp
qed

section \<open>The interface\<close>

locale multimap =
  fixes inv :: "'m \<Rightarrow> bool"
    and vals :: "'k \<Rightarrow> 'm \<Rightarrow> 'v list"
    and ins :: "'k \<Rightarrow> 'v \<Rightarrow> 'm \<Rightarrow> 'm"
    and del :: "'k \<Rightarrow> 'm \<Rightarrow> 'm"
  assumes ins_inv: "inv m \<Longrightarrow> inv (ins k v m)"
    and del_inv: "inv m \<Longrightarrow> inv (del k m)"
    and vals_ins: "inv m \<Longrightarrow> vals j (ins k v m) = vals j m @ (if j = k then [v] else [])"
    and vals_del: "inv m \<Longrightarrow> vals j (del k m) = (if j = k then [] else vals j m)"
    and ext: "inv m \<Longrightarrow> inv n \<Longrightarrow> (\<And>k. vals k m = vals k n) \<Longrightarrow> m = n"
begin

text \<open>Erasing a key and inserting it again is how the code replaces a header.\<close>

lemma vals_replace:
  "inv m \<Longrightarrow> vals j (ins k v (del k m)) = (if j = k then [v] else vals j m)"
  by (simp add: vals_ins vals_del del_inv)

lemma replace_inv: "inv m \<Longrightarrow> inv (ins k v (del k m))"
  by (simp add: ins_inv del_inv)

lemma replace_twice: "inv m \<Longrightarrow> ins k w (del k (ins k v (del k m))) = ins k w (del k m)"
  by (rule ext) (simp_all add: vals_ins vals_del del_inv ins_inv)

lemma ins_commute: "inv m \<Longrightarrow> j \<noteq> k \<Longrightarrow> ins j v (ins k w m) = ins k w (ins j v m)"
  by (rule ext) (simp_all add: vals_ins ins_inv)

end

interpretation mm: multimap mm_inv mm_values mm_insert mm_erase
proof unfold_locales
  fix m n :: "('a, 'b) mmap"
  assume "mm_inv m" "mm_inv n" "\<And>k. mm_values k m = mm_values k n"
  then show "m = n" by (rule mm_ext)
qed (simp_all add: mm_inv_insert mm_inv_erase values_insert)

end
