(* ===== verification/Structured_Data.thy ===== *)
theory Structured_Data
  imports Http_Commons Multimap
begin

text \<open>
  \<open>src/src/http/http_structured_data.h/.cpp\<close>: the base class of requests and responses.
  Headers are a multimap from lower-case names to values; the fields \<open>chunked\<close>,
  \<open>keepalive\<close> and \<open>content_len\<close> mirror three of them.  Requests and responses extend
  the record the way the classes inherit.  \<open>header\<close> is \<open>noexcept\<close> and parses
  \<open>Content-Length\<close> with \<open>std::stoull\<close>, whose exceptions end the process; every
  operation that may reach it returns a result.
\<close>

section \<open>State\<close>

datatype type_index = Type_request | Type_response

datatype ip_address = Ip_v4 "32 word" | Ip_v6 "128 word"

record http_structured_data =
  sd_type :: type_index
  sd_protocol :: proto_version
  sd_channel :: proto_version
  sd_headers :: "(string, string) mmap"
  sd_chunked :: bool
  sd_keepalive :: bool
  sd_default_keepalive :: bool
  sd_content_len :: size_t
  sd_origin :: ip_address
  destination_headers :: "string list"

section \<open>Header operations\<close>

definition remove_header :: "string \<Rightarrow> 'a http_structured_data_scheme \<Rightarrow> 'a http_structured_data_scheme" where
  "remove_header key d = d\<lparr>sd_headers := mm_erase key (sd_headers d)\<rparr>"

definition insert_header :: "string \<Rightarrow> string \<Rightarrow> 'a http_structured_data_scheme \<Rightarrow> 'a http_structured_data_scheme" where
  "insert_header key value d = d\<lparr>sd_headers := mm_insert key value (sd_headers d)\<rparr>"

definition header :: "string \<Rightarrow> string \<Rightarrow> 'a http_structured_data_scheme \<Rightarrow> 'a http_structured_data_scheme result" where
  "header key value d =
    (let lowercase_key = map tolower key in
     if lowercase_key = hf_connection \<or> lowercase_key = hf_host \<or> lowercase_key = hf_via
        \<or> lowercase_key = hf_accept_encoding
     then Inr (insert_header lowercase_key value (remove_header lowercase_key d))
     else if lowercase_key = hf_content_len
     then (case stoull value of
             Inl e \<Rightarrow> Inl (Terminated e)
           | Inr n \<Rightarrow> Inr (insert_header lowercase_key value
                       (remove_header lowercase_key (d\<lparr>sd_content_len := n\<rparr>))))
     else if lowercase_key = hf_transfer_encoding \<and> icompare value ''chunked''
     then Inr (insert_header lowercase_key value
            (remove_header hf_content_len
              (remove_header hf_transfer_encoding (d\<lparr>sd_chunked := True\<rparr>))))
     else Inr (insert_header lowercase_key value d))"

definition http_structured_data_new :: "type_index \<Rightarrow> http_structured_data result" where
  "http_structured_data_new t =
    res_bind (header hf_content_len ''0''
      \<lparr>sd_type = t, sd_protocol = UNSET, sd_channel = UNSET, sd_headers = [], sd_chunked = False,
       sd_keepalive = False, sd_default_keepalive = True, sd_content_len = 0,
       sd_origin = Ip_v4 0, destination_headers = []\<rparr>)
    (header hf_connection hv_connection_close)"

definition get_header :: "string \<Rightarrow> 'a http_structured_data_scheme \<Rightarrow> string" where
  "get_header key d = (case mm_find key (sd_headers d) of Some e \<Rightarrow> snd e | None \<Rightarrow> [])"

definition headers :: "string \<Rightarrow> 'a http_structured_data_scheme \<Rightarrow> string list" where
  "headers key d = map snd (mm_equal_range key (sd_headers d))"

definition all_headers :: "'a http_structured_data_scheme \<Rightarrow> (string, string) mmap" where
  "all_headers d = fold (\<lambda>h ret. mm_insert (fst h) (snd h) ret) (sd_headers d) []"

definition headers_count :: "'a http_structured_data_scheme \<Rightarrow> nat" where
  "headers_count d = length (sd_headers d)"

definition has :: "string \<Rightarrow> 'a http_structured_data_scheme \<Rightarrow> bool" where
  "has key d \<longleftrightarrow> length (get_header key d) \<noteq> 0"

definition has_pred :: "string \<Rightarrow> (string \<Rightarrow> bool) \<Rightarrow> 'a http_structured_data_scheme \<Rightarrow> bool" where
  "has_pred key pred d \<longleftrightarrow> find (\<lambda>h. pred (snd h)) (mm_equal_range key (sd_headers d)) \<noteq> None"

definition has_value :: "string \<Rightarrow> string \<Rightarrow> 'a http_structured_data_scheme \<Rightarrow> bool" where
  "has_value key val = has_pred key (\<lambda>v. v = val)"

definition has_entry :: "(string \<times> string \<Rightarrow> bool) \<Rightarrow> 'a http_structured_data_scheme \<Rightarrow> bool" where
  "has_entry pred d \<longleftrightarrow> find pred (sd_headers d) \<noteq> None"

fun filter_loop :: "('e \<Rightarrow> bool) \<Rightarrow> 'e list \<Rightarrow> 'e list" where
  "filter_loop pred [] = []"
| "filter_loop pred (e # rest) =
    (if pred e then filter_loop pred rest else e # filter_loop pred rest)"

definition filter_headers :: "(string \<times> string \<Rightarrow> bool) \<Rightarrow> 'a http_structured_data_scheme \<Rightarrow> 'a http_structured_data_scheme" where
  "filter_headers pred d = d\<lparr>sd_headers := filter_loop pred (sd_headers d)\<rparr>"

definition has_same_headers :: "'a http_structured_data_scheme \<Rightarrow> 'b http_structured_data_scheme \<Rightarrow> bool" where
  "has_same_headers d other =
    (if length (sd_headers d) = length (sd_headers other)
     then std_equal (\<lambda>a b. a = b) (sd_headers other) (sd_headers d) else False)"

definition sd_eq :: "'a http_structured_data_scheme \<Rightarrow> 'b http_structured_data_scheme \<Rightarrow> bool" where
  "sd_eq d other \<longleftrightarrow> has_same_headers d other \<and> sd_protocol d = sd_protocol other
    \<and> sd_channel d = sd_channel other \<and> sd_chunked d = sd_chunked other
    \<and> sd_keepalive d = sd_keepalive other \<and> sd_content_len d = sd_content_len other"

section \<open>Setters of the mirrored fields\<close>

definition set_chunked :: "bool \<Rightarrow> 'a http_structured_data_scheme \<Rightarrow> 'a http_structured_data_scheme result" where
  "set_chunked val d =
    (if val \<noteq> sd_chunked d
     then res_bind (if val then header hf_transfer_encoding hv_chunked d
                    else Inr (remove_header hf_transfer_encoding d))
            (\<lambda>d. Inr (d\<lparr>sd_chunked := val\<rparr>))
     else Inr d)"

definition set_keepalive :: "bool \<Rightarrow> 'a http_structured_data_scheme \<Rightarrow> 'a http_structured_data_scheme result" where
  "set_keepalive val d =
    header hf_connection (if val then hv_keepalive else hv_connection_close)
      (d\<lparr>sd_keepalive := val, sd_default_keepalive := False\<rparr>)"

definition set_content_len :: "size_t \<Rightarrow> 'a http_structured_data_scheme \<Rightarrow> 'a http_structured_data_scheme result" where
  "set_content_len val d =
    assert_that (\<not> sd_chunked d \<or> val = 0)
      (header hf_content_len (to_dec (unat val))
        (remove_header hf_content_len (d\<lparr>sd_content_len := val\<rparr>)))"

definition set_protocol :: "proto_version \<Rightarrow> 'a http_structured_data_scheme \<Rightarrow> 'a http_structured_data_scheme result" where
  "set_protocol val d =
    (if sd_protocol d \<noteq> val then
       (let d = d\<lparr>sd_protocol := val\<rparr> in
        if sd_default_keepalive d then
          (let d = remove_header hf_connection d in
           case val of
             HTTP11 \<Rightarrow> Inr (d\<lparr>sd_keepalive := True\<rparr>)
           | HTTP10 \<Rightarrow> res_bind (header hf_connection hv_connection_close d)
                        (\<lambda>d. Inr (d\<lparr>sd_keepalive := False\<rparr>))
           | _ \<Rightarrow> Inr d)
        else Inr d)
     else Inr d)"

definition set_channel :: "proto_version \<Rightarrow> 'a http_structured_data_scheme \<Rightarrow> 'a http_structured_data_scheme" where
  "set_channel val d = d\<lparr>sd_channel := val\<rparr>"

definition set_hostname :: "string \<Rightarrow> 'a http_structured_data_scheme \<Rightarrow> 'a http_structured_data_scheme result" where
  "set_hostname val d = header hf_host val d"

definition set_date :: "string \<Rightarrow> 'a http_structured_data_scheme \<Rightarrow> 'a http_structured_data_scheme result" where
  "set_date val d = header hf_date val (remove_header hf_date d)"

definition set_origin :: "ip_address \<Rightarrow> 'a http_structured_data_scheme \<Rightarrow> 'a http_structured_data_scheme" where
  "set_origin a d = d\<lparr>sd_origin := a\<rparr>"

definition get_date :: "'a http_structured_data_scheme \<Rightarrow> string" where
  "get_date d = get_header hf_date d"

definition get_hostname :: "'a http_structured_data_scheme \<Rightarrow> string" where
  "get_hostname d = get_header hf_host d"

fun proto_to_string :: "proto_version \<Rightarrow> string" where
  "proto_to_string HTTP10 = http10"
| "proto_to_string HTTP11 = http11"
| "proto_to_string HTTP20 = http20"
| "proto_to_string UNSET = []"

definition protocol :: "'a http_structured_data_scheme \<Rightarrow> string" where
  "protocol d = proto_to_string (sd_protocol d)"

section \<open>Serialisation\<close>

text \<open>
  The loop keeps the message so far, the key of the last line started (a pointer, null at
  first) and the flag \<open>not_first\<close>.
\<close>

fun serialize_loop :: "string \<Rightarrow> string option \<Rightarrow> bool \<Rightarrow> (string \<times> string) list \<Rightarrow> string \<times> string option" where
  "serialize_loop msg last_key not_first [] = (msg, last_key)"
| "serialize_loop msg last_key not_first (h # rest) =
    (let (msg, last_key) =
       (if not_first \<and> last_key = Some (fst h)
        then (msg @ (if fst h = ''cookie'' then semicolon_space else comma_space), last_key)
        else ((if not_first then msg @ crlf else msg) @ fst h @ colon_space, Some (fst h)));
       msg = (if snd h \<noteq> [] then msg @ snd h else msg)
     in serialize_loop msg last_key True rest)"

definition sd_serialize :: "'a http_structured_data_scheme \<Rightarrow> string result" where
  "sd_serialize d = (case serialize_loop [] None False (sd_headers d) of
     (msg, None) \<Rightarrow> Inl Assert_failed
   | (msg, Some last_key) \<Rightarrow> Inr ((if last_key \<noteq> [] then msg @ crlf else msg) @ crlf))"


section \<open>The operations a user can apply\<close>

datatype sd_op = Op_header string string | Op_remove string | Op_filter "string \<times> string \<Rightarrow> bool"
  | Op_chunked bool | Op_keepalive bool | Op_content_len size_t | Op_protocol proto_version
  | Op_channel proto_version | Op_hostname string | Op_date string | Op_origin ip_address

fun apply_op :: "sd_op \<Rightarrow> 'a http_structured_data_scheme \<Rightarrow> 'a http_structured_data_scheme result" where
  "apply_op (Op_header k v) d = header k v d"
| "apply_op (Op_remove k) d = Inr (remove_header k d)"
| "apply_op (Op_filter p) d = Inr (filter_headers p d)"
| "apply_op (Op_chunked b) d = set_chunked b d"
| "apply_op (Op_keepalive b) d = set_keepalive b d"
| "apply_op (Op_content_len n) d = set_content_len n d"
| "apply_op (Op_protocol p) d = set_protocol p d"
| "apply_op (Op_channel p) d = Inr (set_channel p d)"
| "apply_op (Op_hostname h) d = set_hostname h d"
| "apply_op (Op_date v) d = set_date v d"
| "apply_op (Op_origin a) d = Inr (set_origin a d)"

fun apply_ops :: "sd_op list \<Rightarrow> 'a http_structured_data_scheme \<Rightarrow> 'a http_structured_data_scheme result" where
  "apply_ops [] d = Inr d"
| "apply_ops (op # ops) d = res_bind (apply_op op d) (apply_ops ops)"

section \<open>Well-formedness\<close>

text \<open>
  Names are lower case and ordered; \<open>connection\<close>, \<open>host\<close>, \<open>via\<close>,
  \<open>accept-encoding\<close> and \<open>content-length\<close> occur at most once; a
  \<open>content-length\<close> header states the length the message object carries; a header that
  announces the chunked encoding is mirrored by the flag.
\<close>

definition unique_names :: "string list" where
  "unique_names = [hf_connection, hf_host, hf_via, hf_accept_encoding, hf_content_len]"

definition sd_wf :: "'a http_structured_data_scheme \<Rightarrow> bool" where
  "sd_wf d \<longleftrightarrow> mm_inv (sd_headers d) \<and> (\<forall>e\<in>set (sd_headers d). map tolower (fst e) = fst e)
    \<and> (\<forall>k\<in>set unique_names. length (headers k d) \<le> 1)
    \<and> (\<forall>v\<in>set (headers hf_content_len d). stoull v = Inr (sd_content_len d))
    \<and> ((\<exists>v\<in>set (headers hf_transfer_encoding d). icompare v ''chunked'') \<longrightarrow> sd_chunked d)"

lemmas sd_setters = set_channel_def set_origin_def

lemma headers_remove [simp]: "headers j (remove_header k d) = (if j = k then [] else headers j d)"
  by (simp add: headers_def remove_header_def)

lemma headers_insert [simp]:
  "mm_inv (sd_headers d) \<Longrightarrow>
    headers j (insert_header k v d) = headers j d @ (if j = k then [v] else [])"
  by (simp add: headers_def insert_header_def values_insert)

lemma headers_update [simp]:
  "headers k (d\<lparr>sd_content_len := n\<rparr>) = headers k d" "headers k (d\<lparr>sd_chunked := c\<rparr>) = headers k d"
  "headers k (d\<lparr>sd_keepalive := c\<rparr>) = headers k d" "headers k (d\<lparr>sd_default_keepalive := c\<rparr>) = headers k d"
  "headers k (d\<lparr>sd_protocol := p\<rparr>) = headers k d" "headers k (d\<lparr>sd_channel := p\<rparr>) = headers k d"
  "headers k (d\<lparr>sd_origin := a\<rparr>) = headers k d"
  by (simp_all add: headers_def)

lemma fields_remove [simp]:
  "sd_headers (remove_header k d) = mm_erase k (sd_headers d)"
  "sd_content_len (remove_header k d) = sd_content_len d"
  "sd_chunked (remove_header k d) = sd_chunked d"
  "sd_keepalive (remove_header k d) = sd_keepalive d"
  "sd_protocol (remove_header k d) = sd_protocol d"
  "sd_default_keepalive (remove_header k d) = sd_default_keepalive d"
  by (simp_all add: remove_header_def)

lemma fields_insert [simp]:
  "sd_headers (insert_header k v d) = mm_insert k v (sd_headers d)"
  "sd_content_len (insert_header k v d) = sd_content_len d"
  "sd_chunked (insert_header k v d) = sd_chunked d"
  "sd_keepalive (insert_header k v d) = sd_keepalive d"
  "sd_protocol (insert_header k v d) = sd_protocol d"
  "sd_default_keepalive (insert_header k v d) = sd_default_keepalive d"
  by (simp_all add: insert_header_def)

lemma remove_header_content_len:
  "remove_header k (d\<lparr>sd_content_len := n\<rparr>) = (remove_header k d)\<lparr>sd_content_len := n\<rparr>"
  by (simp add: remove_header_def)

lemma sd_wf_inv: "sd_wf d \<Longrightarrow> mm_inv (sd_headers d)"
  by (simp add: sd_wf_def)

lemma sd_wf_remove [wf_intros]: "sd_wf d \<Longrightarrow> sd_wf (remove_header k d)"
  by (auto simp: sd_wf_def mm_inv_erase) (auto simp: mm_erase_def)

lemma filter_loop_filter: "filter_loop p xs = filter (\<lambda>e. \<not> p e) xs"
  by (induction xs) auto

lemma headers_filter:
  "headers k (filter_headers p d) = map snd (filter (\<lambda>e. \<not> p e) (mm_equal_range k (sd_headers d)))"
  by (simp add: headers_def filter_headers_def filter_loop_filter mm_equal_range_def conj_commute)

lemma sd_wf_filter [wf_intros]:
  assumes "sd_wf d"
  shows "sd_wf (filter_headers p d)"
proof -
  have sub: "set (headers k (filter_headers p d)) \<subseteq> set (headers k d)" for k
    unfolding headers_filter by (auto simp: headers_def)
  have len: "length (headers k (filter_headers p d)) \<le> length (headers k d)" for k
    unfolding headers_filter by (simp add: headers_def)
  have fld: "sd_headers (filter_headers p d) = filter (\<lambda>e. \<not> p e) (sd_headers d)"
    "sd_content_len (filter_headers p d) = sd_content_len d"
    "sd_chunked (filter_headers p d) = sd_chunked d"
    by (simp_all add: filter_headers_def filter_loop_filter)
  show ?thesis
    using assms sub len unfolding sd_wf_def fld
    by (meson filter_is_subset le_trans mm_inv_filter subsetD)
qed

lemma sd_wf_insert:
  assumes "sd_wf d" "map tolower k = k" "k \<in> set unique_names \<Longrightarrow> headers k d = []"
    "k = hf_content_len \<Longrightarrow> stoull v = Inr (sd_content_len d)"
    "k = hf_transfer_encoding \<Longrightarrow> icompare v ''chunked'' \<Longrightarrow> sd_chunked d"
  shows "sd_wf (insert_header k v d)"
  using assms sd_wf_inv [OF assms(1)] unfolding sd_wf_def
  by (auto simp: mm_inv_insert)

lemma sd_wf_content_len:
  "sd_wf d \<Longrightarrow> headers hf_content_len d = [] \<Longrightarrow> sd_wf (d\<lparr>sd_content_len := n\<rparr>)"
  by (simp add: sd_wf_def)

lemma sd_wf_chunked_True [wf_intros]: "sd_wf d \<Longrightarrow> sd_wf (d\<lparr>sd_chunked := True\<rparr>)"
  by (simp add: sd_wf_def)

lemma sd_wf_other_fields [wf_intros]:
  "sd_wf d \<Longrightarrow> sd_wf (d\<lparr>sd_keepalive := b\<rparr>)" "sd_wf d \<Longrightarrow> sd_wf (d\<lparr>sd_default_keepalive := b\<rparr>)"
  "sd_wf d \<Longrightarrow> sd_wf (d\<lparr>sd_protocol := p\<rparr>)" "sd_wf d \<Longrightarrow> sd_wf (d\<lparr>sd_channel := p\<rparr>)"
  "sd_wf d \<Longrightarrow> sd_wf (d\<lparr>sd_origin := a\<rparr>)"
  by (simp_all add: sd_wf_def)

text \<open>The names the code compares with are distinct and in lower case.\<close>

lemma tolower_names [simp]:
  "map tolower hf_connection = hf_connection" "map tolower hf_host = hf_host"
  "map tolower hf_via = hf_via" "map tolower hf_accept_encoding = hf_accept_encoding"
  "map tolower hf_content_len = hf_content_len" "map tolower hf_date = hf_date"
  "map tolower hf_transfer_encoding = hf_transfer_encoding"
  by (code_simp)+

lemma names_distinct [simp]:
  "distinct [hf_connection, hf_host, hf_via, hf_accept_encoding, hf_content_len,
     hf_transfer_encoding, hf_date]"
  by code_simp

lemma names_distinct_rev [simp]:
  "distinct [hf_date, hf_transfer_encoding, hf_content_len, hf_accept_encoding, hf_via, hf_host,
     hf_connection]"
  by code_simp

lemmas names_neq [simp] = names_distinct [simplified] names_distinct_rev [simplified]

lemma icompare_hv_chunked [simp]: "icompare hv_chunked ''chunked''"
  by code_simp


lemma stoull_zero [simp]: "stoull ''0'' = Inr 0"
proof -
  have "to_dec (unat (0 :: size_t)) = ''0''" by code_simp
  then show ?thesis using stoull_to_dec [of 0] by simp
qed

lemma in_unique_names: "k \<in> set unique_names \<longleftrightarrow> k = hf_connection \<or> k = hf_host \<or> k = hf_via
    \<or> k = hf_accept_encoding \<or> k = hf_content_len"
  by (auto simp: unique_names_def)

lemma sd_wf_header [wf_intros]:
  assumes wf: "sd_wf d" and h: "header key value d = Inr d'"
  shows "sd_wf d'"
proof -
  let ?k = "map tolower key"
  consider (single) "?k \<in> set unique_names" "?k \<noteq> hf_content_len"
      "d' = insert_header ?k value (remove_header ?k d)"
    | (cl) n where "?k = hf_content_len" "stoull value = Inr n"
      "d' = insert_header ?k value ((remove_header ?k d)\<lparr>sd_content_len := n\<rparr>)"
    | (te) "?k = hf_transfer_encoding"
      "d' = insert_header ?k value (remove_header hf_content_len
              (remove_header hf_transfer_encoding (d\<lparr>sd_chunked := True\<rparr>)))"
    | (other) "?k \<notin> set unique_names" "?k = hf_transfer_encoding \<Longrightarrow> \<not> icompare value ''chunked''"
      "d' = insert_header ?k value d"
    using h
    by (auto simp: header_def Let_def in_unique_names remove_header_content_len split: if_splits sum.splits)
  then show ?thesis
  proof cases
    case single
    then show ?thesis
      by (auto intro!: sd_wf_insert sd_wf_remove wf simp: in_unique_names)
  next
    case cl
    then show ?thesis
      by (auto intro!: sd_wf_insert sd_wf_content_len sd_wf_remove wf)
  next
    case te
    then show ?thesis
      by (auto intro!: sd_wf_insert sd_wf_remove sd_wf_chunked_True wf simp: in_unique_names)
  next
    case other
    then show ?thesis by (auto intro!: sd_wf_insert wf simp: in_unique_names)
  qed
qed

lemma header_total:
  "(\<exists>d'. header key value d = Inr d') \<longleftrightarrow>
     (map tolower key = hf_content_len \<longrightarrow> (\<exists>n. stoull value = Inr n))"
  by (auto simp: header_def Let_def split: sum.splits)

lemma header_connection:
  "header hf_connection v d = Inr (insert_header hf_connection v (remove_header hf_connection d))"
  by (simp add: header_def)

lemma sd_wf_connection:
  "sd_wf d \<Longrightarrow> sd_wf (insert_header hf_connection v (remove_header hf_connection d))"
  using sd_wf_header [OF _ header_connection] .

lemma header_transfer_chunked:
  "header hf_transfer_encoding hv_chunked d =
    Inr (insert_header hf_transfer_encoding hv_chunked (remove_header hf_content_len
          (remove_header hf_transfer_encoding (d\<lparr>sd_chunked := True\<rparr>))))"
  by (simp add: header_def)

lemma header_to_dec:
  "header hf_content_len (to_dec (unat n)) d =
    Inr (insert_header hf_content_len (to_dec (unat n)) (remove_header hf_content_len (d\<lparr>sd_content_len := n\<rparr>)))"
  by (simp add: header_def)

lemma sd_wf_apply_op [wf_intros]:
  assumes wf: "sd_wf d" and op: "apply_op op d = Inr d'"
  shows "sd_wf d'"
proof (cases op)
  case (Op_chunked b)
  have drop_te: "sd_wf ((remove_header hf_transfer_encoding d)\<lparr>sd_chunked := False\<rparr>)"
    using sd_wf_remove [OF wf, of hf_transfer_encoding] by (simp add: sd_wf_def)
  consider "d' = d" | "header hf_transfer_encoding hv_chunked d = Inr d'"
    | "d' = (remove_header hf_transfer_encoding d)\<lparr>sd_chunked := False\<rparr>"
    using op Op_chunked
    by (auto simp: set_chunked_def header_transfer_chunked remove_header_def insert_header_def
        split: if_splits)
  then show ?thesis
    using wf drop_te by cases (auto intro: sd_wf_header)
next
  case (Op_content_len n)
  have "sd_wf ((remove_header hf_content_len d)\<lparr>sd_content_len := n\<rparr>)"
    by (rule sd_wf_content_len) (simp_all add: sd_wf_remove wf)
  then show ?thesis using op Op_content_len
    by (auto simp: set_content_len_def remove_header_content_len intro: sd_wf_header)
next
  case (Op_keepalive b)
  then show ?thesis using op wf
    by (auto simp: set_keepalive_def header_connection intro!: sd_wf_connection sd_wf_other_fields)
next
  case (Op_protocol p)
  then show ?thesis using op wf
    by (auto simp: set_protocol_def Let_def header_connection split: if_splits proto_version.splits
        intro!: sd_wf_connection sd_wf_remove sd_wf_other_fields)
qed (use op wf in \<open>auto simp: set_hostname_def set_date_def sd_setters
       intro: sd_wf_header sd_wf_remove sd_wf_filter sd_wf_other_fields\<close>)

lemma sd_wf_apply_ops: "sd_wf d \<Longrightarrow> apply_ops ops d = Inr d' \<Longrightarrow> sd_wf d'"
  by (induction ops arbitrary: d) (auto simp: res_bind_eq_Inr intro: sd_wf_apply_op)

lemma sd_new_wf: "\<exists>d. http_structured_data_new t = Inr d \<and> sd_wf d"
proof -
  let ?d0 = "\<lparr>sd_type = t, sd_protocol = UNSET, sd_channel = UNSET, sd_headers = [], sd_chunked = False,
       sd_keepalive = False, sd_default_keepalive = True, sd_content_len = 0,
       sd_origin = Ip_v4 0, destination_headers = []\<rparr>"
  have wf0: "sd_wf ?d0" by (simp add: sd_wf_def headers_def)
  obtain d1 where d1: "header hf_content_len ''0'' ?d0 = Inr d1"
    using header_total [of hf_content_len "''0''" ?d0] by auto
  obtain d2 where d2: "header hf_connection hv_connection_close d1 = Inr d2"
    using header_connection by blast
  have "sd_wf d2" using sd_wf_header [OF sd_wf_header [OF wf0 d1] d2] .
  with d1 d2 show ?thesis by (simp add: http_structured_data_new_def)
qed


end
