(* ===== verification/Header_Block.thy ===== *)
theory Header_Block
  imports Structured_Data
begin

text \<open>
  The header block that \<open>http_structured_data::serialize\<close> writes: a reference for its text
  (one line per header name) and a reader of header blocks that recovers the headers from it.
\<close>

section \<open>What the serialised header block says\<close>

text \<open>
  Reference: consecutive entries of one name form a group; a group is one line, its values
  joined by \<open>"; "\<close> for \<open>cookie\<close> and by \<open>", "\<close> otherwise.
\<close>

fun join :: "'a list \<Rightarrow> 'a list list \<Rightarrow> 'a list" where
  "join sep [] = []"
| "join sep [x] = x"
| "join sep (x # y # ys) = x @ sep @ join sep (y # ys)"

fun group_headers :: "('k \<times> 'v) list \<Rightarrow> ('k \<times> 'v list) list" where
  "group_headers [] = []"
| "group_headers ((k, v) # hs) = (case group_headers hs of
     (j, vs) # gs \<Rightarrow> if k = j then (k, v # vs) # gs else (k, [v]) # (j, vs) # gs
   | [] \<Rightarrow> [(k, [v])])"

definition value_sep :: "string \<Rightarrow> string" where
  "value_sep k = (if k = ''cookie'' then semicolon_space else comma_space)"

definition field_line :: "string \<times> string list \<Rightarrow> string" where
  "field_line g = fst g @ colon_space @ join (value_sep (fst g)) (snd g)"

text \<open>A reader of header blocks: lines end with CRLF, an empty line ends the block.\<close>

fun read_line :: "string \<Rightarrow> (string \<times> string) option" where
  "read_line [] = None"
| "read_line (c # cs) =
    (if c = CHR 0x0D
     then (case cs of d # rest \<Rightarrow> if d = CHR 0x0A then Some ([], rest) else None | [] \<Rightarrow> None)
     else map_option (\<lambda>(l, r). (c # l, r)) (read_line cs))"

definition read_field :: "string \<Rightarrow> (string \<times> string) option" where
  "read_field l = (case dropWhile (\<lambda>c. c \<noteq> CHR '':'') l of
     c # d # v \<Rightarrow> if d = CHR '' '' then Some (takeWhile (\<lambda>c. c \<noteq> CHR '':'') l, v) else None
   | _ \<Rightarrow> None)"

lemma read_line_shorter: "read_line s = Some (l, r) \<Longrightarrow> length r < length s"
proof (induction s arbitrary: l r)
  case (Cons c cs)
  show ?case
  proof (cases "c = CHR 0x0D")
    case True
    then show ?thesis using Cons.prems by (cases cs) (simp_all split: if_splits)
  next
    case False
    then show ?thesis using Cons by (auto simp: less_SucI)
  qed
qed simp

function read_fields :: "string \<Rightarrow> ((string \<times> string) list \<times> string) option" where
  "read_fields s = (case read_line s of
     None \<Rightarrow> None
   | Some (l, rest) \<Rightarrow>
       if l = [] then Some ([], rest)
       else (case read_field l of
               None \<Rightarrow> None
             | Some f \<Rightarrow> map_option (\<lambda>(fs, r). (f # fs, r)) (read_fields rest)))"
  by pat_completeness auto
termination
  by (relation "measure length") (auto dest: read_line_shorter)

declare read_fields.simps [simp del]

lemma read_line_append: "CHR 0x0D \<notin> set l \<Longrightarrow> read_line (l @ crlf @ r) = Some (l, r)"
  by (induction l) (auto simp: crlf_def)

lemma read_field_append:
  "CHR '':'' \<notin> set k \<Longrightarrow> read_field (k @ colon_space @ v) = Some (k, v)"
proof -
  assume "CHR '':'' \<notin> set k"
  then have "dropWhile (\<lambda>c. c \<noteq> CHR '':'') (k @ colon_space @ v) = CHR '':'' # CHR '' '' # v"
    "takeWhile (\<lambda>c. c \<noteq> CHR '':'') (k @ colon_space @ v) = k"
    by (induction k) (auto simp: colon_space_def)
  then show ?thesis by (simp add: read_field_def)
qed

lemma read_fields_lines:
  assumes "\<forall>(k, v)\<in>set fs. CHR '':'' \<notin> set k \<and> CHR 0x0D \<notin> set k \<and> CHR 0x0D \<notin> set v"
  shows "read_fields (concat (map (\<lambda>(k, v). k @ colon_space @ v @ crlf) fs) @ crlf @ r) = Some (fs, r)"
  using assms
proof (induction fs)
  case Nil
  then show ?case by (simp add: read_fields.simps [of "_ @ _"] read_line_append [of "[]", simplified])
next
  case (Cons f fs)
  obtain k v where f: "f = (k, v)" by (cases f)
  let ?rest = "concat (map (\<lambda>(k, v). k @ colon_space @ v @ crlf) fs) @ crlf @ r"
  have cr: "CHR 0x0D \<notin> set (k @ colon_space @ v)" using Cons.prems f by (auto simp: colon_space_def)
  have split: "concat (map (\<lambda>(k, v). k @ colon_space @ v @ crlf) (f # fs)) @ crlf @ r
      = (k @ colon_space @ v) @ crlf @ ?rest"
    using f by simp
  have "read_fields ?rest = Some (fs, r)" using Cons by simp
  moreover have "read_field (k @ colon_space @ v) = Some (k, v)"
    using Cons.prems f by (intro read_field_append) auto
  ultimately show ?case
    unfolding split by (subst read_fields.simps) (simp only: read_line_append [OF cr] option.case prod.case, simp add: colon_space_def f)
qed

text \<open>What the loop of \<open>serialize\<close> appends after a line of name \<open>k\<close> was started.\<close>

fun tail_text :: "string \<Rightarrow> (string \<times> string) list \<Rightarrow> string" where
  "tail_text k [] = []"
| "tail_text k ((j, v) # hs) =
    (if k = j then value_sep k @ v else crlf @ j @ colon_space @ v) @ tail_text j hs"

lemma serialize_loop_tail:
  "serialize_loop msg (Some k) True hs = (msg @ tail_text k hs, Some (last (k # map fst hs)))"
  by (induction hs arbitrary: msg k) (auto simp: value_sep_def)

lemma group_headers_head: "\<exists>vs gs. group_headers ((k, v) # hs) = (k, vs) # gs \<and> vs \<noteq> []"
  by (cases "group_headers hs") auto

lemma tail_text_groups:
  "k @ colon_space @ v @ tail_text k hs = join crlf (map field_line (group_headers ((k, v) # hs)))"
proof (induction hs arbitrary: k v)
  case Nil
  then show ?case by (simp add: field_line_def)
next
  case (Cons h hs)
  obtain j w where h: "h = (j, w)" by (cases h)
  obtain vs gs where g: "group_headers ((j, w) # hs) = (j, vs) # gs" "vs \<noteq> []"
    using group_headers_head [of j w hs] by blast
  have "field_line (k, v # vs) = k @ colon_space @ v @ value_sep k @ join (value_sep k) vs"
    using g(2) by (cases vs) (simp_all add: field_line_def)
  then show ?case
    using Cons.IH [of j w] h g by (cases gs) (auto simp: field_line_def)
qed

lemma serialize_groups:
  assumes "sd_headers d \<noteq> []" "fst (last (sd_headers d)) \<noteq> []"
  shows "sd_serialize d =
    Inr (concat (map (\<lambda>g. field_line g @ crlf) (group_headers (sd_headers d))) @ crlf)"
proof -
  obtain k v hs where hs: "sd_headers d = (k, v) # hs" using assms(1) by (cases "sd_headers d") auto
  have join_concat: "xs \<noteq> [] \<Longrightarrow> join crlf xs @ crlf = concat (map (\<lambda>x. x @ crlf) xs)" for xs
    by (induction "crlf :: string" xs rule: join.induct) auto
  have "last (k # map fst hs) \<noteq> []"
    using assms(2) hs by (cases hs) (auto simp: last_map)
  then have "sd_serialize d = Inr ((k @ colon_space @ v @ tail_text k hs) @ crlf @ crlf)"
    using hs by (simp add: sd_serialize_def serialize_loop_tail)
  moreover have "group_headers ((k, v) # hs) \<noteq> []" by (auto split: list.splits)
  ultimately show ?thesis
    unfolding tail_text_groups using hs join_concat [of "map field_line (group_headers ((k, v) # hs))"]
    by (simp add: comp_def)
qed

lemma set_group_headers:
  "(k, vs) \<in> set (group_headers hs) \<Longrightarrow> v \<in> set vs \<Longrightarrow> (k, v) \<in> set hs"
proof (induction hs arbitrary: k vs)
  case (Cons h hs)
  obtain i u where h: "h = (i, u)" by (cases h)
  show ?case
  proof (cases "group_headers hs")
    case Nil
    then show ?thesis using Cons.prems h by simp
  next
    case (Cons g gs)
    obtain j ws where g: "g = (j, ws)" by (cases g)
    have "(k, v) \<in> set hs" if "(k, us) \<in> set (g # gs)" "v \<in> set us" for us
      using Cons.IH [of k us] that Cons by simp
    then show ?thesis using Cons.prems h Cons g by (auto split: if_splits) blast
  qed
qed simp

lemma set_join: "set (join sep xs) \<subseteq> set sep \<union> (\<Union>x\<in>set xs. set x)"
  by (induction sep xs rule: join.induct) auto

text \<open>On an ordered header map every name has one group, which holds its values in order.\<close>

lemma group_headers_values:
  "mm_inv hs \<Longrightarrow> group_headers hs = map (\<lambda>k. (k, mm_values k hs)) (remdups_adj (map fst hs))"
proof (induction hs rule: group_headers.induct)
  case (2 k v hs)
  then have IH: "group_headers hs = map (\<lambda>k. (k, mm_values k hs)) (remdups_adj (map fst hs))"
    and le: "\<forall>x\<in>set hs. k \<le> fst x" and inv: "mm_inv hs"
    by (auto simp: mm_inv_Cons)
  show ?case
  proof (cases hs)
    case Nil
    then show ?thesis by (simp add: mm_equal_range_def)
  next
    case (Cons h hs')
    obtain j w where h: "h = (j, w)" by (cases h)
    obtain i js where e: "remdups_adj (map fst hs) = i # js"
      using Cons by (cases "remdups_adj (map fst hs)") auto
    have "i = j" using hd_remdups_adj [of "map fst hs"] Cons h unfolding e by simp
    with e have ra: "remdups_adj (map fst hs) = j # js" by simp
    have above: "\<forall>i\<in>set js. j < i"
      using inv sorted_remdups_adj_strict [of "map fst hs"] unfolding ra by (simp add: mm_inv_def)
    have kj: "k \<le> j" using le Cons h by simp
    have keep: "mm_values i ((k, v) # hs) = mm_values i hs" if "k \<noteq> i" for i
      using that by (simp add: mm_equal_range_def)
    have tl_eq: "map (\<lambda>i. (i, mm_values i ((k, v) # hs))) js = map (\<lambda>i. (i, mm_values i hs)) js"
      using above kj by (intro map_cong refl) (metis keep leD)
    have grp: "group_headers hs = (j, mm_values j hs) # map (\<lambda>i. (i, mm_values i hs)) js"
      using IH ra by simp
    have names: "remdups_adj (map fst ((k, v) # hs)) = (if k = j then j # js else k # j # js)"
      using ra Cons h by (simp add: remdups_adj_Cons)
    have vk: "mm_values k ((k, v) # hs) = v # mm_values k hs"
      by (simp add: mm_equal_range_def)
    show ?thesis
    proof (cases "k = j")
      case True
      then show ?thesis using names grp tl_eq vk by simp
    next
      case False
      then have "mm_values k hs = []"
        using le kj Cons h inv by (auto simp: mm_equal_range_def filter_empty_conv mm_inv_Cons)
      then show ?thesis using names grp tl_eq vk False keep by simp
    qed
  qed
qed simp


text \<open>
  A header block can be read back when it is not empty, names hold no colon and neither names
  nor values a carriage return.
\<close>

definition readable_headers :: "'a http_structured_data_scheme \<Rightarrow> bool" where
  "readable_headers d \<longleftrightarrow> sd_headers d \<noteq> [] \<and> fst (last (sd_headers d)) \<noteq> []
    \<and> (\<forall>(k, v)\<in>set (sd_headers d). CHR '':'' \<notin> set k \<and> CHR 0x0D \<notin> set k \<and> CHR 0x0D \<notin> set v)"

definition header_names_of :: "'a http_structured_data_scheme \<Rightarrow> string list" where
  "header_names_of d = remdups_adj (map fst (sd_headers d))"

lemma serialize_reads_back:
  assumes "sd_wf d" "readable_headers d"
  shows "\<exists>msg. sd_serialize d = Inr msg \<and>
    read_fields (msg @ body) =
      Some (map (\<lambda>k. (k, join (value_sep k) (headers k d))) (header_names_of d), body)"
proof -
  have hs: "sd_headers d \<noteq> []" "fst (last (sd_headers d)) \<noteq> []"
    "\<forall>(k, v)\<in>set (sd_headers d). CHR '':'' \<notin> set k \<and> CHR 0x0D \<notin> set k \<and> CHR 0x0D \<notin> set v"
    using assms(2) by (simp_all add: readable_headers_def)
  let ?names = "remdups_adj (map fst (sd_headers d))"
  let ?fs = "map (\<lambda>k. (k, join (value_sep k) (headers k d))) ?names"
  have grp: "group_headers (sd_headers d) = map (\<lambda>k. (k, headers k d)) ?names"
    using group_headers_values [OF sd_wf_inv [OF assms(1)]] by (simp add: headers_def)
  have "sd_serialize d = Inr (concat (map (\<lambda>(k, v). k @ colon_space @ v @ crlf) ?fs) @ crlf)"
    unfolding serialize_groups [OF hs(1,2)] grp by (simp add: field_line_def comp_def)
  moreover have "\<forall>(k, v)\<in>set ?fs. CHR '':'' \<notin> set k \<and> CHR 0x0D \<notin> set k \<and> CHR 0x0D \<notin> set v"
  proof -
    have "CHR '':'' \<notin> set k \<and> CHR 0x0D \<notin> set k \<and> CHR 0x0D \<notin> set (join (value_sep k) (headers k d))"
      if "k \<in> set (map fst (sd_headers d))" for k
    proof -
      have "\<forall>v\<in>set (headers k d). CHR 0x0D \<notin> set v"
        using hs(3) by (auto simp: headers_def mm_equal_range_def)
      moreover have "CHR 0x0D \<notin> set (value_sep k)"
        by (simp add: value_sep_def semicolon_space_def comma_space_def)
      ultimately show ?thesis
        using that hs(3) set_join [of "value_sep k" "headers k d"] by auto
    qed
    then show ?thesis by auto
  qed
  ultimately show ?thesis using read_fields_lines [of ?fs body] by (simp add: header_names_of_def)
qed


lemma headers_after_header:
  assumes "sd_wf d" "header key v d = Inr d'"
  shows "headers (map tolower key) d' =
      (if map tolower key \<in> set unique_names
          \<or> map tolower key = hf_transfer_encoding \<and> icompare v ''chunked''
       then [v] else headers (map tolower key) d @ [v])"
    and "j \<noteq> map tolower key \<Longrightarrow> headers j d' =
      (if j = hf_content_len \<and> map tolower key = hf_transfer_encoding \<and> icompare v ''chunked''
       then [] else headers j d)"
  using assms(2) sd_wf_inv [OF assms(1)]
  by (auto simp: header_def Let_def in_unique_names mm_inv_erase split: if_splits sum.splits)

section \<open>Properties\<close>



text \<open>
  C15: what the headers are after \<open>header(key, value)\<close>.  The names that must be unique, and
  a transfer encoding \<open>chunked\<close>, end up with exactly the new value; any other name gets the
  value appended after its previous ones.  No other name changes, except that announcing the
  chunked encoding removes \<open>content-length\<close>.
\<close>

theorem header_lookup:
  assumes "sd_wf d" "header key v d = Inr d'"
  shows "headers (map tolower key) d' =
      (if map tolower key \<in> set unique_names
          \<or> map tolower key = hf_transfer_encoding \<and> icompare v ''chunked''
       then [v] else headers (map tolower key) d @ [v])
    \<and> (\<forall>j. j \<noteq> map tolower key \<longrightarrow> headers j d' =
      (if j = hf_content_len \<and> map tolower key = hf_transfer_encoding \<and> icompare v ''chunked''
       then [] else headers j d))"
  using headers_after_header [OF assms] by blast

definition sample_message :: "http_structured_data" where
  "sample_message = \<lparr>sd_type = Type_request, sd_protocol = HTTP11, sd_channel = HTTP11,
     sd_headers = [(''content-length'', ''0''), (''cookie'', ''a=1''), (''cookie'', ''b=2''), (''host'', ''h'')],
     sd_chunked = False, sd_keepalive = True, sd_default_keepalive = True, sd_content_len = 0,
     sd_origin = Ip_v4 0, destination_headers = []\<rparr>"

lemma sample_message_wf: "sd_wf sample_message"
  by code_simp

theorem header_lookup_witness:
  "\<exists>d'. header ''Cookie'' ''c=3'' sample_message = Inr d'
    \<and> headers ''cookie'' d' = [''a=1'', ''b=2'', ''c=3''] \<and> headers ''host'' d' = [''h'']"
proof -
  obtain d' where h: "header ''Cookie'' ''c=3'' sample_message = Inr d'"
    using header_total [of "''Cookie''" "''c=3''" sample_message] by (auto simp: hf_content_len_def)
  have k: "map tolower ''Cookie'' = ''cookie''" "\<not> ''cookie'' \<in> set unique_names"
    "''cookie'' \<noteq> hf_transfer_encoding" "headers ''cookie'' sample_message = [''a=1'', ''b=2'']"
    "headers ''host'' sample_message = [''h'']"
    by code_simp+
  have "headers ''cookie'' d' = [''a=1'', ''b=2''] @ [''c=3'']"
    using header_lookup [OF sample_message_wf h] k by simp
  moreover have "headers ''host'' d' = [''h'']"
    using header_lookup [OF sample_message_wf h] k by simp
  ultimately show ?thesis using h by simp
qed

text \<open>
  The only ways a mutator ends the process.  \<open>header\<close> with a \<open>content-length\<close> value
  that \<open>std::stoull\<close> rejects terminates it, because the function is \<open>noexcept\<close>;
  \<open>content_len\<close> asserts that a chunked message gets no length.
\<close>

theorem mutator_failures:
  "apply_op op d = Inl f \<longleftrightarrow>
    (\<exists>k v e. op = Op_header k v \<and> map tolower k = hf_content_len \<and> stoull v = Inl e \<and> f = Terminated e)
    \<or> (\<exists>n. op = Op_content_len n \<and> sd_chunked d \<and> n \<noteq> 0 \<and> f = Assert_failed)"
proof (cases op)
  case (Op_header k v)
  then show ?thesis by (auto simp: header_def Let_def split: sum.splits)
next
  case (Op_content_len n)
  then show ?thesis by (auto simp: set_content_len_def assert_that_def header_to_dec)
next
  case (Op_date v)
  then show ?thesis by (simp add: set_date_def header_def)
next
  case (Op_hostname v)
  then show ?thesis by (simp add: set_hostname_def header_def)
qed (auto simp: set_chunked_def header_transfer_chunked set_keepalive_def header_connection
       set_protocol_def Let_def split: proto_version.splits)

text \<open>
  The header block of a well-formed message reads back.  When names and values hold no
  carriage return and names no colon, a reader of header blocks recovers from the serialised
  text, whatever follows it, one field per header name, in the order of the names, whose value
  is the list of the values of that name joined by the separator.
\<close>

theorem serialize_roundtrip:
  assumes "sd_wf d" "readable_headers d"
  shows "\<exists>msg. sd_serialize d = Inr msg \<and>
    read_fields (msg @ body) = Some (map (\<lambda>k. (k, join (value_sep k) (headers k d))) (header_names_of d), body)
    \<and> sorted_wrt (<) (header_names_of d) \<and> set (header_names_of d) = fst ` set (sd_headers d)"
  using serialize_reads_back [OF assms] sd_wf_inv [OF assms(1)]
  by (auto simp: header_names_of_def mm_inv_def sorted_remdups_adj_strict)

theorem serialize_roundtrip_witness:
  "\<exists>msg. sd_serialize sample_message = Inr msg \<and>
    read_fields (msg @ ''body'') =
      Some ([(''content-length'', ''0''), (''cookie'', ''a=1; b=2''), (''host'', ''h'')], ''body'')"
proof -
  have "readable_headers sample_message" by code_simp
  from serialize_roundtrip [OF sample_message_wf this, of "''body''"]
  show ?thesis
    by (simp add: sample_message_def headers_def header_names_of_def mm_equal_range_def value_sep_def
        semicolon_space_def)
qed

text \<open>
  A \<open>content-length\<close> set after the chunked encoding stays beside it: the message then
  carries both framings.
\<close>

lemma both_framings:
  "(case res_bind (http_structured_data_new Type_request)
      (apply_ops [Op_header ''Transfer-Encoding'' ''chunked'', Op_header ''Content-Length'' ''5'']) of
     Inr d \<Rightarrow> has hf_transfer_encoding d \<and> has hf_content_len d \<and> sd_chunked d
   | Inl f \<Rightarrow> False)"
  by code_simp

text \<open>An empty \<open>content-length\<close> value ends the process.\<close>

lemma empty_content_length_terminates:
  "header ''Content-Length'' [] d = Inl (Terminated Invalid_argument)"
proof -
  have "map tolower ''Content-Length'' = hf_content_len" "stoull [] = Inl Invalid_argument"
    by code_simp+
  then show ?thesis by (simp add: header_def)
qed

lemma all_headers_copy:
  assumes "sd_wf d"
  shows "all_headers d = sd_headers d"
proof -
  have "fold (\<lambda>h ret. mm_insert (fst h) (snd h) ret) hs acc = acc @ hs" if "mm_inv (acc @ hs)" for acc hs
    using that
  proof (induction hs arbitrary: acc)
    case (Cons h hs)
    then have "\<forall>x\<in>set acc. fst x \<le> fst h" by (auto simp: mm_inv_def sorted_append)
    then have "mm_insert (fst h) (snd h) acc = acc @ [h]" by (simp add: insert_above)
    then show ?case using Cons by simp
  qed simp
  from this [of "[]"] show ?thesis using sd_wf_inv [OF assms] by (simp add: all_headers_def)
qed

end
