(* ===== verification/Http_Message.thy ===== *)
theory Http_Message
  imports Header_Block
begin

text \<open>
  \<open>src/src/http/http_request.h/.cpp\<close> and \<open>src/src/http/http_response.h/.cpp\<close>: requests
  and responses as extensions of the message record, with the method table the request class
  builds from \<open>HTTP_METHOD_MAP\<close> of \<open>src/src/http_parser/http_parser.h\<close>.
\<close>

section \<open>Methods\<close>

datatype http_method = HTTP_DELETE | HTTP_GET | HTTP_HEAD | HTTP_POST | HTTP_PUT | HTTP_CONNECT | HTTP_OPTIONS |
  HTTP_TRACE | HTTP_COPY | HTTP_LOCK | HTTP_MKCOL | HTTP_MOVE | HTTP_PROPFIND |
  HTTP_PROPPATCH | HTTP_SEARCH | HTTP_UNLOCK | HTTP_BIND | HTTP_REBIND | HTTP_UNBIND |
  HTTP_ACL | HTTP_REPORT | HTTP_MKACTIVITY | HTTP_CHECKOUT | HTTP_MERGE | HTTP_MSEARCH |
  HTTP_NOTIFY | HTTP_SUBSCRIBE | HTTP_UNSUBSCRIBE | HTTP_PATCH | HTTP_PURGE |
  HTTP_MKCALENDAR | HTTP_LINK | HTTP_UNLINK | END

definition http_methods :: "http_method list" where
  "http_methods = [HTTP_DELETE, HTTP_GET, HTTP_HEAD, HTTP_POST, HTTP_PUT, HTTP_CONNECT, HTTP_OPTIONS,
    HTTP_TRACE, HTTP_COPY, HTTP_LOCK, HTTP_MKCOL, HTTP_MOVE, HTTP_PROPFIND, HTTP_PROPPATCH,
    HTTP_SEARCH, HTTP_UNLOCK, HTTP_BIND, HTTP_REBIND, HTTP_UNBIND, HTTP_ACL, HTTP_REPORT,
    HTTP_MKACTIVITY, HTTP_CHECKOUT, HTTP_MERGE, HTTP_MSEARCH, HTTP_NOTIFY, HTTP_SUBSCRIBE,
    HTTP_UNSUBSCRIBE, HTTP_PATCH, HTTP_PURGE, HTTP_MKCALENDAR, HTTP_LINK, HTTP_UNLINK, END]"

text \<open>The enumerators are numbered in order; the table holds their names as written.\<close>

definition http_method_of :: "nat \<Rightarrow> http_method" where
  "http_method_of i = http_methods ! i"

definition http_method_num :: "http_method \<Rightarrow> nat" where
  "http_method_num m = length (takeWhile (\<lambda>x. x \<noteq> m) http_methods)"

definition method_mapper :: "string list" where
  "method_mapper = [''DELETE'', ''GET'', ''HEAD'', ''POST'', ''PUT'', ''CONNECT'', ''OPTIONS'', ''TRACE'',
    ''COPY'', ''LOCK'', ''MKCOL'', ''MOVE'', ''PROPFIND'', ''PROPPATCH'', ''SEARCH'',
    ''UNLOCK'', ''BIND'', ''REBIND'', ''UNBIND'', ''ACL'', ''REPORT'', ''MKACTIVITY'',
    ''CHECKOUT'', ''MERGE'', ''MSEARCH'', ''NOTIFY'', ''SUBSCRIBE'', ''UNSUBSCRIBE'',
    ''PATCH'', ''PURGE'', ''MKCALENDAR'', ''LINK'', ''UNLINK'', ''NONE'']"

section \<open>Requests\<close>

record http_request = http_structured_data +
  rq_ssl :: bool
  rq_method :: http_method
  rq_schema :: string
  rq_urihost :: string
  rq_port :: string
  rq_path :: string
  rq_query :: string
  rq_fragment :: string
  rq_userinfo :: string
  rq_params :: "string \<rightharpoonup> string"

definition http_request_new :: "bool \<Rightarrow> http_method \<Rightarrow> http_request result" where
  "http_request_new ssl m = res_bind (http_structured_data_new Type_request)
    (\<lambda>d. Inr (http_structured_data.extend d
       (http_request.fields ssl m [] [] [] [] [] [] [] Map.empty)))"

fun method_loop :: "nat \<Rightarrow> string list \<Rightarrow> string \<Rightarrow> 'a http_request_scheme \<Rightarrow> 'a http_request_scheme" where
  "method_loop first [] val r = r"
| "method_loop first (name # names) val r =
    (if name = val then r\<lparr>rq_method := http_method_of first\<rparr>
     else method_loop (Suc first) names val (r\<lparr>rq_method := END\<rparr>))"

text \<open>The loop runs over the table up to the entry of \<open>END\<close>.\<close>

definition set_method :: "string \<Rightarrow> 'a http_request_scheme \<Rightarrow> 'a http_request_scheme" where
  "set_method val r = method_loop (http_method_num HTTP_DELETE)
     (take (http_method_num END) method_mapper) val r"

definition request_method :: "'a http_request_scheme \<Rightarrow> string" where
  "request_method r = method_mapper ! http_method_num (rq_method r)"

definition request_target :: "'a http_request_scheme \<Rightarrow> string" where
  "request_target r =
    (if rq_path r \<noteq> [] then rq_path r else slash)
    @ (if rq_query r \<noteq> [] then questionmark @ rq_query r else [])
    @ (if rq_fragment r \<noteq> [] then hash @ rq_fragment r else [])"

definition request_serialize :: "'a http_request_scheme \<Rightarrow> string result" where
  "request_serialize r = res_bind (sd_serialize r)
    (\<lambda>block. Inr (request_method r @ space @ request_target r @ space @ protocol r @ crlf @ block))"

definition request_eq :: "'a http_request_scheme \<Rightarrow> 'b http_request_scheme \<Rightarrow> bool" where
  "request_eq r req \<longleftrightarrow> sd_eq r req \<and> rq_method r = rq_method req \<and> rq_urihost r = rq_urihost req
    \<and> rq_port r = rq_port req \<and> rq_path r = rq_path req \<and> rq_query r = rq_query req
    \<and> rq_fragment r = rq_fragment req \<and> rq_userinfo r = rq_userinfo req"

definition request_neq :: "'a http_request_scheme \<Rightarrow> 'b http_request_scheme \<Rightarrow> bool" where
  "request_neq r req \<longleftrightarrow> \<not> request_eq r req"

definition setParameter :: "string \<Rightarrow> string \<Rightarrow> 'a http_request_scheme \<Rightarrow> 'a http_request_scheme" where
  "setParameter name value r = r\<lparr>rq_params := (rq_params r)(name \<mapsto> value)\<rparr>"

definition removeParameter :: "string \<Rightarrow> 'a http_request_scheme \<Rightarrow> 'a http_request_scheme" where
  "removeParameter name r = r\<lparr>rq_params := (rq_params r)(name := None)\<rparr>"

definition hasParameter :: "string \<Rightarrow> 'a http_request_scheme \<Rightarrow> bool" where
  "hasParameter name r \<longleftrightarrow> rq_params r name \<noteq> None"

definition getParameter :: "string \<Rightarrow> 'a http_request_scheme \<Rightarrow> string result" where
  "getParameter name r = (case rq_params r name of None \<Rightarrow> Inl Assert_failed | Some v \<Rightarrow> Inr v)"

section \<open>Responses\<close>

record http_response = http_structured_data +
  rs_status_code :: "16 word"
  rs_status_message :: string

text \<open>The constructor leaves \<open>_status_code\<close> uninitialised; \<open>junk\<close> is what the memory holds.\<close>

definition http_response_new :: "16 word \<Rightarrow> http_response result" where
  "http_response_new junk = res_bind (http_structured_data_new Type_response)
    (\<lambda>d. Inr (http_structured_data.extend d (http_response.fields junk [])))"

definition default_messages :: "(16 word \<times> string) list" where
  "default_messages =
    [(100, ''Continue''), (101, ''Switching Protocols''), (200, ''OK''), (201, ''Created''),
     (202, ''Accepted''), (203, ''Non-Authoritative Information''), (204, ''No Content''),
     (205, ''Reset Content''), (206, ''Partial Content''), (300, ''Multiple Choices''),
     (301, ''Moved Permanently''), (302, ''Found''), (303, ''See Other''), (304, ''Not Modified''),
     (305, ''Use Proxy''), (307, ''Temporary Redirect''), (400, ''Bad Request''),
     (401, ''Unauthorized''), (402, ''Payment Required''), (403, ''Forbidden''),
     (404, ''Not Found''), (405, ''Method Not Allowed''), (406, ''Not Acceptable''),
     (407, ''Proxy Authentication Required''), (408, ''Request Timeout''), (409, ''Conflict''),
     (410, ''Gone''), (411, ''Length Required''), (412, ''Precondition Failed''),
     (413, ''Request Entity Too Large''), (414, ''Request-URI Too Long''),
     (415, ''Unsupported Media Type''), (416, ''Requested Range Not Satisfiable''),
     (417, ''Expectation Failed''), (418, [CHR ''I'', CHR 0x27] @ ''m a teapot''),
     (500, ''Internal Server Error''), (501, ''Not Implemented''), (502, ''Bad Gateway''),
     (503, ''Service Unavailable''), (504, ''Gateway Timeout''),
     (505, ''HTTP Version Not Supported'')]"

definition get_default_message :: "16 word \<Rightarrow> string" where
  "get_default_message status =
    (case map_of default_messages status of Some m \<Rightarrow> m | None \<Rightarrow> ''Damn!'')"

definition set_status :: "16 word \<Rightarrow> 'a http_response_scheme \<Rightarrow> 'a http_response_scheme" where
  "set_status code r = r\<lparr>rs_status_code := code, rs_status_message := get_default_message code\<rparr>"

definition set_status_msg :: "16 word \<Rightarrow> string \<Rightarrow> 'a http_response_scheme \<Rightarrow> 'a http_response_scheme" where
  "set_status_msg code msg r = r\<lparr>rs_status_code := code, rs_status_message := msg\<rparr>"

definition response_serialize :: "'a http_response_scheme \<Rightarrow> string result" where
  "response_serialize r = res_bind (sd_serialize r)
    (\<lambda>block. Inr (protocol r @ space @ to_dec (unat (rs_status_code r)) @ space
       @ rs_status_message r @ crlf @ block))"

definition response_eq :: "'a http_response_scheme \<Rightarrow> 'b http_response_scheme \<Rightarrow> bool" where
  "response_eq r res \<longleftrightarrow> sd_eq r res \<and> rs_status_code r = rs_status_code res
    \<and> rs_status_message r = rs_status_message res"

definition response_neq :: "'a http_response_scheme \<Rightarrow> 'b http_response_scheme \<Rightarrow> bool" where
  "response_neq r res \<longleftrightarrow> rs_status_code res \<noteq> rs_status_code r
    \<or> rs_status_message r = rs_status_message res \<or> \<not> sd_eq r res"


section \<open>Reading messages back\<close>

definition split_space :: "string \<Rightarrow> string \<times> string" where
  "split_space s = (takeWhile (\<lambda>c. c \<noteq> CHR '' '') s, drop 1 (dropWhile (\<lambda>c. c \<noteq> CHR '' '') s))"

text \<open>
  The reference reader of a message: a start line of three parts separated by single spaces
  (the last one up to the end of the line), then the header block; what follows is the body.
\<close>

definition read_message :: "string \<Rightarrow> ((string \<times> string \<times> string) \<times> (string \<times> string) list \<times> string) option" where
  "read_message s = (case read_line s of
     None \<Rightarrow> None
   | Some (l, rest) \<Rightarrow>
       (let (a, r) = split_space l; (b, c) = split_space r
        in map_option (\<lambda>x. ((a, b, c), x)) (read_fields rest)))"

lemma split_space_append:
  assumes "CHR '' '' \<notin> set a"
  shows "split_space (a @ space @ b) = (a, b)"
proof -
  have "takeWhile (\<lambda>c. c \<noteq> CHR '' '') (a @ CHR '' '' # b) = a"
    "dropWhile (\<lambda>c. c \<noteq> CHR '' '') (a @ CHR '' '' # b) = CHR '' '' # b"
    using assms by (induction a) auto
  then show ?thesis by (simp add: split_space_def space_def)
qed

lemma read_message_start:
  assumes "CHR '' '' \<notin> set a" "CHR '' '' \<notin> set b" "CHR 0x0D \<notin> set (a @ b @ c)"
    and "read_fields rest = Some x"
  shows "read_message (a @ space @ b @ space @ c @ crlf @ rest) = Some ((a, b, c), x)"
proof -
  have "CHR 0x0D \<notin> set (a @ space @ b @ space @ c)" using assms(3) by (auto simp: space_def)
  from read_line_append [OF this, of rest]
  have "read_line (a @ space @ b @ space @ c @ crlf @ rest) = Some (a @ space @ b @ space @ c, rest)"
    by simp
  then show ?thesis
    using assms(1,2,4) by (simp add: read_message_def split_space_append)
qed

lemma method_names_plain: "\<forall>m\<in>set method_mapper. CHR '' '' \<notin> set m \<and> CHR 0x0D \<notin> set m"
  by (simp add: method_mapper_def)

lemma http_method_num_less: "http_method_num m < length method_mapper"
  by (cases m) (simp_all add: http_method_num_def http_methods_def method_mapper_def)

lemma request_method_plain:
  "CHR '' '' \<notin> set (request_method r)" "CHR 0x0D \<notin> set (request_method r)"
  using method_names_plain nth_mem [OF http_method_num_less]
  by (auto simp: request_method_def)

lemma protocol_plain: "CHR '' '' \<notin> set (protocol d)" "CHR 0x0D \<notin> set (protocol d)"
  by (cases "sd_protocol d"; simp add: protocol_def http10_def http11_def http20_def)+

lemma to_dec_plain: "CHR '' '' \<notin> set (to_dec n)" "CHR 0x0D \<notin> set (to_dec n)"
proof -
  have "\<not> is_digit_of 10 (CHR '' '')" "\<not> is_digit_of 10 (CHR 0x0D)" by code_simp+
  then show "CHR '' '' \<notin> set (to_dec n)" "CHR 0x0D \<notin> set (to_dec n)"
    using digits_to_dec [of n] by (auto simp: list_all_iff)
qed

lemma method_loop_miss:
  "s \<notin> set names \<Longrightarrow> rq_method (method_loop i names s r) = (if names = [] then rq_method r else END)"
  by (induction i names s r rule: method_loop.induct) auto

lemma set_method_names: "rq_method (set_method (request_method r) r') = rq_method r"
  by (cases "rq_method r")
    (simp_all add: set_method_def request_method_def http_method_num_def http_methods_def
      http_method_of_def method_mapper_def)

section \<open>Properties\<close>

text \<open>
  The method table round-trips.  Setting the method by the name of any method code selects
  that code again; after setting it by any string at all, either the name of the method is that
  string or the method is \<open>END\<close>.
\<close>

theorem method_name_roundtrip:
  "rq_method (set_method (request_method r) r') = rq_method r
   \<and> (request_method (set_method s r') = s \<or> rq_method (set_method s r') = END)"
proof -
  have tbl: "take (http_method_num END) method_mapper = butlast method_mapper" "butlast method_mapper \<noteq> []"
    by code_simp+
  have all: "\<forall>s\<in>set (butlast method_mapper). \<exists>m\<in>set http_methods. method_mapper ! http_method_num m = s"
    by code_simp
  have "request_method (set_method s r') = s" if s: "s \<in> set (butlast method_mapper)"
  proof -
    obtain m where m: "method_mapper ! http_method_num m = s"
      using bspec [OF all s] by (elim bexE)
    then have "s = request_method (r'\<lparr>rq_method := m\<rparr>)" by (simp add: request_method_def)
    then have "rq_method (set_method s r') = m"
      using set_method_names [of "r'\<lparr>rq_method := m\<rparr>" r'] by simp
    then show ?thesis using m by (simp add: request_method_def)
  qed
  then show ?thesis
    using method_loop_miss [of s "butlast method_mapper" "http_method_num HTTP_DELETE" r'] tbl
    by (cases "s \<in> set (butlast method_mapper)") (simp_all add: set_method_names set_method_def [of s])
qed

text \<open>
  C16: a serialised request reads back.  For a well-formed request whose header block is
  readable and whose path, query and fragment hold no space or carriage return, the reference
  reader recovers the method name, the request target, the protocol, the header fields and,
  untouched, whatever follows.
\<close>

theorem request_roundtrip:
  assumes "sd_wf r" "readable_headers r"
    and "CHR '' '' \<notin> set (rq_path r @ rq_query r @ rq_fragment r)"
    and "CHR 0x0D \<notin> set (rq_path r @ rq_query r @ rq_fragment r)"
  shows "\<exists>msg. request_serialize r = Inr msg \<and> read_message (msg @ body) =
    Some ((request_method r, request_target r, protocol r),
      map (\<lambda>k. (k, join (value_sep k) (headers k r))) (header_names_of r), body)"
proof -
  obtain block where b: "sd_serialize r = Inr block"
    "read_fields (block @ body) =
      Some (map (\<lambda>k. (k, join (value_sep k) (headers k r))) (header_names_of r), body)"
    using serialize_reads_back [OF assms(1,2), of body] by blast
  have "CHR '' '' \<notin> set (request_target r)" "CHR 0x0D \<notin> set (request_target r)"
    using assms(3,4) by (auto simp: request_target_def slash_def questionmark_def hash_def)
  then show ?thesis
    using b read_message_start [of "request_method r" "request_target r" "protocol r" "block @ body"]
    by (simp add: request_serialize_def request_method_plain protocol_plain)
qed

definition sample_request :: http_request where
  "sample_request = http_structured_data.extend sample_message
     (http_request.fields False HTTP_GET [] [] [] ''/p'' ''q=1'' [] [] Map.empty)"

theorem request_roundtrip_witness:
  "\<exists>msg. request_serialize sample_request = Inr msg \<and> read_message (msg @ ''xyz'') =
    Some ((''GET'', ''/p?q=1'', ''HTTP/1.1''),
      [(''content-length'', ''0''), (''cookie'', ''a=1; b=2''), (''host'', ''h'')], ''xyz'')"
proof -
  have h: "sd_wf sample_request" "readable_headers sample_request"
    "CHR '' '' \<notin> set (rq_path sample_request @ rq_query sample_request @ rq_fragment sample_request)"
    "CHR 0x0D \<notin> set (rq_path sample_request @ rq_query sample_request @ rq_fragment sample_request)"
    by code_simp+
  have v: "request_method sample_request = ''GET''" "request_target sample_request = ''/p?q=1''"
    "protocol sample_request = ''HTTP/1.1''"
    "map (\<lambda>k. (k, join (value_sep k) (headers k sample_request))) (header_names_of sample_request)
      = [(''content-length'', ''0''), (''cookie'', ''a=1; b=2''), (''host'', ''h'')]"
    by code_simp+
  from request_roundtrip [OF h, of "''xyz''"] show ?thesis unfolding v .
qed

text \<open>
  C17: a serialised response reads back: protocol, decimal status code, reason phrase (any text
  without a carriage return), header fields, and what follows.
\<close>

theorem response_roundtrip:
  assumes "sd_wf r" "readable_headers r" "CHR 0x0D \<notin> set (rs_status_message r)"
  shows "\<exists>msg code. response_serialize r = Inr msg \<and> read_message (msg @ body) =
    Some ((protocol r, code, rs_status_message r),
      map (\<lambda>k. (k, join (value_sep k) (headers k r))) (header_names_of r), body)
    \<and> read_base 10 0 code = Some (unat (rs_status_code r))"
proof -
  obtain block where b: "sd_serialize r = Inr block"
    "read_fields (block @ body) =
      Some (map (\<lambda>k. (k, join (value_sep k) (headers k r))) (header_names_of r), body)"
    using serialize_reads_back [OF assms(1,2), of body] by blast
  then show ?thesis
    using assms(3) read_message_start [of "protocol r" "to_dec (unat (rs_status_code r))"
        "rs_status_message r" "block @ body"]
    by (intro exI [of _ "protocol r @ space @ to_dec (unat (rs_status_code r)) @ space
          @ rs_status_message r @ crlf @ block"] exI [of _ "to_dec (unat (rs_status_code r))"])
      (simp add: response_serialize_def to_dec_plain protocol_plain read_to_dec)
qed

definition sample_response :: http_response where
  "sample_response = set_status 404 (http_structured_data.extend sample_message
     (http_response.fields 0 []))"

theorem response_roundtrip_witness:
  "\<exists>msg code. response_serialize sample_response = Inr msg \<and> read_message (msg @ ''xyz'') =
    Some ((''HTTP/1.1'', code, ''Not Found''),
      [(''content-length'', ''0''), (''cookie'', ''a=1; b=2''), (''host'', ''h'')], ''xyz'')
    \<and> read_base 10 0 code = Some (unat (404 :: 16 word))"
proof -
  have h: "sd_wf sample_response" "readable_headers sample_response"
    "CHR 0x0D \<notin> set (rs_status_message sample_response)"
    by code_simp+
  have v: "protocol sample_response = ''HTTP/1.1''" "rs_status_message sample_response = ''Not Found''"
    "rs_status_code sample_response = 404"
    "map (\<lambda>k. (k, join (value_sep k) (headers k sample_response))) (header_names_of sample_response)
      = [(''content-length'', ''0''), (''cookie'', ''a=1; b=2''), (''host'', ''h'')]"
    by code_simp+
  from response_roundtrip [OF h, of "''xyz''"] show ?thesis unfolding v .
qed

text \<open>\<open>operator!=\<close> of responses is not the negation of \<open>operator==\<close>: it holds of any response and itself.\<close>

lemma response_neq_self: "response_neq r r"
  by (simp add: response_neq_def)

text \<open>Constructed messages are well formed.\<close>

lemma sd_wf_extend: "sd_wf (http_structured_data.extend d x) = sd_wf d"
  by (simp add: sd_wf_def headers_def http_structured_data.defs)

lemma http_request_new_wf: "\<exists>r. http_request_new ssl m = Inr r \<and> sd_wf r \<and> rq_method r = m"
proof -
  obtain d where "http_structured_data_new Type_request = Inr d" "sd_wf d"
    using sd_new_wf by blast
  then show ?thesis
    by (simp add: http_request_new_def sd_wf_extend) (simp add: http_structured_data.defs http_request.defs)
qed

lemma http_response_new_wf: "\<exists>r. http_response_new junk = Inr r \<and> sd_wf r"
proof -
  obtain d where "http_structured_data_new Type_response = Inr d" "sd_wf d"
    using sd_new_wf by blast
  then show ?thesis by (simp add: http_response_new_def sd_wf_extend)
qed

end
