(* ===== verification/Exchange.thy ===== *)
theory Exchange
  imports Http_Message
begin

text \<open>
  The objects a user and a handler share for one message exchange:
  \<open>src/src/http/connection.h/.cpp\<close> (the base class of connections),
  \<open>src/src/http/server/request.h/.cpp\<close> and \<open>src/src/http/client/response.h/.cpp\<close> (the
  incoming side, which posts user callbacks), \<open>src/src/http/server/response.h/.cpp\<close> and
  \<open>src/src/http/client/request.h/.cpp\<close> (the outgoing side, which buffers what the user
  writes until the handler polls it).  A callback is represented by whether it is registered;
  \<open>io.post\<close> appends a task, and running a task yields the events the user sees.
\<close>

section \<open>The connection base class\<close>

record connection =
  co_persistent :: bool
  co_current :: error_code
  co_timeout_cb :: bool
  co_error_cb :: bool
  co_myself :: bool

definition connection_new :: connection where
  "connection_new = \<lparr>co_persistent = True, co_current = Success, co_timeout_cb = False,
     co_error_cb = False, co_myself = False\<rparr>"

datatype connection_event = Conn_error error_code | Conn_timeout

definition connection_set_persistent :: "bool \<Rightarrow> connection \<Rightarrow> connection" where
  "connection_set_persistent p c = c\<lparr>co_persistent := p\<rparr>"

definition connection_raise :: "error_code \<Rightarrow> connection \<Rightarrow> connection \<times> connection_event list" where
  "connection_raise e c =
    (c\<lparr>co_current := e\<rparr>, if co_error_cb c then [Conn_error e] else [])"

definition connection_timeout :: "connection \<Rightarrow> connection_event list" where
  "connection_timeout c = (if co_timeout_cb c then [Conn_timeout] else [])"

definition connection_on_error :: "connection \<Rightarrow> connection" where
  "connection_on_error c = c\<lparr>co_error_cb := True\<rparr>"

definition connection_on_timeout :: "(int \<Rightarrow> 's \<Rightarrow> 's) \<Rightarrow> int \<Rightarrow> connection \<times> 's \<Rightarrow> connection \<times> 's" where
  "connection_on_timeout set_timeout ms cs = (fst cs\<lparr>co_timeout_cb := True\<rparr>, set_timeout ms (snd cs))"

definition connection_init :: "connection \<Rightarrow> connection" where
  "connection_init c = c\<lparr>co_myself := True\<rparr>"

definition connection_deinit :: "connection \<Rightarrow> connection" where
  "connection_deinit c = c\<lparr>co_myself := False\<rparr>"

section \<open>Incoming messages\<close>

datatype remote_task = T_headers | T_body string | T_trailer string string | T_finished | T_error
  | T_continue

datatype 'm remote_event = E_headers 'm | E_body string | E_trailer string string | E_finished
  | E_error error_code | E_continue

record remote_callbacks =
  cb_headers :: bool
  cb_body :: bool
  cb_trailer :: bool
  cb_finished :: bool
  cb_error :: bool
  cb_continue :: bool

definition no_callbacks :: remote_callbacks where
  "no_callbacks = \<lparr>cb_headers = False, cb_body = False, cb_trailer = False, cb_finished = False,
     cb_error = False, cb_continue = False\<rparr>"

subsection \<open>The server's request\<close>

record request = remote_callbacks +
  sr_terminated :: bool
  sr_conn_error :: error_code
  sr_preamble :: http_request

definition request_new :: "http_request \<Rightarrow> request" where
  "request_new preamble = remote_callbacks.extend no_callbacks
     (request.fields False Success preamble)"

definition request_headers :: "http_request \<Rightarrow> request \<Rightarrow> request \<times> remote_task list" where
  "request_headers req r = (r\<lparr>sr_preamble := req\<rparr>, [T_headers])"

definition request_body :: "string \<Rightarrow> request \<Rightarrow> request \<times> remote_task list" where
  "request_body d r = (r, [T_body d])"

definition request_trailer :: "string \<Rightarrow> string \<Rightarrow> request \<Rightarrow> request \<times> remote_task list" where
  "request_trailer k v r = (r, [T_trailer k v])"

definition request_finished :: "request \<Rightarrow> request \<times> remote_task list" where
  "request_finished r = (if sr_terminated r then (r, [])
     else (r\<lparr>sr_terminated := True\<rparr>, [T_finished]))"

definition request_error :: "error_code \<Rightarrow> request \<Rightarrow> request \<times> remote_task list" where
  "request_error err r = (if sr_terminated r then (r, [])
     else (r\<lparr>sr_conn_error := err, sr_terminated := True\<rparr>, [T_error]))"

definition request_ended :: "request \<Rightarrow> bool" where
  "request_ended r = sr_terminated r"

fun run_request_task :: "remote_task \<Rightarrow> request \<Rightarrow> http_request remote_event list" where
  "run_request_task T_headers r = (if cb_headers r then [E_headers (sr_preamble r)] else [])"
| "run_request_task (T_body d) r = (if cb_body r then [E_body d] else [])"
| "run_request_task (T_trailer k v) r = (if cb_trailer r then [E_trailer k v] else [])"
| "run_request_task T_finished r = (if cb_finished r then [E_finished] else [])"
| "run_request_task T_error r = (if cb_error r then [E_error (sr_conn_error r)] else [])"
| "run_request_task T_continue r = []"

subsection \<open>The client's response\<close>

text \<open>
  Tasks are posted only for registered callbacks, and \<open>response_ended\<close> is set when the
  terminal task runs, not when it is posted.
\<close>

record client_response = remote_callbacks +
  cr_ended :: bool
  cr_conn_error :: error_code
  cr_preamble :: http_response

definition client_response_new :: "http_response \<Rightarrow> client_response" where
  "client_response_new preamble = remote_callbacks.extend no_callbacks
     (client_response.fields False Success preamble)"

definition client_response_headers :: "http_response \<Rightarrow> client_response \<Rightarrow> client_response \<times> remote_task list" where
  "client_response_headers res r =
    (let r = r\<lparr>cr_preamble := res\<rparr> in (r, if cb_headers r then [T_headers] else []))"

definition client_response_body :: "string \<Rightarrow> client_response \<Rightarrow> client_response \<times> remote_task list" where
  "client_response_body d r = (r, if cb_body r then [T_body d] else [])"

definition client_response_trailer :: "string \<Rightarrow> string \<Rightarrow> client_response \<Rightarrow> client_response \<times> remote_task list" where
  "client_response_trailer k v r = (r, if cb_trailer r then [T_trailer k v] else [])"

definition client_response_finished :: "client_response \<Rightarrow> client_response \<times> remote_task list" where
  "client_response_finished r = (r, if cr_ended r then [] else if cb_finished r then [T_finished] else [])"

definition client_response_continue :: "client_response \<Rightarrow> client_response \<times> remote_task list" where
  "client_response_continue r = (r, if cr_ended r then [] else if cb_continue r then [T_continue] else [])"

definition client_response_error :: "error_code \<Rightarrow> client_response \<Rightarrow> client_response \<times> remote_task list" where
  "client_response_error err r = (if cr_ended r then (r, [])
     else (r\<lparr>cr_conn_error := err\<rparr>, if cb_error r then [T_error] else []))"

fun run_client_response_task ::
  "remote_task \<Rightarrow> client_response \<Rightarrow> client_response \<times> http_response remote_event list" where
  "run_client_response_task T_headers r = (r, [E_headers (cr_preamble r)])"
| "run_client_response_task (T_body d) r = (r, [E_body d])"
| "run_client_response_task (T_trailer k v) r = (r, [E_trailer k v])"
| "run_client_response_task T_finished r = (r\<lparr>cr_ended := True\<rparr>, [E_finished])"
| "run_client_response_task T_error r = (r\<lparr>cr_ended := True\<rparr>, [E_error (cr_conn_error r)])"
| "run_client_response_task T_continue r = (r, [E_continue])"

section \<open>Outgoing messages\<close>

text \<open>
  \<open>response\<close> of the server and \<open>client_request\<close> keep the same members, over the message
  class they carry; only the server's class has \<open>continue_required\<close>.
\<close>

datatype local_state = Send_continue | Pending | Headers_received | Body_received
  | Trailer_received | Ended

datatype local_task = L_error | L_write

record 'h local_object =
  lo_ended :: bool
  lo_continue_required :: bool
  lo_error_cb :: bool
  lo_write_cb :: bool
  lo_headers :: "'h option"
  lo_content :: string
  lo_trailers :: "(string \<times> string) list"
  lo_myself :: bool

definition local_new :: "'h local_object" where
  "local_new = \<lparr>lo_ended = False, lo_continue_required = False, lo_error_cb = False,
     lo_write_cb = False, lo_headers = None, lo_content = [], lo_trailers = [], lo_myself = False\<rparr>"

text \<open>What the callbacks installed by the constructor do before they notify the handler.\<close>

definition local_hcb :: "'h \<Rightarrow> 'h local_object \<Rightarrow> 'h local_object" where
  "local_hcb res r = r\<lparr>lo_headers := Some res\<rparr>"

definition local_bcb :: "string \<Rightarrow> 'h local_object \<Rightarrow> 'h local_object" where
  "local_bcb d r = r\<lparr>lo_content := lo_content r @ d\<rparr>"

definition local_tcb :: "string \<Rightarrow> string \<Rightarrow> 'h local_object \<Rightarrow> 'h local_object" where
  "local_tcb k v r = r\<lparr>lo_trailers := lo_trailers r @ [(k, v)]\<rparr>"

definition local_ccb :: "'h local_object \<Rightarrow> 'h local_object" where
  "local_ccb r = r\<lparr>lo_ended := True\<rparr>"

definition response_send_continue :: "'h local_object \<Rightarrow> 'h local_object" where
  "response_send_continue r = r\<lparr>lo_continue_required := True\<rparr>"

text \<open>The task that \<open>response::end\<close> posts sets \<open>myself\<close> after the callback has run.\<close>

definition response_end_retain :: "'h local_object \<Rightarrow> 'h local_object" where
  "response_end_retain r = r\<lparr>lo_myself := (if lo_ended r then False else True)\<rparr>"

definition client_request_end_retain :: "'h local_object \<Rightarrow> 'h local_object" where
  "client_request_end_retain r = r\<lparr>lo_myself := True\<rparr>"

definition response_get_state :: "'h local_object \<Rightarrow> local_state \<times> 'h local_object" where
  "response_get_state r =
    (if lo_continue_required r then (Send_continue, r\<lparr>lo_continue_required := False\<rparr>)
     else if lo_headers r \<noteq> None then (Headers_received, r)
     else if lo_content r \<noteq> [] then (Body_received, r)
     else if lo_trailers r \<noteq> [] then (Trailer_received, r)
     else if lo_ended r then (Ended, r)
     else (Pending, r))"

definition client_request_get_state :: "'h local_object \<Rightarrow> local_state" where
  "client_request_get_state r =
    (if lo_headers r \<noteq> None then Headers_received
     else if lo_content r \<noteq> [] then Body_received
     else if lo_trailers r \<noteq> [] then Trailer_received
     else if lo_ended r then Ended
     else Pending)"

definition local_preamble :: "'h local_object \<Rightarrow> ('h \<times> 'h local_object) result" where
  "local_preamble r = (case lo_headers r of None \<Rightarrow> Inl Undefined_behaviour
     | Some h \<Rightarrow> Inr (h, r\<lparr>lo_headers := None\<rparr>))"

definition local_get_body :: "'h local_object \<Rightarrow> string \<times> 'h local_object" where
  "local_get_body r = (lo_content r, r\<lparr>lo_content := []\<rparr>)"

definition local_get_trailer :: "'h local_object \<Rightarrow> ((string \<times> string) \<times> 'h local_object) result" where
  "local_get_trailer r = (case lo_trailers r of [] \<Rightarrow> Inl Undefined_behaviour
     | t # ts \<Rightarrow> Inr (t, r\<lparr>lo_trailers := ts\<rparr>))"

definition response_error :: "'h local_object \<Rightarrow> 'h local_object \<times> local_task list" where
  "response_error r = (r\<lparr>lo_ended := True, lo_myself := False\<rparr>, if lo_error_cb r then [L_error] else [])"

definition response_cleared :: "'h local_object \<Rightarrow> 'h local_object \<times> local_task list" where
  "response_cleared r = (r\<lparr>lo_ended := True, lo_myself := False\<rparr>, if lo_write_cb r then [L_write] else [])"

definition client_request_error :: "'h local_object \<Rightarrow> 'h local_object \<times> local_task list" where
  "client_request_error r = (r\<lparr>lo_myself := False\<rparr>, if lo_error_cb r then [L_error] else [])"

definition client_request_cleared :: "'h local_object \<Rightarrow> 'h local_object \<times> local_task list" where
  "client_request_cleared r = (r\<lparr>lo_myself := False\<rparr>, if lo_write_cb r then [L_write] else [])"

section \<open>What an outgoing object still has to send\<close>

datatype 'h item = I_headers 'h | I_body string | I_trailer string string | I_end

definition items :: "'h local_object \<Rightarrow> 'h item list" where
  "items r = (case lo_headers r of Some h \<Rightarrow> [I_headers h] | None \<Rightarrow> [])
    @ (if lo_content r \<noteq> [] then [I_body (lo_content r)] else [])
    @ map (\<lambda>(k, v). I_trailer k v) (lo_trailers r)
    @ (if lo_ended r then [I_end] else [])"

text \<open>
  The interface between an outgoing object and the handler that polls it: the state announces
  the first item, and taking it leaves the rest.
\<close>

locale polled =
  fixes state :: "'o \<Rightarrow> local_state"
    and take_headers :: "'o \<Rightarrow> ('h \<times> 'o) result"
    and take_body :: "'o \<Rightarrow> string \<times> 'o"
    and take_trailer :: "'o \<Rightarrow> ((string \<times> string) \<times> 'o) result"
    and queue :: "'o \<Rightarrow> 'h item list"
  assumes state_pending: "state r = Pending \<longleftrightarrow> queue r = []"
    and state_headers: "state r = Headers_received \<Longrightarrow>
      \<exists>h r'. take_headers r = Inr (h, r') \<and> queue r = I_headers h # queue r'"
    and state_body: "state r = Body_received \<Longrightarrow>
      \<exists>s r'. take_body r = (s, r') \<and> s \<noteq> [] \<and> queue r = I_body s # queue r'"
    and state_trailer: "state r = Trailer_received \<Longrightarrow>
      \<exists>k v r'. take_trailer r = Inr ((k, v), r') \<and> queue r = I_trailer k v # queue r'"
    and state_ended: "state r = Ended \<longleftrightarrow> queue r = [I_end]"
    and state_continue: "state r \<noteq> Send_continue"
begin

text \<open>The announced operation never fails, so that polling can always go on.\<close>

lemma progress:
  "queue r \<noteq> [] \<Longrightarrow> queue r \<noteq> [I_end] \<Longrightarrow>
    (state r = Headers_received \<and> (\<exists>h r'. take_headers r = Inr (h, r') \<and> length (queue r') < length (queue r)))
    \<or> (state r = Body_received \<and> length (queue (snd (take_body r))) < length (queue r))
    \<or> (state r = Trailer_received \<and> (\<exists>t r'. take_trailer r = Inr (t, r') \<and> length (queue r') < length (queue r)))"
  using state_pending [of r] state_ended [of r] state_continue [of r]
  by (cases "state r") (auto dest!: state_headers state_body state_trailer)

end

lemma items_headers: "lo_headers r = Some h \<Longrightarrow> items r = I_headers h # items (r\<lparr>lo_headers := None\<rparr>)"
  by (simp add: items_def)

lemma items_body:
  "lo_headers r = None \<Longrightarrow> lo_content r \<noteq> [] \<Longrightarrow>
    items r = I_body (lo_content r) # items (r\<lparr>lo_content := []\<rparr>)"
  by (simp add: items_def)

lemma items_trailer:
  "lo_headers r = None \<Longrightarrow> lo_content r = [] \<Longrightarrow> lo_trailers r = (k, v) # ts \<Longrightarrow>
    items r = I_trailer k v # items (r\<lparr>lo_trailers := ts\<rparr>)"
  by (simp add: items_def)

lemmas local_take = local_preamble_def local_get_body_def local_get_trailer_def

interpretation client_poll: polled client_request_get_state local_preamble local_get_body
  local_get_trailer items
proof unfold_locales
  fix r :: "'h local_object"
  show "client_request_get_state r = Pending \<longleftrightarrow> items r = []"
    by (auto simp: client_request_get_state_def items_def split: option.splits)
  show "client_request_get_state r = Ended \<longleftrightarrow> items r = [I_end]"
    by (auto simp: client_request_get_state_def items_def split: option.splits)
  show "client_request_get_state r \<noteq> Send_continue"
    by (simp add: client_request_get_state_def)
  show "\<exists>h r'. local_preamble r = Inr (h, r') \<and> items r = I_headers h # items r'"
    if "client_request_get_state r = Headers_received"
    using that
    by (auto simp: client_request_get_state_def local_take intro: items_headers split: if_splits)
  show "\<exists>s r'. local_get_body r = (s, r') \<and> s \<noteq> [] \<and> items r = I_body s # items r'"
    if "client_request_get_state r = Body_received"
    using that
    by (auto simp: client_request_get_state_def local_take intro: items_body split: if_splits)
  show "\<exists>k v r'. local_get_trailer r = Inr ((k, v), r') \<and> items r = I_trailer k v # items r'"
    if "client_request_get_state r = Trailer_received"
    using that
    by (cases "lo_trailers r")
      (auto simp: client_request_get_state_def local_take intro: items_trailer split: if_splits)
qed

text \<open>Without a pending request to continue, the server's object announces the same states.\<close>

lemma response_get_state_client:
  "\<not> lo_continue_required r \<Longrightarrow> response_get_state r = (client_request_get_state r, r)"
  by (simp add: response_get_state_def client_request_get_state_def)

section \<open>Properties\<close>

datatype request_notification = RC_headers http_request | RC_body string | RC_trailer string string
  | RC_finished | RC_error error_code

fun request_call :: "request_notification \<Rightarrow> request \<Rightarrow> request \<times> remote_task list" where
  "request_call (RC_headers h) r = request_headers h r"
| "request_call (RC_body d) r = request_body d r"
| "request_call (RC_trailer k v) r = request_trailer k v r"
| "request_call RC_finished r = request_finished r"
| "request_call (RC_error e) r = request_error e r"

fun request_calls :: "request_notification list \<Rightarrow> request \<Rightarrow> request \<times> remote_task list" where
  "request_calls [] r = (r, [])"
| "request_calls (c # cs) r = (let (r, ts) = request_call c r; (r, us) = request_calls cs r in (r, ts @ us))"

definition terminal :: "remote_task \<Rightarrow> bool" where
  "terminal t \<longleftrightarrow> t = T_finished \<or> t = T_error"

lemmas request_ops = request_headers_def request_body_def request_trailer_def request_finished_def
  request_error_def terminal_def

lemma request_calls_terminal:
  "length (filter terminal (snd (request_calls cs r))) \<le> (if sr_terminated r then 0 else 1)
   \<and> (sr_terminated r \<longrightarrow> sr_terminated (fst (request_calls cs r)))"
proof (induction cs arbitrary: r)
  case (Cons c cs)
  show ?case
    using Cons.IH [of "fst (request_call c r)"]
    by (cases c; cases "sr_terminated r") (auto simp: case_prod_beta Let_def request_ops)
qed simp

text \<open>
  A server request ends once.  Whatever sequence of notifications the handler delivers to a
  request, at most one terminal callback (finished or error) is ever posted for it, and none
  once it has ended.
\<close>

theorem request_single_end:
  "length (filter terminal (snd (request_calls cs r))) \<le> (if request_ended r then 0 else 1)"
  using request_calls_terminal [of cs r] by (simp add: request_ended_def)

text \<open>
  The client's response gives no such guarantee: the flag is only set when the posted task
  runs, so a completion and an error notified before that are both delivered.
\<close>

lemma client_response_double_end:
  assumes "\<not> cr_ended r" "cb_finished r" "cb_error r"
  shows "snd (client_response_finished r) @ snd (client_response_error e (fst (client_response_finished r)))
    = [T_finished, T_error]"
  using assms by (simp add: client_response_finished_def client_response_error_def)

text \<open>
  After the task of \<open>response::end\<close> the object never keeps itself alive: the callback it runs
  first has set \<open>ended\<close>.
\<close>

lemma response_end_not_retained: "\<not> lo_myself (response_end_retain (local_ccb r))"
  by (simp add: response_end_retain_def local_ccb_def)

lemma client_request_end_retained: "lo_myself (client_request_end_retain (local_ccb r))"
  by (simp add: client_request_end_retain_def)

end
