(* ===== verification/Connector.thy ===== *)
theory Connector
  imports Reusable_Buffer
begin

text \<open>
  \<open>src/src/connector.h\<close>: the object that owns a socket, reads into the reusable buffer and
  writes what its handler offers.  The asynchronous operations of boost.asio are not part of
  the repository; what the connector hands to them is a trace (\<open>cn_io\<close>), and their
  completions are events (\<open>read_complete\<close>, \<open>write_complete\<close>, \<open>timer_expired\<close>).
  The virtual functions of \<open>http_handler\<close> that the connector calls are arguments; the record
  of a concrete handler extends the record of its connector.  The locale \<open>write_source\<close> is
  the interface between the two.
\<close>

section \<open>State\<close>

datatype 'f io_action = Async_read nat nat | Async_write string "'f list"
  | Post_first 'f | Post_second 'f | Timer_expires int | Timer_cancel
  | Socket_shutdown | Socket_cancel | Socket_close

record 'f connector =
  cn_rb :: reusable_buffer
  cn_out :: string
  cn_writing :: bool
  cn_stopped :: bool
  cn_ttl :: int
  cn_inflight :: "'f list list"
  cn_io :: "'f io_action list"

definition MAXINBYTESPERLOOP :: nat where
  "MAXINBYTESPERLOOP = 8192"

definition connector_new :: "'f connector" where
  "connector_new = \<lparr>cn_rb = reusable_buffer_new MAXINBYTESPERLOOP, cn_out = [], cn_writing = False,
     cn_stopped = False, cn_ttl = 0, cn_inflight = [], cn_io = []\<rparr>"

section \<open>Operations\<close>

definition log_io :: "'f io_action list \<Rightarrow> ('f, 'a) connector_scheme \<Rightarrow> ('f, 'a) connector_scheme" where
  "log_io as w = w\<lparr>cn_io := cn_io w @ as\<rparr>"

definition cancel_deadline :: "('f, 'a) connector_scheme \<Rightarrow> ('f, 'a) connector_scheme" where
  "cancel_deadline w = log_io [Timer_cancel] w"

definition schedule_deadline :: "int \<Rightarrow> ('f, 'a) connector_scheme \<Rightarrow> ('f, 'a) connector_scheme" where
  "schedule_deadline msec w = log_io [Timer_expires msec] w"

definition renew_ttl :: "('f, 'a) connector_scheme \<Rightarrow> ('f, 'a) connector_scheme" where
  "renew_ttl w = (if cn_ttl w \<noteq> 0 then schedule_deadline (cn_ttl w) w else w)"

definition connector_set_timeout :: "int \<Rightarrow> ('f, 'a) connector_scheme \<Rightarrow> ('f, 'a) connector_scheme" where
  "connector_set_timeout ms w = renew_ttl (w\<lparr>cn_ttl := ms\<rparr>)"

text \<open>
  The two versions of \<open>stop\<close>, for plain and for TLS sockets, make the same calls, one on
  the socket and the other on its lowest layer.
\<close>

definition stop :: "('f, 'a) connector_scheme \<Rightarrow> ('f, 'a) connector_scheme" where
  "stop w = (if \<not> cn_stopped w
     then (log_io [Timer_cancel, Socket_shutdown, Socket_cancel, Socket_close]
             (w\<lparr>cn_stopped := True\<rparr>))\<lparr>cn_ttl := 0\<rparr>
     else w)"

definition connector_close :: "('f, 'a) connector_scheme \<Rightarrow> ('f, 'a) connector_scheme" where
  "connector_close w = stop w"

definition do_read :: "('f, 'a) connector_scheme \<Rightarrow> ('f, 'a) connector_scheme" where
  "do_read w = (if cn_stopped w then w
     else (let w = renew_ttl w; (rb, off, n) = reserve (cn_rb w)
           in log_io [Async_read off n] (w\<lparr>cn_rb := rb\<rparr>)))"

definition connector_start ::
  "(('f, 'a) connector_scheme \<Rightarrow> bool \<times> ('f, 'a) connector_scheme)
   \<Rightarrow> ('f, 'a) connector_scheme \<Rightarrow> ('f, 'a) connector_scheme" where
  "connector_start handler_start w =
    (let (ok, w) = handler_start w in if ok then do_read w else w)"

text \<open>How an asynchronous operation ends: with bytes or a count, cancelled, or with an error.\<close>

datatype 'd completion = Done 'd | Operation_canceled | Failed

text \<open>
  A completed read: the socket stored the bytes in the region that was reserved, \<open>produce\<close>
  returns where they start and the handler is shown them there.
\<close>

definition read_complete ::
  "(string \<Rightarrow> ('f, 'a) connector_scheme \<Rightarrow> (bool \<times> ('f, 'a) connector_scheme) result)
   \<Rightarrow> string completion \<Rightarrow> ('f, 'a) connector_scheme \<Rightarrow> ('f, 'a) connector_scheme result" where
  "read_complete on_read ec w =
    (let w = cancel_deadline w in
     case ec of
       Done xs \<Rightarrow>
         assert_that (xs \<noteq> [])
           (let filled = store (cn_rb w) (wr (cn_rb w)) xs;
                (rb, ptr) = produce filled (length xs);
                w = w\<lparr>cn_rb := rb\<rparr>
            in case ptr of
                 None \<Rightarrow> Inl Undefined_behaviour
               | Some tmp \<Rightarrow>
                   res_bind (on_read (take (length xs) (drop tmp (mem rb))) w)
                     (\<lambda>(ok, w).
                        if ok
                        then Inr (do_read (w\<lparr>cn_rb := fst (consume (cn_rb w) (tmp + length xs))\<rparr>))
                        else Inr (stop w)))
     | Operation_canceled \<Rightarrow> Inr w
     | Failed \<Rightarrow> Inr (stop w))"

definition do_write ::
  "(('f, 'a) connector_scheme \<Rightarrow> bool \<times> string \<times> ('f, 'a) connector_scheme)
   \<Rightarrow> (('f, 'a) connector_scheme \<Rightarrow> bool)
   \<Rightarrow> (('f, 'a) connector_scheme \<Rightarrow> 'f list \<times> ('f, 'a) connector_scheme)
   \<Rightarrow> ('f, 'a) connector_scheme \<Rightarrow> ('f, 'a) connector_scheme" where
  "do_write on_write should_stop write_feedbacks w =
    (if cn_writing w \<or> cn_stopped w then w
     else (let (ok, out, w) = on_write ((renew_ttl w)\<lparr>cn_out := []\<rparr>);
               w = w\<lparr>cn_out := out\<rparr>
           in if \<not> ok
              then (let (cbs, w) = write_feedbacks w in log_io (map Post_first cbs) w)
              else if cn_out w = [] \<and> should_stop w
              then (let (cbs, w) = write_feedbacks w in stop (log_io (map Post_first cbs) w))
              else if cn_out w = [] then w
              else (let (cbs, w) = write_feedbacks (w\<lparr>cn_writing := True\<rparr>)
                    in log_io [Async_write (cn_out w) cbs]
                         (w\<lparr>cn_inflight := cn_inflight w @ [cbs]\<rparr>))))"

definition write_complete ::
  "(('f, 'a) connector_scheme \<Rightarrow> bool \<times> string \<times> ('f, 'a) connector_scheme)
   \<Rightarrow> (('f, 'a) connector_scheme \<Rightarrow> bool)
   \<Rightarrow> (('f, 'a) connector_scheme \<Rightarrow> 'f list \<times> ('f, 'a) connector_scheme)
   \<Rightarrow> unit completion \<Rightarrow> ('f, 'a) connector_scheme \<Rightarrow> ('f, 'a) connector_scheme" where
  "write_complete on_write should_stop write_feedbacks ec w =
    (case cn_inflight w of
       [] \<Rightarrow> w
     | cbs # rest \<Rightarrow>
         (let w = (cancel_deadline (w\<lparr>cn_inflight := rest\<rparr>))\<lparr>cn_writing := False\<rparr> in
          case ec of
            Done _ \<Rightarrow> do_write on_write should_stop write_feedbacks (log_io (map Post_first cbs) w)
          | Operation_canceled \<Rightarrow> log_io (map Post_second cbs) w
          | Failed \<Rightarrow> log_io (map Post_second cbs) (stop w)))"

text \<open>The deadline fires with no error, or is cancelled.\<close>

definition timer_expired ::
  "(('f, 'a) connector_scheme \<Rightarrow> ('f, 'a) connector_scheme) \<Rightarrow> bool
   \<Rightarrow> ('f, 'a) connector_scheme \<Rightarrow> ('f, 'a) connector_scheme" where
  "timer_expired trigger_timeout_event canceled w =
    (if canceled then w else renew_ttl (trigger_timeout_event w))"

section \<open>What was handed to the socket\<close>

fun payload :: "'f io_action \<Rightarrow> string" where
  "payload (Async_write s cbs) = s"
| "payload _ = []"

fun posted :: "'f io_action \<Rightarrow> 'f list" where
  "posted (Post_first f) = [f]"
| "posted (Post_second f) = [f]"
| "posted _ = []"

definition written :: "('f, 'a) connector_scheme \<Rightarrow> string" where
  "written w = concat (map payload (cn_io w))"

definition delivered :: "('f, 'a) connector_scheme \<Rightarrow> 'f list" where
  "delivered w = concat (map posted (cn_io w))"

fun starts_io :: "'f io_action \<Rightarrow> bool" where
  "starts_io (Async_read off n) = True"
| "starts_io (Async_write s cbs) = True"
| "starts_io _ = False"

text \<open>
  The invariant of the writing side: a write is outstanding exactly when the flag says so, and
  there is never more than one.
\<close>

definition conn_inv :: "('f, 'a) connector_scheme \<Rightarrow> bool" where
  "conn_inv w \<longleftrightarrow> length (cn_inflight w) = (if cn_writing w then 1 else 0)"

lemmas conn_ops = log_io_def cancel_deadline_def schedule_deadline_def renew_ttl_def stop_def

lemma written_log [simp]: "written (log_io as w) = written w @ concat (map payload as)"
  by (simp add: written_def log_io_def)

lemma delivered_log [simp]: "delivered (log_io as w) = delivered w @ concat (map posted as)"
  by (simp add: delivered_def log_io_def)

lemma payload_posts [simp]:
  "concat (map payload (map Post_first cbs)) = []" "concat (map payload (map Post_second cbs)) = []"
  "concat (map posted (map Post_first cbs)) = cbs" "concat (map posted (map Post_second cbs)) = cbs"
  "concat (map (payload \<circ> Post_first) cbs) = []" "concat (map (payload \<circ> Post_second) cbs) = []"
  "concat (map (posted \<circ> Post_first) cbs) = cbs" "concat (map (posted \<circ> Post_second) cbs) = cbs"
  by (induction cbs) simp_all

lemma written_update [simp]:
  "written (w\<lparr>cn_out := s\<rparr>) = written w" "written (w\<lparr>cn_writing := b\<rparr>) = written w"
  "written (w\<lparr>cn_inflight := f\<rparr>) = written w" "written (w\<lparr>cn_rb := r\<rparr>) = written w"
  "delivered (w\<lparr>cn_out := s\<rparr>) = delivered w" "delivered (w\<lparr>cn_writing := b\<rparr>) = delivered w"
  "delivered (w\<lparr>cn_inflight := f\<rparr>) = delivered w" "delivered (w\<lparr>cn_rb := r\<rparr>) = delivered w"
  "written (w\<lparr>cn_ttl := t\<rparr>) = written w" "delivered (w\<lparr>cn_ttl := t\<rparr>) = delivered w"
  "written (w\<lparr>cn_stopped := b\<rparr>) = written w" "delivered (w\<lparr>cn_stopped := b\<rparr>) = delivered w"
  by (simp_all add: written_def delivered_def)

text \<open>None of the bookkeeping operations touches the handler's part of the state.\<close>

lemma more_ops [simp]:
  "connector.more (log_io as w) = connector.more w" "connector.more (cancel_deadline w) = connector.more w"
  "connector.more (renew_ttl w) = connector.more w" "connector.more (stop w) = connector.more w"
  "connector.more (do_read w) = connector.more w"
  by (simp_all add: conn_ops do_read_def Let_def case_prod_beta)

lemma written_ops [simp]:
  "written (cancel_deadline w) = written w" "written (renew_ttl w) = written w"
  "written (stop w) = written w" "written (do_read w) = written w"
  "delivered (cancel_deadline w) = delivered w" "delivered (renew_ttl w) = delivered w"
  "delivered (stop w) = delivered w" "delivered (do_read w) = delivered w"
  by (simp_all add: cancel_deadline_def renew_ttl_def schedule_deadline_def stop_def do_read_def
      Let_def case_prod_beta)

lemma fields_ops [simp]:
  "cn_writing (log_io as w) = cn_writing w" "cn_stopped (log_io as w) = cn_stopped w"
  "cn_inflight (log_io as w) = cn_inflight w" "cn_writing (cancel_deadline w) = cn_writing w"
  "cn_stopped (cancel_deadline w) = cn_stopped w" "cn_inflight (cancel_deadline w) = cn_inflight w"
  "cn_writing (renew_ttl w) = cn_writing w" "cn_stopped (renew_ttl w) = cn_stopped w"
  "cn_inflight (renew_ttl w) = cn_inflight w" "cn_writing (stop w) = cn_writing w"
  "cn_stopped (stop w)" "cn_inflight (stop w) = cn_inflight w"
  "cn_writing (do_read w) = cn_writing w" "cn_stopped (do_read w) = cn_stopped w"
  "cn_inflight (do_read w) = cn_inflight w" "cn_rb (log_io as w) = cn_rb w"
  "cn_rb (cancel_deadline w) = cn_rb w" "cn_rb (renew_ttl w) = cn_rb w"
  by (simp_all add: conn_ops do_read_def Let_def case_prod_beta)

section \<open>The interface between a connector and its handler\<close>

text \<open>
  What the connector relies on: asking the handler for output hands over all of its pending
  bytes or none, taking the feedbacks empties them, and neither touches the connector.  Pending
  bytes and feedbacks are read off the handler's part of the state.
\<close>

locale write_source =
  fixes on_write :: "('f, 'a) connector_scheme \<Rightarrow> bool \<times> string \<times> ('f, 'a) connector_scheme"
    and should_stop :: "('f, 'a) connector_scheme \<Rightarrow> bool"
    and write_feedbacks :: "('f, 'a) connector_scheme \<Rightarrow> 'f list \<times> ('f, 'a) connector_scheme"
    and pending :: "'a \<Rightarrow> string"
    and feedbacks :: "'a \<Rightarrow> 'f list"
    and attached :: "'a \<Rightarrow> bool"
  assumes on_write_connector: "on_write w = (ok, out, w') \<Longrightarrow> connector.truncate w' = connector.truncate w"
    and on_write_taken: "on_write w = (ok, out, w') \<Longrightarrow> out @ pending (connector.more w') = pending (connector.more w)"
    and on_write_ok: "on_write w = (ok, out, w') \<Longrightarrow> ok = (out \<noteq> [])"
    and on_write_all: "on_write w = (ok, out, w') \<Longrightarrow> attached (connector.more w) \<Longrightarrow> pending (connector.more w') = []"
    and on_write_keeps: "on_write w = (ok, out, w') \<Longrightarrow>
      feedbacks (connector.more w') = feedbacks (connector.more w)
      \<and> attached (connector.more w') = attached (connector.more w)"
    and feedbacks_connector: "write_feedbacks w = (cbs, w') \<Longrightarrow> connector.truncate w' = connector.truncate w"
    and feedbacks_taken: "write_feedbacks w = (cbs, w') \<Longrightarrow>
      cbs = feedbacks (connector.more w) \<and> feedbacks (connector.more w') = []"
    and feedbacks_keeps: "write_feedbacks w = (cbs, w') \<Longrightarrow>
      pending (connector.more w') = pending (connector.more w)
      \<and> attached (connector.more w') = attached (connector.more w)"
begin

lemma truncate_fields:
  assumes "connector.truncate w' = connector.truncate w"
  shows "cn_writing w' = cn_writing w" "cn_stopped w' = cn_stopped w" "cn_inflight w' = cn_inflight w"
    "cn_io w' = cn_io w" "cn_ttl w' = cn_ttl w" "cn_rb w' = cn_rb w" "cn_out w' = cn_out w"
  using assms by (simp_all add: connector.truncate_def)

abbreviation flush :: "('f, 'a) connector_scheme \<Rightarrow> ('f, 'a) connector_scheme" where
  "flush \<equiv> do_write on_write should_stop write_feedbacks"

abbreviation complete :: "unit completion \<Rightarrow> ('f, 'a) connector_scheme \<Rightarrow> ('f, 'a) connector_scheme" where
  "complete \<equiv> write_complete on_write should_stop write_feedbacks"

text \<open>The stop branch of \<open>do_write\<close> is dead for such a handler: what the call does, case by case.\<close>

lemma flush_active:
  assumes "\<not> cn_writing w" "\<not> cn_stopped w" "cn_inflight w = []"
  shows "written (flush w) @ pending (connector.more (flush w)) = written w @ pending (connector.more w)"
    and "delivered (flush w) @ concat (cn_inflight (flush w)) = delivered w @ feedbacks (connector.more w)"
    and "feedbacks (connector.more (flush w)) = []"
    and "attached (connector.more w) \<Longrightarrow> pending (connector.more (flush w)) = []"
    and "attached (connector.more (flush w)) = attached (connector.more w)"
    and "\<not> cn_stopped (flush w)" and "conn_inv (flush w)" and "cn_rb (flush w) = cn_rb w"
proof (atomize (full), goal_cases)
  case 1
  let ?w0 = "(renew_ttl w)\<lparr>cn_out := []\<rparr>"
  obtain ok out w1 where ow: "on_write ?w0 = (ok, out, w1)" by (cases "on_write ?w0") auto
  note t1 = truncate_fields [OF on_write_connector [OF ow]]
  have more0: "connector.more ?w0 = connector.more w" by simp
  note p1 = on_write_taken [OF ow] on_write_all [OF ow] on_write_keeps [OF ow] on_write_ok [OF ow]
  have w1: "written w1 = written w" "delivered w1 = delivered w"
  proof -
    have "written w1 = written ?w0" "delivered w1 = delivered ?w0"
      unfolding written_def delivered_def using t1(4) by simp_all
    then show "written w1 = written w" "delivered w1 = delivered w" by simp_all
  qed
  show ?case
  proof (cases ok)
    case False
    obtain cbs w2 where wf: "write_feedbacks (w1\<lparr>cn_out := out\<rparr>) = (cbs, w2)"
      by (cases "write_feedbacks (w1\<lparr>cn_out := out\<rparr>)") auto
    note t2 = truncate_fields [OF feedbacks_connector [OF wf]]
    have eq: "flush w = log_io (map Post_first cbs) w2"
      using assms ow wf False by (simp add: do_write_def)
    have io: "written w2 = written w" "delivered w2 = delivered w"
      using t2(4) w1 by (simp_all add: written_def delivered_def)
    show ?thesis
      using eq io t1 t2 p1 more0 False assms feedbacks_taken [OF wf] feedbacks_keeps [OF wf]
      by (simp add: conn_inv_def)
  next
    case True
    let ?w1 = "w1\<lparr>cn_out := out, cn_writing := True\<rparr>"
    have out: "out \<noteq> []" using True p1(4) by simp
    obtain cbs w2 where wf: "write_feedbacks ?w1 = (cbs, w2)"
      by (cases "write_feedbacks ?w1") auto
    note t2 = truncate_fields [OF feedbacks_connector [OF wf]]
    have eq: "flush w = log_io [Async_write (cn_out w2) cbs] (w2\<lparr>cn_inflight := cn_inflight w2 @ [cbs]\<rparr>)"
      using assms ow wf True out by (simp add: do_write_def)
    have io: "written w2 = written w" "delivered w2 = delivered w"
      using t2(4) w1 by (simp_all add: written_def delivered_def)
    show ?thesis
      using eq io t1 t2 p1 more0 out assms feedbacks_taken [OF wf] feedbacks_keeps [OF wf]
      by (simp add: conn_inv_def)
  qed
qed

text \<open>
  Everything the handler ever produced is on the wire or still pending, in order; every feedback
  is delivered, waits for its write or is still pending.  Nothing is stuck: an attached handler
  with pending bytes has a write outstanding, unless the connector is stopped.
\<close>

definition stream :: "('f, 'a) connector_scheme \<Rightarrow> string" where
  "stream w = written w @ pending (connector.more w)"

definition feedback_stream :: "('f, 'a) connector_scheme \<Rightarrow> 'f list" where
  "feedback_stream w = delivered w @ concat (cn_inflight w) @ feedbacks (connector.more w)"

definition drained :: "('f, 'a) connector_scheme \<Rightarrow> bool" where
  "drained w \<longleftrightarrow> (attached (connector.more w) \<and> \<not> cn_stopped w \<and> \<not> cn_writing w
     \<longrightarrow> pending (connector.more w) = [])"

lemma flush_busy: "cn_writing w \<or> cn_stopped w \<Longrightarrow> flush w = w"
  by (simp add: do_write_def)

lemma flush_preserves:
  assumes "conn_inv w"
  shows "conn_inv (flush w) \<and> stream (flush w) = stream w \<and> feedback_stream (flush w) = feedback_stream w
    \<and> drained (flush w) \<and> cn_stopped (flush w) = cn_stopped w \<and> cn_rb (flush w) = cn_rb w
    \<and> attached (connector.more (flush w)) = attached (connector.more w)"
proof (cases "cn_writing w \<or> cn_stopped w")
  case True
  then show ?thesis
    using assms flush_busy [OF True] by (auto simp: drained_def)
next
  case False
  then have i: "cn_inflight w = []" using assms by (simp add: conn_inv_def)
  then show ?thesis
    using flush_active [OF _ _ i] False by (simp add: stream_def feedback_stream_def drained_def)
qed

text \<open>
  The completion of a write, however it ends: its feedbacks are delivered, and after a
  successful one the bytes that became pending meanwhile go out at once.
\<close>

lemma complete_preserves:
  assumes inv: "conn_inv w" and busy: "cn_writing w"
  shows "conn_inv (complete ec w) \<and> stream (complete ec w) = stream w
    \<and> feedback_stream (complete ec w) = feedback_stream w
    \<and> (ec = Done () \<longrightarrow> drained (complete ec w) \<and> cn_stopped (complete ec w) = cn_stopped w)
    \<and> (ec = Failed \<longrightarrow> cn_stopped (complete ec w))"
proof -
  obtain cbs where i: "cn_inflight w = [cbs]"
    using inv busy by (auto simp: conn_inv_def length_Suc_conv)
  define v where "v = (cancel_deadline (w\<lparr>cn_inflight := []\<rparr>))\<lparr>cn_writing := False\<rparr>"
  have v: "connector.more v = connector.more w" "cn_inflight v = []" "\<not> cn_writing v"
    "written v = written w" "delivered v = delivered w" "cn_stopped v = cn_stopped w"
    by (simp_all add: v_def)
  have eq: "complete (Done ()) w = flush (log_io (map Post_first cbs) v)"
    "complete Operation_canceled w = log_io (map Post_second cbs) v"
    "complete Failed w = log_io (map Post_second cbs) (stop v)"
    using i by (simp_all add: write_complete_def v_def)
  have p: "conn_inv (log_io (map Post_first cbs) v)"
    using v by (simp add: conn_inv_def)
  show ?thesis
  proof (cases ec)
    case (Done u)
    then have "ec = Done ()" by simp
    then show ?thesis
      using flush_preserves [OF p] eq(1) v i by (simp add: stream_def feedback_stream_def)
  next
    case Operation_canceled
    then show ?thesis
      unfolding Operation_canceled eq using v i by (simp add: conn_inv_def stream_def feedback_stream_def)
  next
    case Failed
    then show ?thesis
      unfolding Failed eq using v i by (simp add: conn_inv_def stream_def feedback_stream_def)
  qed
qed

text \<open>Once stopped, a connector starts no operation on the socket.\<close>

lemma stopped_quiet:
  assumes "cn_stopped w"
  shows "filter starts_io (cn_io (flush w)) = filter starts_io (cn_io w)"
    "filter starts_io (cn_io (do_read w)) = filter starts_io (cn_io w)"
    "filter starts_io (cn_io (complete ec w)) = filter starts_io (cn_io w)"
proof -
  have fw: "flush x = x" if "cn_stopped x" for x using that flush_busy by blast
  have posts: "filter starts_io (map Post_first xs) = []" "filter starts_io (map Post_second xs) = []"
    for xs :: "'f list"
    by (simp_all add: filter_empty_conv)
  show "filter starts_io (cn_io (flush w)) = filter starts_io (cn_io w)" using fw [OF assms] by simp
  show "filter starts_io (cn_io (do_read w)) = filter starts_io (cn_io w)"
    using assms by (simp add: do_read_def)
  show "filter starts_io (cn_io (complete ec w)) = filter starts_io (cn_io w)"
    using assms posts
    by (auto simp: write_complete_def Let_def fw conn_ops split: list.splits completion.splits)
qed

end

section \<open>Reading\<close>

text \<open>Between two reads the buffer is empty and aligned, so that the next read may fill it all.\<close>

definition rb_ready :: "('f, 'a) connector_scheme \<Rightarrow> bool" where
  "rb_ready w \<longleftrightarrow> buf_inv (cn_rb w) \<and> contents (cn_rb w) = [] \<and> rd (cn_rb w) = 0 \<and> wr (cn_rb w) = 0"

lemma rb_ready_do_read:
  assumes "buf_inv (cn_rb w)" "contents (cn_rb w) = []" "\<not> cn_stopped w"
  shows "rb_ready (do_read w) \<and> capacity (cn_rb (do_read w)) = capacity (cn_rb w)
    \<and> Async_read 0 (capacity (cn_rb w)) \<in> set (cn_io (do_read w))"
proof -
  have r: "reserve (cn_rb w) = (cn_rb w\<lparr>rd := 0, wr := 0\<rparr>, 0, capacity (cn_rb w))"
    by (rule reserve_empty [OF assms(1,2)])
  have "buf_inv (cn_rb w\<lparr>rd := 0, wr := 0\<rparr>)" "contents (cn_rb w\<lparr>rd := 0, wr := 0\<rparr>) = []"
    using reserve_region [OF assms(1) r] assms(2) by simp_all
  then show ?thesis
    using assms(3) r by (simp add: do_read_def rb_ready_def log_io_def Let_def)
qed

text \<open>What a completed read does, for an aligned buffer.\<close>

lemma read_complete_aligned:
  assumes "rb_ready w" "xs \<noteq> []" "length xs \<le> capacity (cn_rb w)"
  shows "\<exists>rb1 rb2. read_complete on_read (Done xs) w =
      res_bind (on_read xs ((cancel_deadline w)\<lparr>cn_rb := rb1\<rparr>))
        (\<lambda>(ok, v). if ok then Inr (do_read (v\<lparr>cn_rb := fst (consume (cn_rb v) (length xs))\<rparr>))
                    else Inr (stop v))
    \<and> consume rb1 (length xs) = (rb2, of_nat (length xs)) \<and> buf_inv rb2 \<and> contents rb2 = []
    \<and> capacity rb2 = capacity (cn_rb w)"
proof -
  let ?b = "cn_rb w"
  have b: "buf_inv ?b" "contents ?b = []" "?b\<lparr>rd := 0, wr := 0\<rparr> = ?b" "wr ?b = 0"
    using assms(1) by (simp_all add: rb_ready_def)
  have r: "reserve ?b = (?b, 0, capacity ?b)" using reserve_empty [OF b(1,2)] b(3) by simp
  obtain rb1 rb2 where p: "produce (store ?b 0 xs) (length xs) = (rb1, Some 0)" "contents rb1 = xs"
    "buf_inv rb1" "consume rb1 (0 + length xs) = (rb2, of_nat (length xs))" "buf_inv rb2" "contents rb2 = []"
    "capacity rb2 = capacity ?b"
    using read_cycle_empties [OF b(1,2) r assms(3)] assms(2) by blast
  have seg: "take (length xs) (mem rb1) = xs"
  proof -
    have "mem rb1 = mem (store ?b 0 xs)"
      using p(1) by (auto simp: produce_def avail_mem_def Let_def split: if_splits)
    then show ?thesis using assms(3) by (simp add: store_def)
  qed
  have "read_complete on_read (Done xs) w =
      res_bind (on_read xs ((cancel_deadline w)\<lparr>cn_rb := rb1\<rparr>))
        (\<lambda>(ok, v). if ok then Inr (do_read (v\<lparr>cn_rb := fst (consume (cn_rb v) (length xs))\<rparr>))
                    else Inr (stop v))"
    using p(1) b(4) seg assms(2) by (simp add: read_complete_def Let_def cong: if_cong)
  then show ?thesis using p(4-7) by auto
qed

end
