(* ===== verification/Http_Parser.thy ===== *)
theory Http_Parser
  imports Http_Message
begin

text \<open>
  \<open>src/src/http_parser/http_parser.h\<close> and the tables and small functions of
  \<open>http_parser.c\<close>: the enumerations, the error table, the character classes of the
  strict build (\<open>HTTP_PARSER_STRICT\<close> is 1), the parser's own record, the byte-wise URL
  automaton shared with the URL parser, and the decisions about the end of a message.  Bit
  fields of flags are sets of flags; the 7-bit matcher index is a natural number, shown to stay
  at most 16 in \<open>Parser_Safety\<close>.
\<close>

section \<open>Enumerations\<close>

datatype http_parser_type = HTTP_REQUEST | HTTP_RESPONSE | HTTP_BOTH

datatype flag = F_CHUNKED | F_CONNECTION_KEEP_ALIVE | F_CONNECTION_CLOSE | F_CONNECTION_UPGRADE
  | F_TRAILING | F_UPGRADE | F_SKIPBODY | F_CONTENTLENGTH

datatype http_errno = HPE_OK
  | HPE_CB_message_begin | HPE_CB_url | HPE_CB_header_field | HPE_CB_header_value
  | HPE_CB_headers_complete | HPE_CB_body | HPE_CB_message_complete | HPE_CB_status
  | HPE_CB_chunk_header | HPE_CB_chunk_complete
  | HPE_INVALID_EOF_STATE | HPE_HEADER_OVERFLOW | HPE_CLOSED_CONNECTION | HPE_INVALID_VERSION
  | HPE_INVALID_STATUS | HPE_INVALID_METHOD | HPE_INVALID_URL | HPE_INVALID_HOST
  | HPE_INVALID_PORT | HPE_INVALID_PATH | HPE_INVALID_QUERY_STRING | HPE_INVALID_FRAGMENT
  | HPE_LF_EXPECTED | HPE_INVALID_HEADER_TOKEN | HPE_INVALID_CONTENT_LENGTH
  | HPE_UNEXPECTED_CONTENT_LENGTH | HPE_INVALID_CHUNK_SIZE | HPE_INVALID_CONSTANT
  | HPE_INVALID_INTERNAL_STATE | HPE_STRICT | HPE_PAUSED | HPE_UNKNOWN

fun http_errno_name :: "http_errno \<Rightarrow> string" where
  "http_errno_name HPE_OK = ''HPE_OK''"
| "http_errno_name HPE_CB_message_begin = ''HPE_CB_message_begin''"
| "http_errno_name HPE_CB_url = ''HPE_CB_url''"
| "http_errno_name HPE_CB_header_field = ''HPE_CB_header_field''"
| "http_errno_name HPE_CB_header_value = ''HPE_CB_header_value''"
| "http_errno_name HPE_CB_headers_complete = ''HPE_CB_headers_complete''"
| "http_errno_name HPE_CB_body = ''HPE_CB_body''"
| "http_errno_name HPE_CB_message_complete = ''HPE_CB_message_complete''"
| "http_errno_name HPE_CB_status = ''HPE_CB_status''"
| "http_errno_name HPE_CB_chunk_header = ''HPE_CB_chunk_header''"
| "http_errno_name HPE_CB_chunk_complete = ''HPE_CB_chunk_complete''"
| "http_errno_name HPE_INVALID_EOF_STATE = ''HPE_INVALID_EOF_STATE''"
| "http_errno_name HPE_HEADER_OVERFLOW = ''HPE_HEADER_OVERFLOW''"
| "http_errno_name HPE_CLOSED_CONNECTION = ''HPE_CLOSED_CONNECTION''"
| "http_errno_name HPE_INVALID_VERSION = ''HPE_INVALID_VERSION''"
| "http_errno_name HPE_INVALID_STATUS = ''HPE_INVALID_STATUS''"
| "http_errno_name HPE_INVALID_METHOD = ''HPE_INVALID_METHOD''"
| "http_errno_name HPE_INVALID_URL = ''HPE_INVALID_URL''"
| "http_errno_name HPE_INVALID_HOST = ''HPE_INVALID_HOST''"
| "http_errno_name HPE_INVALID_PORT = ''HPE_INVALID_PORT''"
| "http_errno_name HPE_INVALID_PATH = ''HPE_INVALID_PATH''"
| "http_errno_name HPE_INVALID_QUERY_STRING = ''HPE_INVALID_QUERY_STRING''"
| "http_errno_name HPE_INVALID_FRAGMENT = ''HPE_INVALID_FRAGMENT''"
| "http_errno_name HPE_LF_EXPECTED = ''HPE_LF_EXPECTED''"
| "http_errno_name HPE_INVALID_HEADER_TOKEN = ''HPE_INVALID_HEADER_TOKEN''"
| "http_errno_name HPE_INVALID_CONTENT_LENGTH = ''HPE_INVALID_CONTENT_LENGTH''"
| "http_errno_name HPE_UNEXPECTED_CONTENT_LENGTH = ''HPE_UNEXPECTED_CONTENT_LENGTH''"
| "http_errno_name HPE_INVALID_CHUNK_SIZE = ''HPE_INVALID_CHUNK_SIZE''"
| "http_errno_name HPE_INVALID_CONSTANT = ''HPE_INVALID_CONSTANT''"
| "http_errno_name HPE_INVALID_INTERNAL_STATE = ''HPE_INVALID_INTERNAL_STATE''"
| "http_errno_name HPE_STRICT = ''HPE_STRICT''"
| "http_errno_name HPE_PAUSED = ''HPE_PAUSED''"
| "http_errno_name HPE_UNKNOWN = ''HPE_UNKNOWN''"

fun http_errno_description :: "http_errno \<Rightarrow> string" where
  "http_errno_description HPE_OK = ''success''"
| "http_errno_description HPE_CB_message_begin = ''the on_message_begin callback failed''"
| "http_errno_description HPE_CB_url = ''the on_url callback failed''"
| "http_errno_description HPE_CB_header_field = ''the on_header_field callback failed''"
| "http_errno_description HPE_CB_header_value = ''the on_header_value callback failed''"
| "http_errno_description HPE_CB_headers_complete = ''the on_headers_complete callback failed''"
| "http_errno_description HPE_CB_body = ''the on_body callback failed''"
| "http_errno_description HPE_CB_message_complete = ''the on_message_complete callback failed''"
| "http_errno_description HPE_CB_status = ''the on_status callback failed''"
| "http_errno_description HPE_CB_chunk_header = ''the on_chunk_header callback failed''"
| "http_errno_description HPE_CB_chunk_complete = ''the on_chunk_complete callback failed''"
| "http_errno_description HPE_INVALID_EOF_STATE = ''stream ended at an unexpected time''"
| "http_errno_description HPE_HEADER_OVERFLOW = ''too many header bytes seen; overflow detected''"
| "http_errno_description HPE_CLOSED_CONNECTION =
    ''data received after completed connection: close message''"
| "http_errno_description HPE_INVALID_VERSION = ''invalid HTTP version''"
| "http_errno_description HPE_INVALID_STATUS = ''invalid HTTP status code''"
| "http_errno_description HPE_INVALID_METHOD = ''invalid HTTP method''"
| "http_errno_description HPE_INVALID_URL = ''invalid URL''"
| "http_errno_description HPE_INVALID_HOST = ''invalid host''"
| "http_errno_description HPE_INVALID_PORT = ''invalid port''"
| "http_errno_description HPE_INVALID_PATH = ''invalid path''"
| "http_errno_description HPE_INVALID_QUERY_STRING = ''invalid query string''"
| "http_errno_description HPE_INVALID_FRAGMENT = ''invalid fragment''"
| "http_errno_description HPE_LF_EXPECTED = ''LF character expected''"
| "http_errno_description HPE_INVALID_HEADER_TOKEN = ''invalid character in header''"
| "http_errno_description HPE_INVALID_CONTENT_LENGTH =
    ''invalid character in content-length header''"
| "http_errno_description HPE_UNEXPECTED_CONTENT_LENGTH = ''unexpected content-length header''"
| "http_errno_description HPE_INVALID_CHUNK_SIZE = ''invalid character in chunk size header''"
| "http_errno_description HPE_INVALID_CONSTANT = ''invalid constant string''"
| "http_errno_description HPE_INVALID_INTERNAL_STATE = ''encountered unexpected internal state''"
| "http_errno_description HPE_STRICT = ''strict mode assertion failed''"
| "http_errno_description HPE_PAUSED = ''parser is paused''"
| "http_errno_description HPE_UNKNOWN = ''an unknown error occurred''"

datatype (plugins only: code) parser_state = s_dead
  | s_start_req_or_res | s_res_or_resp_H | s_start_res | s_res_H | s_res_HT | s_res_HTT | s_res_HTTP
  | s_res_first_http_major | s_res_http_major | s_res_first_http_minor | s_res_http_minor
  | s_res_first_status_code | s_res_status_code | s_res_status_start | s_res_status
  | s_res_line_almost_done
  | s_start_req | s_req_method | s_req_spaces_before_url | s_req_schema | s_req_schema_slash
  | s_req_schema_slash_slash | s_req_server_start | s_req_server | s_req_server_with_at
  | s_req_path | s_req_query_string_start | s_req_query_string | s_req_fragment_start
  | s_req_fragment | s_req_http_start | s_req_http_H | s_req_http_HT | s_req_http_HTT
  | s_req_http_HTTP | s_req_first_http_major | s_req_http_major | s_req_first_http_minor
  | s_req_http_minor | s_req_line_almost_done
  | s_header_field_start | s_header_field | s_header_value_discard_ws
  | s_header_value_discard_ws_almost_done | s_header_value_discard_lws | s_header_value_start
  | s_header_value | s_header_value_lws | s_header_almost_done
  | s_chunk_size_start | s_chunk_size | s_chunk_parameters | s_chunk_size_almost_done
  | s_headers_almost_done | s_headers_done
  | s_chunk_data | s_chunk_data_almost_done | s_chunk_data_done
  | s_body_identity | s_body_identity_eof | s_message_done

text \<open>The states up to \<open>s_headers_done\<close> are header states; the six after it are body states.\<close>

definition PARSING_HEADER :: "parser_state \<Rightarrow> bool" where
  "PARSING_HEADER s \<longleftrightarrow> s \<notin> {s_chunk_data, s_chunk_data_almost_done, s_chunk_data_done,
     s_body_identity, s_body_identity_eof, s_message_done}"

datatype header_states = h_general | h_C | h_CO | h_CON
  | h_matching_connection | h_matching_proxy_connection | h_matching_content_length
  | h_matching_transfer_encoding | h_matching_upgrade
  | h_connection | h_content_length | h_transfer_encoding | h_upgrade
  | h_matching_transfer_encoding_chunked | h_matching_connection_token_start
  | h_matching_connection_keep_alive | h_matching_connection_close
  | h_matching_connection_upgrade | h_matching_connection_token
  | h_transfer_encoding_chunked | h_connection_keep_alive | h_connection_close
  | h_connection_upgrade

section \<open>The parser record\<close>

record http_parser =
  hp_type :: http_parser_type
  hp_flags :: "flag set"
  hp_state :: parser_state
  hp_header_state :: header_states
  hp_index :: nat
  hp_lenient :: bool
  hp_nread :: "32 word"
  hp_content_length :: "64 word"
  hp_http_major :: "16 word"
  hp_http_minor :: "16 word"
  hp_status_code :: "16 word"
  hp_method :: http_method
  hp_errno :: http_errno
  hp_upgrade :: bool

text \<open>\<open>memset\<close> to zero, then the type and its start state; enumerations at zero are their first member.\<close>

definition http_parser_init :: "http_parser_type \<Rightarrow> http_parser" where
  "http_parser_init t = \<lparr>hp_type = t, hp_flags = {},
     hp_state = (case t of HTTP_REQUEST \<Rightarrow> s_start_req | HTTP_RESPONSE \<Rightarrow> s_start_res
       | HTTP_BOTH \<Rightarrow> s_start_req_or_res),
     hp_header_state = h_general, hp_index = 0, hp_lenient = False, hp_nread = 0,
     hp_content_length = 0, hp_http_major = 0, hp_http_minor = 0, hp_status_code = 0,
     hp_method = HTTP_DELETE, hp_errno = HPE_OK, hp_upgrade = False\<rparr>"

definition http_parser_pause :: "bool \<Rightarrow> http_parser \<Rightarrow> http_parser result" where
  "http_parser_pause paused hp = assert_that (hp_errno hp = HPE_OK \<or> hp_errno hp = HPE_PAUSED)
     (Inr (hp\<lparr>hp_errno := (if paused then HPE_PAUSED else HPE_OK)\<rparr>))"

definition http_body_is_final :: "http_parser \<Rightarrow> bool" where
  "http_body_is_final hp \<longleftrightarrow> hp_state hp = s_message_done"

definition http_parser_version :: "64 word" where
  "http_parser_version = 2 * 0x10000 + 6 * 0x100 + 2 * 1"

text \<open>\<open>ULLONG_MAX\<close> is the content length of a message that has none.\<close>

abbreviation ULLONG_MAX :: "64 word" where
  "ULLONG_MAX \<equiv> - 1"

definition http_message_needs_eof :: "http_parser \<Rightarrow> bool" where
  "http_message_needs_eof hp =
    (if hp_type hp = HTTP_REQUEST then False
     else if hp_status_code hp div 100 = 1 \<or> hp_status_code hp = 204 \<or> hp_status_code hp = 304
       \<or> F_SKIPBODY \<in> hp_flags hp then False
     else if F_CHUNKED \<in> hp_flags hp \<or> hp_content_length hp \<noteq> ULLONG_MAX then False
     else True)"

definition http_should_keep_alive :: "http_parser \<Rightarrow> bool" where
  "http_should_keep_alive hp =
    (if hp_http_major hp > 0 \<and> hp_http_minor hp > 0
     then (if F_CONNECTION_CLOSE \<in> hp_flags hp then False else \<not> http_message_needs_eof hp)
     else (if F_CONNECTION_KEEP_ALIVE \<notin> hp_flags hp then False else \<not> http_message_needs_eof hp))"

definition start_state :: "http_parser \<Rightarrow> parser_state" where
  "start_state hp = (if hp_type hp = HTTP_REQUEST then s_start_req else s_start_res)"

definition NEW_MESSAGE :: "http_parser \<Rightarrow> parser_state" where
  "NEW_MESSAGE hp = (if http_should_keep_alive hp then start_state hp else s_dead)"

section \<open>Character classes\<close>

abbreviation NUL :: char where "NUL \<equiv> CHR 0x00"
abbreviation HT :: char where "HT \<equiv> CHR 0x09"
abbreviation CR :: char where "CR \<equiv> CHR 0x0D"
abbreviation LF :: char where "LF \<equiv> CHR 0x0A"

text \<open>\<open>c | 0x20\<close> as an unsigned byte.\<close>

definition LOWER :: "char \<Rightarrow> char" where
  "LOWER c = (if byte c div 32 mod 2 = 1 then c else char_of (byte c + 32))"

definition IS_ALPHA :: "char \<Rightarrow> bool" where
  "IS_ALPHA c \<longleftrightarrow> 97 \<le> byte (LOWER c) \<and> byte (LOWER c) \<le> 122"

definition IS_NUM :: "char \<Rightarrow> bool" where
  "IS_NUM c \<longleftrightarrow> 48 \<le> byte c \<and> byte c \<le> 57"

definition IS_ALPHANUM :: "char \<Rightarrow> bool" where
  "IS_ALPHANUM c \<longleftrightarrow> IS_ALPHA c \<or> IS_NUM c"

definition IS_HEX :: "char \<Rightarrow> bool" where
  "IS_HEX c \<longleftrightarrow> IS_NUM c \<or> 97 \<le> byte (LOWER c) \<and> byte (LOWER c) \<le> 102"

definition IS_MARK :: "char \<Rightarrow> bool" where
  "IS_MARK c \<longleftrightarrow> c \<in> set [CHR ''-'', CHR ''_'', CHR ''.'', CHR ''!'', CHR ''~'', CHR ''*'', CHR 0x27,
     CHR ''('', CHR '')'']"

definition IS_USERINFO_CHAR :: "char \<Rightarrow> bool" where
  "IS_USERINFO_CHAR c \<longleftrightarrow> IS_ALPHANUM c \<or> IS_MARK c \<or> c \<in> set ''%;:&=+$,''"

text \<open>The table of tokens maps a token character to its lower case and every other to NUL.\<close>

definition tokens :: "char \<Rightarrow> char" where
  "tokens c =
    (if IS_ALPHA c then LOWER c
     else if IS_NUM c \<or> c \<in> set (CHR 0x27 # CHR 0x60 # ''!#$%&*+-.^_|~'') then c else NUL)"

definition IS_URL_CHAR :: "char \<Rightarrow> bool" where
  "IS_URL_CHAR c \<longleftrightarrow> 33 \<le> byte c \<and> byte c \<le> 126 \<and> c \<noteq> CHR ''#'' \<and> c \<noteq> CHR ''?''"

definition IS_HOST_CHAR :: "char \<Rightarrow> bool" where
  "IS_HOST_CHAR c \<longleftrightarrow> IS_ALPHANUM c \<or> c = CHR ''.'' \<or> c = CHR ''-''"

definition IS_HEADER_CHAR :: "char \<Rightarrow> bool" where
  "IS_HEADER_CHAR c \<longleftrightarrow> c = CR \<or> c = LF \<or> c = HT \<or> byte c > 31 \<and> byte c \<noteq> 127"

text \<open>
  The table has 256 entries of which only the first 128 are written, so the others are zero:
  every byte from 128 on is a digit of value 0.
\<close>

definition unhex :: "char \<Rightarrow> int" where
  "unhex c =
    (if IS_NUM c then int (byte c) - 48
     else if 65 \<le> byte c \<and> byte c \<le> 70 then int (byte c) - 55
     else if 97 \<le> byte c \<and> byte c \<le> 102 then int (byte c) - 87
     else if byte c \<ge> 128 then 0 else - 1)"

section \<open>Methods\<close>

definition method_strings :: "string list" where
  "method_strings = [''DELETE'', ''GET'', ''HEAD'', ''POST'', ''PUT'', ''CONNECT'', ''OPTIONS'', ''TRACE'',
    ''COPY'', ''LOCK'', ''MKCOL'', ''MOVE'', ''PROPFIND'', ''PROPPATCH'', ''SEARCH'',
    ''UNLOCK'', ''BIND'', ''REBIND'', ''UNBIND'', ''ACL'', ''REPORT'', ''MKACTIVITY'',
    ''CHECKOUT'', ''MERGE'', ''M-SEARCH'', ''NOTIFY'', ''SUBSCRIBE'', ''UNSUBSCRIBE'',
    ''PATCH'', ''PURGE'', ''MKCALENDAR'', ''LINK'', ''UNLINK'']"

definition http_method_str :: "http_method \<Rightarrow> string" where
  "http_method_str m = (if http_method_num m < length method_strings
     then method_strings ! http_method_num m else ''<unknown>'')"

text \<open>Reading a C string at an index: the byte there, or the terminator at its end.\<close>

definition c_at :: "string \<Rightarrow> nat \<Rightarrow> char" where
  "c_at s i = (if i < length s then s ! i else NUL)"

text \<open>Where two methods share a prefix, the first differing letter decides.\<close>

definition method_switch :: "http_method \<Rightarrow> nat \<Rightarrow> char \<Rightarrow> http_method option" where
  "method_switch m i c = map_of
    [((HTTP_POST, 1, CHR ''U''), HTTP_PUT),
     ((HTTP_POST, 1, CHR ''A''), HTTP_PATCH),
     ((HTTP_CONNECT, 1, CHR ''H''), HTTP_CHECKOUT),
     ((HTTP_CONNECT, 2, CHR ''P''), HTTP_COPY),
     ((HTTP_MKCOL, 1, CHR ''O''), HTTP_MOVE),
     ((HTTP_MKCOL, 1, CHR ''E''), HTTP_MERGE),
     ((HTTP_MKCOL, 2, CHR ''A''), HTTP_MKACTIVITY),
     ((HTTP_MKCOL, 3, CHR ''A''), HTTP_MKCALENDAR),
     ((HTTP_SUBSCRIBE, 1, CHR ''E''), HTTP_SEARCH),
     ((HTTP_REPORT, 2, CHR ''B''), HTTP_REBIND),
     ((HTTP_POST, 1, CHR ''R''), HTTP_PROPFIND),
     ((HTTP_PROPFIND, 4, CHR ''P''), HTTP_PROPPATCH),
     ((HTTP_PUT, 2, CHR ''R''), HTTP_PURGE),
     ((HTTP_LOCK, 1, CHR ''I''), HTTP_LINK),
     ((HTTP_UNLOCK, 2, CHR ''S''), HTTP_UNSUBSCRIBE),
     ((HTTP_UNLOCK, 2, CHR ''B''), HTTP_UNBIND),
     ((HTTP_UNLOCK, 3, CHR ''I''), HTTP_UNLINK)] (m, i, c)"

definition method_start :: "char \<Rightarrow> http_method option" where
  "method_start c = map_of
    [(CHR ''A'', HTTP_ACL), (CHR ''B'', HTTP_BIND), (CHR ''C'', HTTP_CONNECT),
     (CHR ''D'', HTTP_DELETE), (CHR ''G'', HTTP_GET), (CHR ''H'', HTTP_HEAD),
     (CHR ''L'', HTTP_LOCK), (CHR ''M'', HTTP_MKCOL), (CHR ''N'', HTTP_NOTIFY),
     (CHR ''O'', HTTP_OPTIONS), (CHR ''P'', HTTP_POST), (CHR ''R'', HTTP_REPORT),
     (CHR ''S'', HTTP_SUBSCRIBE), (CHR ''T'', HTTP_TRACE), (CHR ''U'', HTTP_UNLOCK)] c"

section \<open>The URL automaton\<close>

definition parse_url_server :: "char \<Rightarrow> parser_state" where
  "parse_url_server ch =
    (if ch = CHR ''/'' then s_req_path
     else if ch = CHR ''?'' then s_req_query_string_start
     else if ch = CHR ''@'' then s_req_server_with_at
     else if IS_USERINFO_CHAR ch \<or> ch = CHR ''['' \<or> ch = CHR '']'' then s_req_server
     else s_dead)"

definition parse_url_query :: "char \<Rightarrow> parser_state" where
  "parse_url_query ch =
    (if IS_URL_CHAR ch then s_req_query_string
     else if ch = CHR ''?'' then s_req_query_string
     else if ch = CHR ''#'' then s_req_fragment_start
     else s_dead)"

definition parse_url_char :: "parser_state \<Rightarrow> char \<Rightarrow> parser_state" where
  "parse_url_char s ch =
    (if ch \<in> {CHR '' '', CR, LF} then s_dead
     else if ch \<in> {HT, CHR 0x0C} then s_dead
     else (case s of
       s_req_spaces_before_url \<Rightarrow>
         (if ch = CHR ''/'' \<or> ch = CHR ''*'' then s_req_path
          else if IS_ALPHA ch then s_req_schema else s_dead)
     | s_req_schema \<Rightarrow>
         (if IS_ALPHA ch then s else if ch = CHR '':'' then s_req_schema_slash else s_dead)
     | s_req_schema_slash \<Rightarrow> (if ch = CHR ''/'' then s_req_schema_slash_slash else s_dead)
     | s_req_schema_slash_slash \<Rightarrow> (if ch = CHR ''/'' then s_req_server_start else s_dead)
     | s_req_server_with_at \<Rightarrow> (if ch = CHR ''@'' then s_dead else parse_url_server ch)
     | s_req_server_start \<Rightarrow> parse_url_server ch
     | s_req_server \<Rightarrow> parse_url_server ch
     | s_req_path \<Rightarrow>
         (if IS_URL_CHAR ch then s
          else if ch = CHR ''?'' then s_req_query_string_start
          else if ch = CHR ''#'' then s_req_fragment_start
          else s_dead)
     | s_req_query_string_start \<Rightarrow> parse_url_query ch
     | s_req_query_string \<Rightarrow> parse_url_query ch
     | s_req_fragment_start \<Rightarrow>
         (if IS_URL_CHAR ch then s_req_fragment
          else if ch = CHR ''?'' then s_req_fragment
          else if ch = CHR ''#'' then s
          else s_dead)
     | s_req_fragment \<Rightarrow>
         (if IS_URL_CHAR ch then s else if ch = CHR ''?'' \<or> ch = CHR ''#'' then s else s_dead)
     | _ \<Rightarrow> s_dead))"

section \<open>Lemmas\<close>

lemma tokens_NUL [simp]: "tokens NUL = NUL"
  by (simp add: tokens_def IS_ALPHA_def LOWER_def IS_NUM_def)

lemma http_method_str_eqs [simp]:
  "http_method_str HTTP_DELETE = ''DELETE''"
  "http_method_str HTTP_GET = ''GET''"
  "http_method_str HTTP_HEAD = ''HEAD''"
  "http_method_str HTTP_POST = ''POST''"
  "http_method_str HTTP_PUT = ''PUT''"
  "http_method_str HTTP_CONNECT = ''CONNECT''"
  "http_method_str HTTP_OPTIONS = ''OPTIONS''"
  "http_method_str HTTP_TRACE = ''TRACE''"
  "http_method_str HTTP_COPY = ''COPY''"
  "http_method_str HTTP_LOCK = ''LOCK''"
  "http_method_str HTTP_MKCOL = ''MKCOL''"
  "http_method_str HTTP_MOVE = ''MOVE''"
  "http_method_str HTTP_PROPFIND = ''PROPFIND''"
  "http_method_str HTTP_PROPPATCH = ''PROPPATCH''"
  "http_method_str HTTP_SEARCH = ''SEARCH''"
  "http_method_str HTTP_UNLOCK = ''UNLOCK''"
  "http_method_str HTTP_BIND = ''BIND''"
  "http_method_str HTTP_REBIND = ''REBIND''"
  "http_method_str HTTP_UNBIND = ''UNBIND''"
  "http_method_str HTTP_ACL = ''ACL''"
  "http_method_str HTTP_REPORT = ''REPORT''"
  "http_method_str HTTP_MKACTIVITY = ''MKACTIVITY''"
  "http_method_str HTTP_CHECKOUT = ''CHECKOUT''"
  "http_method_str HTTP_MERGE = ''MERGE''"
  "http_method_str HTTP_MSEARCH = ''M-SEARCH''"
  "http_method_str HTTP_NOTIFY = ''NOTIFY''"
  "http_method_str HTTP_SUBSCRIBE = ''SUBSCRIBE''"
  "http_method_str HTTP_UNSUBSCRIBE = ''UNSUBSCRIBE''"
  "http_method_str HTTP_PATCH = ''PATCH''"
  "http_method_str HTTP_PURGE = ''PURGE''"
  "http_method_str HTTP_MKCALENDAR = ''MKCALENDAR''"
  "http_method_str HTTP_LINK = ''LINK''"
  "http_method_str HTTP_UNLINK = ''UNLINK''"
  "http_method_str END = ''<unknown>''"
  by (simp_all add: http_method_str_def method_strings_def http_method_num_def http_methods_def)

lemma method_switch_Some:
  assumes "method_switch m i c = Some m'"
  shows "i < length (http_method_str m') \<and> take i (http_method_str m') = take i (http_method_str m)
    \<and> http_method_str m' ! i = c \<and> i < length (http_method_str m)"
  using assms unfolding method_switch_def by (auto split: if_splits)

lemma method_start_Some:
  assumes "method_start c = Some m"
  shows "http_method_str m \<noteq> [] \<and> hd (http_method_str m) = c"
  using assms unfolding method_start_def by (auto split: if_splits)

lemma length_http_method_str: "length (http_method_str m) \<le> 11"
  by (cases m) simp_all

text \<open>The states in which a URL is read.\<close>

definition url_states :: "parser_state set" where
  "url_states = {s_req_path, s_req_schema, s_req_schema_slash, s_req_schema_slash_slash,
     s_req_server_start, s_req_server, s_req_server_with_at, s_req_query_string_start,
     s_req_query_string, s_req_fragment_start, s_req_fragment}"

lemma parse_url_char_range: "parse_url_char s ch \<in> insert s_dead url_states"
  by (cases s) (simp_all add: parse_url_char_def parse_url_server_def parse_url_query_def url_states_def)

end
