(* ===== verification/Url_Parser.thy ===== *)
theory Url_Parser
  imports Http_Parser
begin

text \<open>
  \<open>http_parser_parse_url\<close> and \<open>http_parse_host\<close> of
  \<open>src/src/http_parser/http_parser.c\<close>: the split of a URL into fields, given as 16-bit
  offsets and lengths into the buffer.  The buffer is the memory from \<open>buf\<close> on, of which the
  first \<open>buflen\<close> bytes are the URL; only \<open>strtoul\<close> reads beyond them.
\<close>

section \<open>Result structure\<close>

datatype url_field = UF_SCHEMA | UF_HOST | UF_PORT | UF_PATH | UF_QUERY | UF_FRAGMENT | UF_USERINFO

record field_range =
  uf_off :: "16 word"
  uf_len :: "16 word"

record http_parser_url =
  pu_field_set :: "url_field set"
  pu_port :: "16 word"
  pu_field_data :: "url_field \<Rightarrow> field_range"

definition http_parser_url_init :: http_parser_url where
  "http_parser_url_init =
    \<lparr>pu_field_set = {}, pu_port = 0, pu_field_data = (\<lambda>_. \<lparr>uf_off = 0, uf_len = 0\<rparr>)\<rparr>"

text \<open>The assignments the code makes to one field: its length, its start, and its bit.\<close>

definition set_len :: "url_field \<Rightarrow> 16 word \<Rightarrow> http_parser_url \<Rightarrow> http_parser_url" where
  "set_len f l u = u\<lparr>pu_field_data := (pu_field_data u)(f := (pu_field_data u f)\<lparr>uf_len := l\<rparr>)\<rparr>"

definition set_off :: "url_field \<Rightarrow> nat \<Rightarrow> http_parser_url \<Rightarrow> http_parser_url" where
  "set_off f n u = u\<lparr>pu_field_data := (pu_field_data u)(f := (pu_field_data u f)\<lparr>uf_off := of_nat n\<rparr>)\<rparr>"

definition set_bit_of :: "url_field \<Rightarrow> http_parser_url \<Rightarrow> http_parser_url" where
  "set_bit_of f u = u\<lparr>pu_field_set := insert f (pu_field_set u)\<rparr>"

definition incr_len :: "url_field \<Rightarrow> http_parser_url \<Rightarrow> http_parser_url" where
  "incr_len f u = set_len f (uf_len (pu_field_data u f) + 1) u"

section \<open>The host part\<close>

datatype http_host_state = s_http_host_dead | s_http_userinfo_start | s_http_userinfo
  | s_http_host_start | s_http_host_v6_start | s_http_host | s_http_host_v6 | s_http_host_v6_end
  | s_http_host_v6_zone_start | s_http_host_v6_zone | s_http_host_port_start | s_http_host_port

definition is_zone_char :: "char \<Rightarrow> bool" where
  "is_zone_char ch \<longleftrightarrow> IS_ALPHANUM ch \<or> ch \<in> set ''%.-_~''"

definition http_parse_host_char :: "http_host_state \<Rightarrow> char \<Rightarrow> http_host_state" where
  "http_parse_host_char s ch = (case s of
     s_http_userinfo \<Rightarrow>
       (if ch = CHR ''@'' then s_http_host_start
        else if IS_USERINFO_CHAR ch then s_http_userinfo else s_http_host_dead)
   | s_http_userinfo_start \<Rightarrow>
       (if ch = CHR ''@'' then s_http_host_start
        else if IS_USERINFO_CHAR ch then s_http_userinfo else s_http_host_dead)
   | s_http_host_start \<Rightarrow>
       (if ch = CHR ''['' then s_http_host_v6_start
        else if IS_HOST_CHAR ch then s_http_host else s_http_host_dead)
   | s_http_host \<Rightarrow>
       (if IS_HOST_CHAR ch then s_http_host
        else if ch = CHR '':'' then s_http_host_port_start else s_http_host_dead)
   | s_http_host_v6_end \<Rightarrow>
       (if ch = CHR '':'' then s_http_host_port_start else s_http_host_dead)
   | s_http_host_v6 \<Rightarrow>
       (if ch = CHR '']'' then s_http_host_v6_end
        else if IS_HEX ch \<or> ch = CHR '':'' \<or> ch = CHR ''.'' then s_http_host_v6
        else if ch = CHR ''%'' then s_http_host_v6_zone_start else s_http_host_dead)
   | s_http_host_v6_start \<Rightarrow>
       (if IS_HEX ch \<or> ch = CHR '':'' \<or> ch = CHR ''.'' then s_http_host_v6 else s_http_host_dead)
   | s_http_host_v6_zone \<Rightarrow>
       (if ch = CHR '']'' then s_http_host_v6_end
        else if is_zone_char ch then s_http_host_v6_zone else s_http_host_dead)
   | s_http_host_v6_zone_start \<Rightarrow>
       (if is_zone_char ch then s_http_host_v6_zone else s_http_host_dead)
   | s_http_host_port \<Rightarrow> (if IS_NUM ch then s_http_host_port else s_http_host_dead)
   | s_http_host_port_start \<Rightarrow> (if IS_NUM ch then s_http_host_port else s_http_host_dead)
   | s_http_host_dead \<Rightarrow> s_http_host_dead)"

text \<open>What one character in its new state does to the fields; \<open>p\<close> is its offset.\<close>

definition host_fields ::
  "http_host_state \<Rightarrow> http_host_state \<Rightarrow> nat \<Rightarrow> http_parser_url \<Rightarrow> http_parser_url" where
  "host_fields s new_s p u = (case new_s of
     s_http_host \<Rightarrow> incr_len UF_HOST (if s \<noteq> s_http_host then set_off UF_HOST p u else u)
   | s_http_host_v6 \<Rightarrow> incr_len UF_HOST (if s \<noteq> s_http_host_v6 then set_off UF_HOST p u else u)
   | s_http_host_v6_zone_start \<Rightarrow> incr_len UF_HOST u
   | s_http_host_v6_zone \<Rightarrow> incr_len UF_HOST u
   | s_http_host_port \<Rightarrow> incr_len UF_PORT
       (if s \<noteq> s_http_host_port then set_bit_of UF_PORT (set_len UF_PORT 0 (set_off UF_PORT p u)) else u)
   | s_http_userinfo \<Rightarrow> incr_len UF_USERINFO
       (if s \<noteq> s_http_userinfo
        then set_bit_of UF_USERINFO (set_len UF_USERINFO 0 (set_off UF_USERINFO p u)) else u)
   | _ \<Rightarrow> u)"

text \<open>
  A failed parse leaves the fields as far as it got: every parser here returns whether it
  succeeded (the C functions' 0) beside the structure.
\<close>

fun parse_host_loop ::
  "string \<Rightarrow> nat \<Rightarrow> http_host_state \<Rightarrow> http_parser_url \<Rightarrow> http_host_state \<times> http_parser_url" where
  "parse_host_loop [] p s u = (s, u)"
| "parse_host_loop (c # cs) p s u =
    (let new_s = http_parse_host_char s c
     in if new_s = s_http_host_dead then (s_http_host_dead, u)
        else parse_host_loop cs (Suc p) new_s (host_fields s new_s p u))"

definition host_end_ok :: "http_host_state \<Rightarrow> bool" where
  "host_end_ok s \<longleftrightarrow> s \<notin> {s_http_host_dead, s_http_host_start, s_http_host_v6_start, s_http_host_v6,
     s_http_host_v6_zone_start, s_http_host_v6_zone, s_http_host_port_start, s_http_userinfo,
     s_http_userinfo_start}"

definition http_parse_host :: "string \<Rightarrow> bool \<Rightarrow> http_parser_url \<Rightarrow> (bool \<times> http_parser_url) result" where
  "http_parse_host buf found_at u = assert_that (UF_HOST \<in> pu_field_set u)
    (let off = unat (uf_off (pu_field_data u UF_HOST));
         n = unat (uf_len (pu_field_data u UF_HOST));
         (s, u) = parse_host_loop (take n (drop off buf)) off
           (if found_at then s_http_userinfo_start else s_http_host_start) (set_len UF_HOST 0 u)
     in Inr (host_end_ok s, u))"

section \<open>The whole URL\<close>

text \<open>The field a state belongs to: none for the states that only skip a delimiter.\<close>

definition state_field :: "parser_state \<Rightarrow> url_field option" where
  "state_field s =
    (if s = s_req_schema then Some UF_SCHEMA
     else if s = s_req_server_with_at \<or> s = s_req_server then Some UF_HOST
     else if s = s_req_path then Some UF_PATH
     else if s = s_req_query_string then Some UF_QUERY
     else if s = s_req_fragment then Some UF_FRAGMENT
     else None)"

definition is_delimiter_state :: "parser_state \<Rightarrow> bool" where
  "is_delimiter_state s \<longleftrightarrow> s \<in> {s_req_schema_slash, s_req_schema_slash_slash, s_req_server_start,
     s_req_query_string_start, s_req_fragment_start}"

text \<open>\<open>old_uf\<close> starts as \<open>UF_MAX\<close>, here \<open>None\<close>; the result is whether the URL was valid.\<close>

fun parse_url_loop ::
  "string \<Rightarrow> nat \<Rightarrow> parser_state \<Rightarrow> url_field option \<Rightarrow> bool \<Rightarrow> http_parser_url
   \<Rightarrow> (bool \<times> bool \<times> http_parser_url) result" where
  "parse_url_loop [] p s old_uf found_at u = Inr (True, found_at, u)"
| "parse_url_loop (c # cs) p s old_uf found_at u =
    (let s = parse_url_char s c in
     if s = s_dead then Inr (False, found_at, u)
     else if is_delimiter_state s then parse_url_loop cs (Suc p) s old_uf found_at u
     else (case state_field s of
         None \<Rightarrow> Inl Assert_failed
       | Some uf \<Rightarrow>
           (let found_at = (found_at \<or> s = s_req_server_with_at) in
            if old_uf = Some uf then parse_url_loop cs (Suc p) s old_uf found_at (incr_len uf u)
            else parse_url_loop cs (Suc p) s (Some uf) found_at
                   (set_bit_of uf (set_len uf 1 (set_off uf p u))))))"

text \<open>\<open>strtoul\<close> in base 10 saturates at the largest \<open>unsigned long\<close>; the port is already known to be digits.\<close>

fun strtoul_digits :: "nat \<Rightarrow> string \<Rightarrow> nat" where
  "strtoul_digits acc [] = acc"
| "strtoul_digits acc (c # cs) =
    (if IS_NUM c then strtoul_digits (acc * 10 + (byte c - 48)) cs else acc)"

definition strtoul :: "string \<Rightarrow> nat" where
  "strtoul s = min (strtoul_digits 0 s) (2 ^ 64 - 1)"

definition parse_url_port :: "string \<Rightarrow> http_parser_url \<Rightarrow> bool \<times> http_parser_url" where
  "parse_url_port buf u =
    (if UF_PORT \<in> pu_field_set u
     then (let v = strtoul (drop (unat (uf_off (pu_field_data u UF_PORT))) buf)
           in if v > 0xffff then (False, u) else (True, u\<lparr>pu_port := of_nat v\<rparr>))
     else (True, u))"

definition http_parser_parse_url ::
  "string \<Rightarrow> nat \<Rightarrow> bool \<Rightarrow> http_parser_url \<Rightarrow> (bool \<times> http_parser_url) result" where
  "http_parser_parse_url buf buflen is_connect u =
    (let u = u\<lparr>pu_port := 0, pu_field_set := {}\<rparr>;
         s = (if is_connect then s_req_server_start else s_req_spaces_before_url)
     in res_bind (parse_url_loop (take buflen buf) 0 s None False u) (\<lambda>(ok, found_at, u).
        if \<not> ok then Inr (False, u)
        else if UF_SCHEMA \<in> pu_field_set u \<and> UF_HOST \<notin> pu_field_set u then Inr (False, u)
        else res_bind (if UF_HOST \<in> pu_field_set u then http_parse_host buf found_at u else Inr (True, u))
          (\<lambda>(ok, u).
             if \<not> ok then Inr (False, u)
             else if is_connect \<and> pu_field_set u \<noteq> {UF_HOST, UF_PORT} then Inr (False, u)
             else Inr (parse_url_port buf u))))"

text \<open>The text of a field.\<close>

definition field_text :: "string \<Rightarrow> http_parser_url \<Rightarrow> url_field \<Rightarrow> string" where
  "field_text buf u f = take (unat (uf_len (pu_field_data u f))) (drop (unat (uf_off (pu_field_data u f))) buf)"

end
