(* ===== verification/Parser_Start_Line.thy ===== *)
theory Parser_Start_Line
  imports Url_Parser
begin

text \<open>
  \<open>http_parser_execute\<close> of \<open>src/src/http_parser/http_parser.c\<close>, one definition per state
  or group of states: here the macros of the loop and the states of the status line and the
  request line; the header states are in \<open>Parser_Headers\<close>, the body states and the loop in
  \<open>Parser_Execute\<close>.  The locals of the function are a record: the parser, the position
  \<open>p\<close>, the five marks as offsets into the data, and the user's state.  The local
  \<open>p_state\<close> is the parser's state field, which the code writes back before every callback
  and return (\<open>on_headers_complete\<close>, called with the field one step behind, is not told the
  state by anything it calls).  A state's definition ends in \<open>Next\<close> (the \<open>break\<close> to the
  next byte) or in \<open>Return\<close>; a \<open>goto reexecute\<close> is a call of the target state's
  definition, which is known at every such jump because only \<open>on_message_complete\<close> changes
  the parser, and nothing is re-executed after it.
\<close>

section \<open>Callbacks and the locals of the loop\<close>

text \<open>
  A data callback gets the data from the mark on and the length.  The codec registers every
  callback; a callback's fault is a fault of the parser.
\<close>

datatype mark = M_header_field | M_header_value | M_url | M_body | M_status

record 's http_parser_settings =
  on_message_begin :: "http_parser \<Rightarrow> 's \<Rightarrow> (int \<times> 's) result"
  on_data :: "mark \<Rightarrow> http_parser \<Rightarrow> string \<Rightarrow> nat \<Rightarrow> 's \<Rightarrow> (int \<times> 's) result"
  on_headers_complete :: "http_parser \<Rightarrow> 's \<Rightarrow> (int \<times> 's) result"
  on_message_complete :: "http_parser \<Rightarrow> 's \<Rightarrow> (int \<times> http_parser \<times> 's) result"
  on_chunk_header :: "http_parser \<Rightarrow> 's \<Rightarrow> (int \<times> 's) result"
  on_chunk_complete :: "http_parser \<Rightarrow> 's \<Rightarrow> (int \<times> 's) result"

record 's execution =
  ex_parser :: http_parser
  ex_p :: nat
  ex_mark :: "mark \<Rightarrow> nat option"
  ex_user :: 's

datatype 's control = Next "'s execution" | Return nat "'s execution"

type_synonym 's step = "'s execution \<Rightarrow> 's control result"

definition update_parser :: "(http_parser \<Rightarrow> http_parser) \<Rightarrow> 's execution \<Rightarrow> 's execution" where
  "update_parser f x = x\<lparr>ex_parser := f (ex_parser x)\<rparr>"

definition SET_ERRNO :: "http_errno \<Rightarrow> 's execution \<Rightarrow> 's execution" where
  "SET_ERRNO e = update_parser (\<lambda>hp. hp\<lparr>hp_errno := e\<rparr>)"

definition UPDATE_STATE :: "parser_state \<Rightarrow> 's execution \<Rightarrow> 's execution" where
  "UPDATE_STATE s = update_parser (\<lambda>hp. hp\<lparr>hp_state := s\<rparr>)"

definition add_flag :: "flag \<Rightarrow> 's execution \<Rightarrow> 's execution" where
  "add_flag f = update_parser (\<lambda>hp. hp\<lparr>hp_flags := insert f (hp_flags hp)\<rparr>)"

text \<open>\<open>goto error\<close> after \<open>SET_ERRNO\<close>.\<close>

definition fail :: "http_errno \<Rightarrow> 's step" where
  "fail e x = Inr (Return (ex_p x) (SET_ERRNO e x))"

definition next_byte :: "'s step" where
  "next_byte x = Inr (Next x)"

definition STRICT_CHECK :: "bool \<Rightarrow> 's step \<Rightarrow> 's step" where
  "STRICT_CHECK cond k x = (if cond then fail HPE_STRICT x else k x)"

definition HTTP_MAX_HEADER_SIZE :: nat where
  "HTTP_MAX_HEADER_SIZE = 80 * 1024"

definition COUNT_HEADER_SIZE :: "nat \<Rightarrow> 's step \<Rightarrow> 's step" where
  "COUNT_HEADER_SIZE v k x =
    (let x = update_parser (\<lambda>hp. hp\<lparr>hp_nread := hp_nread hp + of_nat v\<rparr>) x
     in if hp_nread (ex_parser x) > of_nat HTTP_MAX_HEADER_SIZE then fail HPE_HEADER_OVERFLOW x else k x)"

definition MARK :: "mark \<Rightarrow> 's execution \<Rightarrow> 's execution" where
  "MARK m x = (if ex_mark x m = None then x\<lparr>ex_mark := (ex_mark x)(m := Some (ex_p x))\<rparr> else x)"

definition callback_notify ::
  "(http_parser \<Rightarrow> 's \<Rightarrow> (int \<times> 's) result) \<Rightarrow> http_errno \<Rightarrow> nat \<Rightarrow> 's step \<Rightarrow> 's step" where
  "callback_notify cb e er k x = assert_that (hp_errno (ex_parser x) = HPE_OK)
    (res_bind (cb (ex_parser x) (ex_user x)) (\<lambda>(r, s).
       let x = x\<lparr>ex_user := s\<rparr> in
       if r \<noteq> 0 then Inr (Return er (SET_ERRNO e x)) else k x))"

definition callback_message_complete :: "'s http_parser_settings \<Rightarrow> nat \<Rightarrow> 's step \<Rightarrow> 's step" where
  "callback_message_complete S er k x = assert_that (hp_errno (ex_parser x) = HPE_OK)
    (res_bind (on_message_complete S (ex_parser x) (ex_user x)) (\<lambda>(r, hp, s).
       let x = x\<lparr>ex_parser := hp, ex_user := s\<rparr>;
           x = (if r \<noteq> 0 then SET_ERRNO HPE_CB_message_complete x else x)
       in if hp_errno (ex_parser x) \<noteq> HPE_OK then Inr (Return er x) else k x))"

fun mark_errno :: "mark \<Rightarrow> http_errno" where
  "mark_errno M_header_field = HPE_CB_header_field"
| "mark_errno M_header_value = HPE_CB_header_value"
| "mark_errno M_url = HPE_CB_url"
| "mark_errno M_body = HPE_CB_body"
| "mark_errno M_status = HPE_CB_status"

text \<open>\<open>at_end\<close> is the position up to which the data goes, \<open>er\<close> what is returned on an error.\<close>

definition callback_data ::
  "'s http_parser_settings \<Rightarrow> string \<Rightarrow> mark \<Rightarrow> nat \<Rightarrow> nat \<Rightarrow> 's step \<Rightarrow> 's step" where
  "callback_data S d m at_end er k x = assert_that (hp_errno (ex_parser x) = HPE_OK)
    (case ex_mark x m of
       None \<Rightarrow> k x
     | Some a \<Rightarrow>
         res_bind (on_data S m (ex_parser x) (drop a d) (at_end - a) (ex_user x)) (\<lambda>(r, s).
           let x = x\<lparr>ex_user := s\<rparr> in
           if r \<noteq> 0 then Inr (Return er (SET_ERRNO (mark_errno m) x))
           else k (x\<lparr>ex_mark := (ex_mark x)(m := None)\<rparr>)))"

definition CALLBACK_DATA :: "'s http_parser_settings \<Rightarrow> string \<Rightarrow> mark \<Rightarrow> 's step \<Rightarrow> 's step" where
  "CALLBACK_DATA S d m k x = callback_data S d m (ex_p x) (ex_p x + 1) k x"

definition CALLBACK_DATA_NOADVANCE :: "'s http_parser_settings \<Rightarrow> string \<Rightarrow> mark \<Rightarrow> 's step \<Rightarrow> 's step" where
  "CALLBACK_DATA_NOADVANCE S d m k x = callback_data S d m (ex_p x) (ex_p x) k x"

section \<open>Status line\<close>

definition step_dead :: "char \<Rightarrow> 's step" where
  "step_dead ch x = (if ch = CR \<or> ch = LF then next_byte x else fail HPE_CLOSED_CONNECTION x)"

text \<open>A new message: no flags and no content length.\<close>

definition clear_message :: "'s execution \<Rightarrow> 's execution" where
  "clear_message = update_parser (\<lambda>hp. hp\<lparr>hp_flags := {}, hp_content_length := ULLONG_MAX\<rparr>)"

definition step_start_req :: "'s http_parser_settings \<Rightarrow> char \<Rightarrow> 's step" where
  "step_start_req S ch x =
    (if ch = CR \<or> ch = LF then next_byte x
     else (let x = clear_message x in
       if \<not> IS_ALPHA ch then fail HPE_INVALID_METHOD x
       else (let x = update_parser (\<lambda>hp. hp\<lparr>hp_method := HTTP_DELETE, hp_index := 1\<rparr>) x in
         case method_start ch of
           None \<Rightarrow> fail HPE_INVALID_METHOD x
         | Some m \<Rightarrow>
             callback_notify (on_message_begin S) HPE_CB_message_begin (ex_p x + 1) next_byte
               (UPDATE_STATE s_req_method (update_parser (\<lambda>hp. hp\<lparr>hp_method := m\<rparr>) x)))))"

definition step_start_req_or_res :: "'s http_parser_settings \<Rightarrow> char \<Rightarrow> 's step" where
  "step_start_req_or_res S ch x =
    (if ch = CR \<or> ch = LF then next_byte x
     else (let x = clear_message x in
       if ch = CHR ''H''
       then callback_notify (on_message_begin S) HPE_CB_message_begin (ex_p x + 1) next_byte
              (UPDATE_STATE s_res_or_resp_H x)
       else step_start_req S ch
              (UPDATE_STATE s_start_req (update_parser (\<lambda>hp. hp\<lparr>hp_type := HTTP_REQUEST\<rparr>) x))))"

definition step_res_or_resp_H :: "char \<Rightarrow> 's step" where
  "step_res_or_resp_H ch x =
    (if ch = CHR ''T''
     then next_byte (UPDATE_STATE s_res_HT (update_parser (\<lambda>hp. hp\<lparr>hp_type := HTTP_RESPONSE\<rparr>) x))
     else if ch \<noteq> CHR ''E'' then fail HPE_INVALID_CONSTANT x
     else next_byte (UPDATE_STATE s_req_method
       (update_parser (\<lambda>hp. hp\<lparr>hp_type := HTTP_REQUEST, hp_method := HTTP_HEAD, hp_index := 2\<rparr>) x)))"

definition step_start_res :: "'s http_parser_settings \<Rightarrow> char \<Rightarrow> 's step" where
  "step_start_res S ch x =
    (let x = clear_message x;
         k = callback_notify (on_message_begin S) HPE_CB_message_begin (ex_p x + 1) next_byte
     in if ch = CHR ''H'' then k (UPDATE_STATE s_res_H x)
        else if ch = CR \<or> ch = LF then k x
        else fail HPE_INVALID_CONSTANT x)"

definition step_res_constant :: "char \<Rightarrow> parser_state \<Rightarrow> char \<Rightarrow> 's step" where
  "step_res_constant expected s ch x = STRICT_CHECK (ch \<noteq> expected) (\<lambda>x. next_byte (UPDATE_STATE s x)) x"

definition digit16 :: "char \<Rightarrow> 16 word" where
  "digit16 ch = of_nat (byte ch) - 48"

definition set_major :: "16 word \<Rightarrow> 's execution \<Rightarrow> 's execution" where
  "set_major v = update_parser (\<lambda>hp. hp\<lparr>hp_http_major := v\<rparr>)"

definition set_minor :: "16 word \<Rightarrow> 's execution \<Rightarrow> 's execution" where
  "set_minor v = update_parser (\<lambda>hp. hp\<lparr>hp_http_minor := v\<rparr>)"

definition step_res_first_http_major :: "char \<Rightarrow> 's step" where
  "step_res_first_http_major ch x =
    (if \<not> IS_NUM ch then fail HPE_INVALID_VERSION x
     else next_byte (UPDATE_STATE s_res_http_major (set_major (digit16 ch) x)))"

definition step_http_major :: "parser_state \<Rightarrow> char \<Rightarrow> 's step" where
  "step_http_major after_dot ch x =
    (if ch = CHR ''.'' then next_byte (UPDATE_STATE after_dot x)
     else if \<not> IS_NUM ch then fail HPE_INVALID_VERSION x
     else (let x = set_major (hp_http_major (ex_parser x) * 10 + digit16 ch) x
           in if hp_http_major (ex_parser x) > 999 then fail HPE_INVALID_VERSION x else next_byte x))"

definition step_first_http_minor :: "parser_state \<Rightarrow> char \<Rightarrow> 's step" where
  "step_first_http_minor s ch x =
    (if \<not> IS_NUM ch then fail HPE_INVALID_VERSION x
     else next_byte (UPDATE_STATE s (set_minor (digit16 ch) x)))"

text \<open>Another digit of the minor version, for both kinds of message.\<close>

definition minor_digit :: "char \<Rightarrow> 's step" where
  "minor_digit ch x =
    (if \<not> IS_NUM ch then fail HPE_INVALID_VERSION x
     else (let x = set_minor (hp_http_minor (ex_parser x) * 10 + digit16 ch) x
           in if hp_http_minor (ex_parser x) > 999 then fail HPE_INVALID_VERSION x else next_byte x))"

definition step_res_http_minor :: "char \<Rightarrow> 's step" where
  "step_res_http_minor ch x =
    (if ch = CHR '' '' then next_byte (UPDATE_STATE s_res_first_status_code x) else minor_digit ch x)"

definition set_status_code :: "16 word \<Rightarrow> 's execution \<Rightarrow> 's execution" where
  "set_status_code v = update_parser (\<lambda>hp. hp\<lparr>hp_status_code := v\<rparr>)"

definition step_res_first_status_code :: "char \<Rightarrow> 's step" where
  "step_res_first_status_code ch x =
    (if \<not> IS_NUM ch then (if ch = CHR '' '' then next_byte x else fail HPE_INVALID_STATUS x)
     else next_byte (UPDATE_STATE s_res_status_code (set_status_code (digit16 ch) x)))"

definition step_res_status_code :: "char \<Rightarrow> 's step" where
  "step_res_status_code ch x =
    (if \<not> IS_NUM ch then
       (if ch = CHR '' '' then next_byte (UPDATE_STATE s_res_status_start x)
        else if ch = CR then next_byte (UPDATE_STATE s_res_line_almost_done x)
        else if ch = LF then next_byte (UPDATE_STATE s_header_field_start x)
        else fail HPE_INVALID_STATUS x)
     else (let x = set_status_code (hp_status_code (ex_parser x) * 10 + digit16 ch) x
           in if hp_status_code (ex_parser x) > 999 then fail HPE_INVALID_STATUS x else next_byte x))"

definition set_index :: "nat \<Rightarrow> 's execution \<Rightarrow> 's execution" where
  "set_index i = update_parser (\<lambda>hp. hp\<lparr>hp_index := i\<rparr>)"

definition step_res_status_start :: "char \<Rightarrow> 's step" where
  "step_res_status_start ch x =
    (if ch = CR then next_byte (UPDATE_STATE s_res_line_almost_done x)
     else if ch = LF then next_byte (UPDATE_STATE s_header_field_start x)
     else next_byte (set_index 0 (UPDATE_STATE s_res_status (MARK M_status x))))"

definition step_res_status :: "'s http_parser_settings \<Rightarrow> string \<Rightarrow> char \<Rightarrow> 's step" where
  "step_res_status S d ch x =
    (if ch = CR then CALLBACK_DATA S d M_status next_byte (UPDATE_STATE s_res_line_almost_done x)
     else if ch = LF then CALLBACK_DATA S d M_status next_byte (UPDATE_STATE s_header_field_start x)
     else next_byte x)"

section \<open>Request line\<close>

definition incr_index :: "'s execution \<Rightarrow> 's execution" where
  "incr_index x = set_index (hp_index (ex_parser x) + 1) x"

definition set_parsed_method :: "http_method \<Rightarrow> 's execution \<Rightarrow> 's execution" where
  "set_parsed_method m = update_parser (\<lambda>hp. hp\<lparr>hp_method := m\<rparr>)"

definition step_req_method :: "char \<Rightarrow> 's step" where
  "step_req_method ch x =
    (if ch = NUL then fail HPE_INVALID_METHOD x
     else (let m = hp_method (ex_parser x);
               i = hp_index (ex_parser x);
               matcher = http_method_str m
       in if ch = CHR '' '' \<and> c_at matcher i = NUL
          then next_byte (incr_index (UPDATE_STATE s_req_spaces_before_url x))
          else if ch = c_at matcher i then next_byte (incr_index x)
          else if IS_ALPHA ch then
            (case method_switch m i ch of
               None \<Rightarrow> fail HPE_INVALID_METHOD x
             | Some m' \<Rightarrow> next_byte (incr_index (set_parsed_method m' x)))
          else if ch = CHR ''-'' \<and> i = 1 \<and> m = HTTP_MKCOL
          then next_byte (incr_index (set_parsed_method HTTP_MSEARCH x))
          else fail HPE_INVALID_METHOD x))"

text \<open>A character of the URL.\<close>

definition url_char :: "char \<Rightarrow> 's step" where
  "url_char ch x =
    (let x = UPDATE_STATE (parse_url_char (hp_state (ex_parser x)) ch) x
     in if hp_state (ex_parser x) = s_dead then fail HPE_INVALID_URL x else next_byte x)"

definition step_req_spaces_before_url :: "char \<Rightarrow> 's step" where
  "step_req_spaces_before_url ch x =
    (if ch = CHR '' '' then next_byte x
     else (let x = MARK M_url x;
               x = (if hp_method (ex_parser x) = HTTP_CONNECT then UPDATE_STATE s_req_server_start x else x)
           in url_char ch x))"

definition step_req_schema :: "char \<Rightarrow> 's step" where
  "step_req_schema ch x = (if ch \<in> {CHR '' '', CR, LF} then fail HPE_INVALID_URL x else url_char ch x)"

definition step_req_url :: "'s http_parser_settings \<Rightarrow> string \<Rightarrow> char \<Rightarrow> 's step" where
  "step_req_url S d ch x =
    (if ch = CHR '' '' then CALLBACK_DATA S d M_url next_byte (UPDATE_STATE s_req_http_start x)
     else if ch = CR \<or> ch = LF
     then CALLBACK_DATA S d M_url next_byte
            (UPDATE_STATE (if ch = CR then s_req_line_almost_done else s_header_field_start)
               (set_minor 9 (set_major 0 x)))
     else url_char ch x)"

definition step_req_http_start :: "char \<Rightarrow> 's step" where
  "step_req_http_start ch x =
    (if ch = CHR ''H'' then next_byte (UPDATE_STATE s_req_http_H x)
     else if ch = CHR '' '' then next_byte x
     else fail HPE_INVALID_CONSTANT x)"

definition step_req_first_http_major :: "char \<Rightarrow> 's step" where
  "step_req_first_http_major ch x =
    (if \<not> IS_NUM ch \<or> ch = CHR ''0'' then fail HPE_INVALID_VERSION x
     else next_byte (UPDATE_STATE s_req_http_major (set_major (digit16 ch) x)))"

definition step_req_http_minor :: "char \<Rightarrow> 's step" where
  "step_req_http_minor ch x =
    (if ch = CR then next_byte (UPDATE_STATE s_req_line_almost_done x)
     else if ch = LF then next_byte (UPDATE_STATE s_header_field_start x)
     else minor_digit ch x)"

text \<open>\<open>s_req_line_almost_done\<close> and \<open>s_header_almost_done\<close> both want a line feed.\<close>

definition step_expect_LF :: "parser_state \<Rightarrow> char \<Rightarrow> 's step" where
  "step_expect_LF s ch x = (if ch \<noteq> LF then fail HPE_LF_EXPECTED x else next_byte (UPDATE_STATE s x))"

end
