(* ===== verification/Parser_Headers.thy ===== *)
theory Parser_Headers
  imports Parser_Start_Line
begin

text \<open>
  The header states of \<open>http_parser_execute\<close>.  Field names and values are read by inner
  loops, here recursions over the rest of the data that return where and how they stopped;
  \<open>h_state\<close>, the value loop's local copy of the header state, is an argument.
\<close>

section \<open>Field names\<close>

definition set_header_state :: "header_states \<Rightarrow> 's execution \<Rightarrow> 's execution" where
  "set_header_state h = update_parser (\<lambda>hp. hp\<lparr>hp_header_state := h\<rparr>)"

text \<open>
  One letter of a name being matched: past the constant or a different letter is an ordinary
  header, its last letter completes the match.
\<close>

definition match_name :: "string \<Rightarrow> header_states \<Rightarrow> char \<Rightarrow> http_parser \<Rightarrow> http_parser" where
  "match_name name full c hp =
    (let hp = hp\<lparr>hp_index := hp_index hp + 1\<rparr>
     in if hp_index hp > length name \<or> c \<noteq> c_at name (hp_index hp) then hp\<lparr>hp_header_state := h_general\<rparr>
        else if hp_index hp = length name - 1 then hp\<lparr>hp_header_state := full\<rparr>
        else hp)"

definition header_field_char :: "char \<Rightarrow> char \<Rightarrow> http_parser \<Rightarrow> (http_errno + http_parser) result" where
  "header_field_char ch c hp = (case hp_header_state hp of
     h_general \<Rightarrow> Inr (Inr hp)
   | h_C \<Rightarrow> Inr (Inr (hp\<lparr>hp_index := hp_index hp + 1,
       hp_header_state := (if c = CHR ''o'' then h_CO else h_general)\<rparr>))
   | h_CO \<Rightarrow> Inr (Inr (hp\<lparr>hp_index := hp_index hp + 1,
       hp_header_state := (if c = CHR ''n'' then h_CON else h_general)\<rparr>))
   | h_CON \<Rightarrow> Inr (Inr (hp\<lparr>hp_index := hp_index hp + 1,
       hp_header_state := (if c = CHR ''n'' then h_matching_connection
         else if c = CHR ''t'' then h_matching_content_length else h_general)\<rparr>))
   | h_matching_connection \<Rightarrow> Inr (Inr (match_name ''connection'' h_connection c hp))
   | h_matching_proxy_connection \<Rightarrow> Inr (Inr (match_name ''proxy-connection'' h_connection c hp))
   | h_matching_content_length \<Rightarrow>
       (let hp' = match_name ''content-length'' h_content_length c hp
        in if hp_header_state hp' = h_content_length
           then (if F_CONTENTLENGTH \<in> hp_flags hp' then Inr (Inl HPE_UNEXPECTED_CONTENT_LENGTH)
                 else Inr (Inr (hp'\<lparr>hp_flags := insert F_CONTENTLENGTH (hp_flags hp')\<rparr>)))
           else Inr (Inr hp'))
   | h_matching_transfer_encoding \<Rightarrow> Inr (Inr (match_name ''transfer-encoding'' h_transfer_encoding c hp))
   | h_matching_upgrade \<Rightarrow> Inr (Inr (match_name ''upgrade'' h_upgrade c hp))
   | _ \<Rightarrow>
       if hp_header_state hp \<in> {h_connection, h_content_length, h_transfer_encoding, h_upgrade}
       then Inr (Inr (if ch \<noteq> CHR '' '' then hp\<lparr>hp_header_state := h_general\<rparr> else hp))
       else Inl Assert_failed)"

text \<open>The loop stops at the end of the data, at a character that is no token, or on an error.\<close>

datatype field_stop = Field_end | Field_char char | Field_error http_errno

fun header_field_loop :: "string \<Rightarrow> nat \<Rightarrow> http_parser \<Rightarrow> (field_stop \<times> nat \<times> http_parser) result" where
  "header_field_loop [] p hp = Inr (Field_end, p, hp)"
| "header_field_loop (ch # cs) p hp =
    (if tokens ch = NUL then Inr (Field_char ch, p, hp)
     else res_bind (header_field_char ch (tokens ch) hp) (\<lambda>r. case r of
            Inl e \<Rightarrow> Inr (Field_error e, p, hp)
          | Inr hp \<Rightarrow> header_field_loop cs (Suc p) hp))"

definition step_header_field :: "'s http_parser_settings \<Rightarrow> string \<Rightarrow> 's step" where
  "step_header_field S d x =
    res_bind (header_field_loop (drop (ex_p x) d) (ex_p x) (ex_parser x)) (\<lambda>(stop, p, hp).
      let start = ex_p x; x = x\<lparr>ex_p := p, ex_parser := hp\<rparr> in
      (case stop of
         Field_error e \<Rightarrow> fail e x
       | Field_end \<Rightarrow> COUNT_HEADER_SIZE (p - start) (\<lambda>x. next_byte (x\<lparr>ex_p := p - 1\<rparr>)) x
       | Field_char ch \<Rightarrow> COUNT_HEADER_SIZE (p - start)
           (\<lambda>x. if ch = CHR '':''
                then CALLBACK_DATA S d M_header_field next_byte (UPDATE_STATE s_header_value_discard_ws x)
                else fail HPE_INVALID_HEADER_TOKEN x) x))"

section \<open>Field values\<close>

definition step_header_value_start :: "char \<Rightarrow> 's step" where
  "step_header_value_start ch x =
    (let x = set_index 0 (UPDATE_STATE s_header_value (MARK M_header_value x));
         c = LOWER ch
     in case hp_header_state (ex_parser x) of
          h_upgrade \<Rightarrow> next_byte (set_header_state h_general (add_flag F_UPGRADE x))
        | h_transfer_encoding \<Rightarrow>
            next_byte (set_header_state
              (if c = CHR ''c'' then h_matching_transfer_encoding_chunked else h_general) x)
        | h_content_length \<Rightarrow>
            (if \<not> IS_NUM ch then fail HPE_INVALID_CONTENT_LENGTH x
             else next_byte (update_parser
               (\<lambda>hp. hp\<lparr>hp_content_length := of_nat (byte ch) - 48\<rparr>) x))
        | h_connection \<Rightarrow>
            next_byte (set_header_state
              (if c = CHR ''k'' then h_matching_connection_keep_alive
               else if c = CHR ''c'' then h_matching_connection_close
               else if c = CHR ''u'' then h_matching_connection_upgrade
               else h_matching_connection_token) x)
        | h_matching_connection_token_start \<Rightarrow> next_byte x
        | _ \<Rightarrow> next_byte (set_header_state h_general x))"

definition step_header_value_discard_ws :: "char \<Rightarrow> 's step" where
  "step_header_value_discard_ws ch x =
    (if ch = CHR '' '' \<or> ch = HT then next_byte x
     else if ch = CR then next_byte (UPDATE_STATE s_header_value_discard_ws_almost_done x)
     else if ch = LF then next_byte (UPDATE_STATE s_header_value_discard_lws x)
     else step_header_value_start ch x)"

text \<open>One letter of a value being matched, in lower case.\<close>

definition match_value ::
  "string \<Rightarrow> header_states \<Rightarrow> header_states \<Rightarrow> char \<Rightarrow> header_states \<Rightarrow> http_parser
   \<Rightarrow> http_parser \<times> header_states" where
  "match_value word full other c h hp =
    (let hp = hp\<lparr>hp_index := hp_index hp + 1\<rparr>
     in if hp_index hp > length word \<or> c \<noteq> c_at word (hp_index hp) then (hp, other)
        else if hp_index hp = length word - 1 then (hp, full)
        else (hp, h))"

text \<open>A digit of a content length, with the overflow test of the code.\<close>

definition content_length_digit :: "char \<Rightarrow> http_parser \<Rightarrow> http_errno + http_parser" where
  "content_length_digit ch hp =
    (if ch = CHR '' '' then Inr hp
     else if \<not> IS_NUM ch then Inl HPE_INVALID_CONTENT_LENGTH
     else if (ULLONG_MAX - 10) div 10 < hp_content_length hp then Inl HPE_INVALID_CONTENT_LENGTH
     else Inr (hp\<lparr>hp_content_length := hp_content_length hp * 10 + (of_nat (byte ch) - 48)\<rparr>))"

definition connection_flag :: "header_states \<Rightarrow> http_parser \<Rightarrow> http_parser" where
  "connection_flag h hp =
    (if h = h_connection_keep_alive then hp\<lparr>hp_flags := insert F_CONNECTION_KEEP_ALIVE (hp_flags hp)\<rparr>
     else if h = h_connection_close then hp\<lparr>hp_flags := insert F_CONNECTION_CLOSE (hp_flags hp)\<rparr>
     else if h = h_connection_upgrade then hp\<lparr>hp_flags := insert F_CONNECTION_UPGRADE (hp_flags hp)\<rparr>
     else hp)"

text \<open>The states of the value loop other than \<open>h_general\<close>, for one character \<open>ch\<close>.\<close>

definition header_value_char ::
  "char \<Rightarrow> header_states \<Rightarrow> http_parser \<Rightarrow> (http_errno + http_parser \<times> header_states) result" where
  "header_value_char ch h hp = (let c = LOWER ch in case h of
     h_connection \<Rightarrow> Inl Assert_failed
   | h_transfer_encoding \<Rightarrow> Inl Assert_failed
   | h_content_length \<Rightarrow> Inr (map_sum id (\<lambda>hp. (hp, h)) (content_length_digit ch hp))
   | h_matching_transfer_encoding_chunked \<Rightarrow>
       Inr (Inr (match_value ''chunked'' h_transfer_encoding_chunked h_general c h hp))
   | h_matching_connection_token_start \<Rightarrow>
       Inr (Inr (hp,
         if c = CHR ''k'' then h_matching_connection_keep_alive
         else if c = CHR ''c'' then h_matching_connection_close
         else if c = CHR ''u'' then h_matching_connection_upgrade
         else if tokens c \<noteq> NUL then h_matching_connection_token
         else if c = CHR '' '' \<or> c = HT then h
         else h_general))
   | h_matching_connection_keep_alive \<Rightarrow>
       Inr (Inr (match_value ''keep-alive'' h_connection_keep_alive h_matching_connection_token c h hp))
   | h_matching_connection_close \<Rightarrow>
       Inr (Inr (match_value ''close'' h_connection_close h_matching_connection_token c h hp))
   | h_matching_connection_upgrade \<Rightarrow>
       Inr (Inr (match_value ''upgrade'' h_connection_upgrade h_matching_connection_token c h hp))
   | h_matching_connection_token \<Rightarrow>
       Inr (Inr (if ch = CHR '','' then (hp\<lparr>hp_index := 0\<rparr>, h_matching_connection_token_start) else (hp, h)))
   | h_transfer_encoding_chunked \<Rightarrow> Inr (Inr (hp, if ch \<noteq> CHR '' '' then h_general else h))
   | _ \<Rightarrow>
       if h \<in> {h_connection_keep_alive, h_connection_close, h_connection_upgrade}
       then Inr (Inr (if ch = CHR '',''
              then ((connection_flag h hp)\<lparr>hp_index := 0\<rparr>, h_matching_connection_token_start)
              else if ch \<noteq> CHR '' '' then (hp, h_matching_connection_token) else (hp, h)))
       else Inr (Inr (hp\<lparr>hp_state := s_header_value\<rparr>, h_general)))"

text \<open>
  In \<open>h_general\<close> the loop jumps to the first line end among the next \<open>limit\<close> bytes, and
  to the end of the data when there is none: the number of bytes it moves.
\<close>

definition is_eol :: "char \<Rightarrow> bool" where
  "is_eol c \<longleftrightarrow> c = CR \<or> c = LF"

definition skip_general :: "string \<Rightarrow> nat" where
  "skip_general rest =
    (let window = take (min (length rest) HTTP_MAX_HEADER_SIZE) rest;
         n = length (takeWhile (\<lambda>c. \<not> is_eol c) window)
     in if n < length window then n else length rest)"

datatype value_stop = Value_end | Value_CR | Value_LF | Value_error http_errno

function header_value_loop ::
  "string \<Rightarrow> nat \<Rightarrow> header_states \<Rightarrow> http_parser
   \<Rightarrow> (value_stop \<times> nat \<times> header_states \<times> http_parser) result" where
  "header_value_loop [] p h hp = Inr (Value_end, p, h, hp)"
| "header_value_loop (ch # cs) p h hp =
    (if ch = CR then Inr (Value_CR, p, h, hp)
     else if ch = LF then Inr (Value_LF, p, h, hp)
     else if \<not> hp_lenient hp \<and> \<not> IS_HEADER_CHAR ch then Inr (Value_error HPE_INVALID_HEADER_TOKEN, p, hp_header_state hp, hp)
     else if h = h_general
     then (let n = skip_general (ch # cs) in header_value_loop (drop (n - 1) cs) (p + n) h hp)
     else res_bind (header_value_char ch h hp) (\<lambda>r. case r of
            Inl e \<Rightarrow> Inr (Value_error e, p, h, hp)
          | Inr (hp, h) \<Rightarrow> header_value_loop cs (Suc p) h hp))"
  by pat_completeness auto
termination by (relation "measure (\<lambda>(s, p, h, hp). length s)") auto

declare header_value_loop.simps(2) [simp del]

definition step_header_value :: "'s http_parser_settings \<Rightarrow> string \<Rightarrow> 's step" where
  "step_header_value S d x =
    res_bind (header_value_loop (drop (ex_p x) d) (ex_p x) (hp_header_state (ex_parser x)) (ex_parser x))
      (\<lambda>(stop, p, h, hp).
        let start = ex_p x; x = x\<lparr>ex_p := p, ex_parser := hp\<rparr> in
        (case stop of
           Value_error e \<Rightarrow> fail e (set_header_state h x)
         | Value_end \<Rightarrow>
             COUNT_HEADER_SIZE (p - start) (\<lambda>x. next_byte (x\<lparr>ex_p := p - 1\<rparr>)) (set_header_state h x)
         | Value_CR \<Rightarrow>
             CALLBACK_DATA S d M_header_value (COUNT_HEADER_SIZE (p - start) next_byte)
               (set_header_state h (UPDATE_STATE s_header_almost_done x))
         | Value_LF \<Rightarrow>
             COUNT_HEADER_SIZE (p - start)
               (\<lambda>x. CALLBACK_DATA_NOADVANCE S d M_header_value (step_expect_LF s_header_value_lws LF)
                  (set_header_state h x))
               (UPDATE_STATE s_header_almost_done x)))"

end
