(* ===== verification/Parser_Execute.thy ===== *)
theory Parser_Execute
  imports Parser_Headers
begin

text \<open>
  The end of the headers, the body states, the dispatch on the state and the loop of
  \<open>http_parser_execute\<close>.  Definitions come in the reverse order of the jumps: the target
  of a \<open>goto reexecute\<close> is defined before the states that jump to it.
\<close>

section \<open>Bodies\<close>

definition step_message_done :: "'s http_parser_settings \<Rightarrow> 's step" where
  "step_message_done S x =
    callback_message_complete S (ex_p x + 1)
      (\<lambda>x. if hp_upgrade (ex_parser x) then Inr (Return (ex_p x + 1) x) else next_byte x)
      (UPDATE_STATE (NEW_MESSAGE (ex_parser x)) x)"

text \<open>How many bytes of the body the rest of the data holds.\<close>

definition body_to_read :: "string \<Rightarrow> 's execution \<Rightarrow> nat" where
  "body_to_read d x = min (unat (hp_content_length (ex_parser x))) (length d - ex_p x)"

definition consume_body :: "nat \<Rightarrow> 's execution \<Rightarrow> 's execution" where
  "consume_body n x = (update_parser (\<lambda>hp. hp\<lparr>hp_content_length := hp_content_length hp - of_nat n\<rparr>) x)
     \<lparr>ex_p := ex_p x + n - 1\<rparr>"

definition step_body_identity :: "'s http_parser_settings \<Rightarrow> string \<Rightarrow> 's step" where
  "step_body_identity S d x =
    (let to_read = body_to_read d x in
     assert_that (hp_content_length (ex_parser x) \<noteq> 0 \<and> hp_content_length (ex_parser x) \<noteq> ULLONG_MAX)
      (let x = consume_body to_read (MARK M_body x)
       in if hp_content_length (ex_parser x) = 0
          then callback_data S d M_body (ex_p x + 1) (ex_p x) (step_message_done S)
                 (UPDATE_STATE s_message_done x)
          else next_byte x))"

definition step_body_identity_eof :: "string \<Rightarrow> 's step" where
  "step_body_identity_eof d x = next_byte ((MARK M_body x)\<lparr>ex_p := length d - 1\<rparr>)"

definition set_content_length :: "64 word \<Rightarrow> 's execution \<Rightarrow> 's execution" where
  "set_content_length n = update_parser (\<lambda>hp. hp\<lparr>hp_content_length := n\<rparr>)"

definition reset_nread :: "'s execution \<Rightarrow> 's execution" where
  "reset_nread = update_parser (\<lambda>hp. hp\<lparr>hp_nread := 0\<rparr>)"

definition is_chunked :: "'s execution \<Rightarrow> bool" where
  "is_chunked x \<longleftrightarrow> F_CHUNKED \<in> hp_flags (ex_parser x)"

definition step_chunk_size_start :: "char \<Rightarrow> 's step" where
  "step_chunk_size_start ch x = assert_that (hp_nread (ex_parser x) = 1) (assert_that (is_chunked x)
    (if unhex ch = -1 then fail HPE_INVALID_CHUNK_SIZE x
     else next_byte (UPDATE_STATE s_chunk_size (set_content_length (of_int (unhex ch)) x))))"

definition step_chunk_size :: "char \<Rightarrow> 's step" where
  "step_chunk_size ch x = assert_that (is_chunked x)
    (if ch = CR then next_byte (UPDATE_STATE s_chunk_size_almost_done x)
     else if unhex ch = -1
     then (if ch = CHR '';'' \<or> ch = CHR '' '' then next_byte (UPDATE_STATE s_chunk_parameters x)
           else fail HPE_INVALID_CHUNK_SIZE x)
     else if (ULLONG_MAX - 16) div 16 < hp_content_length (ex_parser x) then fail HPE_INVALID_CONTENT_LENGTH x
     else next_byte (set_content_length (hp_content_length (ex_parser x) * 16 + of_int (unhex ch)) x))"

definition step_chunk_parameters :: "char \<Rightarrow> 's step" where
  "step_chunk_parameters ch x = assert_that (is_chunked x)
    (if ch = CR then next_byte (UPDATE_STATE s_chunk_size_almost_done x) else next_byte x)"

definition step_chunk_size_almost_done :: "'s http_parser_settings \<Rightarrow> char \<Rightarrow> 's step" where
  "step_chunk_size_almost_done S ch x = assert_that (is_chunked x)
    (STRICT_CHECK (ch \<noteq> LF)
      (\<lambda>x. let x = reset_nread x;
               x = (if hp_content_length (ex_parser x) = 0
                    then UPDATE_STATE s_header_field_start (add_flag F_TRAILING x)
                    else UPDATE_STATE s_chunk_data x)
           in callback_notify (on_chunk_header S) HPE_CB_chunk_header (ex_p x + 1) next_byte x) x)"

definition step_chunk_data :: "string \<Rightarrow> 's step" where
  "step_chunk_data d x =
    (let to_read = body_to_read d x in
     assert_that (is_chunked x) (assert_that
       (hp_content_length (ex_parser x) \<noteq> 0 \<and> hp_content_length (ex_parser x) \<noteq> ULLONG_MAX)
      (let x = consume_body to_read (MARK M_body x)
       in next_byte (if hp_content_length (ex_parser x) = 0
                     then UPDATE_STATE s_chunk_data_almost_done x else x))))"

definition step_chunk_data_almost_done :: "'s http_parser_settings \<Rightarrow> string \<Rightarrow> char \<Rightarrow> 's step" where
  "step_chunk_data_almost_done S d ch x =
    assert_that (is_chunked x) (assert_that (hp_content_length (ex_parser x) = 0)
      (STRICT_CHECK (ch \<noteq> CR) (\<lambda>x. CALLBACK_DATA S d M_body next_byte (UPDATE_STATE s_chunk_data_done x)) x))"

definition step_chunk_data_done :: "'s http_parser_settings \<Rightarrow> char \<Rightarrow> 's step" where
  "step_chunk_data_done S ch x = assert_that (is_chunked x)
    (STRICT_CHECK (ch \<noteq> LF)
      (\<lambda>x. callback_notify (on_chunk_complete S) HPE_CB_chunk_complete (ex_p x + 1) next_byte
             (UPDATE_STATE s_chunk_size_start (reset_nread x))) x)"

section \<open>The end of the headers\<close>

text \<open>A message without body ends here.\<close>

definition message_without_body :: "'s http_parser_settings \<Rightarrow> 's step \<Rightarrow> 's step" where
  "message_without_body S k x =
    callback_message_complete S (ex_p x + 1) k (UPDATE_STATE (NEW_MESSAGE (ex_parser x)) x)"

definition step_headers_done :: "'s http_parser_settings \<Rightarrow> char \<Rightarrow> 's step" where
  "step_headers_done S ch x = STRICT_CHECK (ch \<noteq> LF) (\<lambda>x.
     let x = reset_nread x;
         hp = ex_parser x;
         hasBody = (F_CHUNKED \<in> hp_flags hp \<or> hp_content_length hp > 0 \<and> hp_content_length hp \<noteq> ULLONG_MAX)
     in if hp_upgrade hp \<and> (hp_method hp = HTTP_CONNECT \<or> F_SKIPBODY \<in> hp_flags hp \<or> \<not> hasBody)
        then message_without_body S (\<lambda>x. Inr (Return (ex_p x + 1) x)) x
        else if F_SKIPBODY \<in> hp_flags hp then message_without_body S next_byte x
        else if F_CHUNKED \<in> hp_flags hp then next_byte (UPDATE_STATE s_chunk_size_start x)
        else if hp_content_length hp = 0 then message_without_body S next_byte x
        else if hp_content_length hp \<noteq> ULLONG_MAX then next_byte (UPDATE_STATE s_body_identity x)
        else if \<not> http_message_needs_eof hp then message_without_body S next_byte x
        else next_byte (UPDATE_STATE s_body_identity_eof x)) x"

definition set_upgrade :: "'s execution \<Rightarrow> 's execution" where
  "set_upgrade = update_parser (\<lambda>hp. hp\<lparr>hp_upgrade :=
     (F_UPGRADE \<in> hp_flags hp \<and> F_CONNECTION_UPGRADE \<in> hp_flags hp \<or> hp_method hp = HTTP_CONNECT)\<rparr>)"

definition step_headers_almost_done :: "'s http_parser_settings \<Rightarrow> char \<Rightarrow> 's step" where
  "step_headers_almost_done S ch x = STRICT_CHECK (ch \<noteq> LF) (\<lambda>x.
     let flags = hp_flags (ex_parser x) in
     if F_TRAILING \<in> flags
     then callback_notify (on_chunk_complete S) HPE_CB_chunk_complete (ex_p x) (step_message_done S)
            (UPDATE_STATE s_message_done x)
     else if F_CHUNKED \<in> flags \<and> F_CONTENTLENGTH \<in> flags then fail HPE_UNEXPECTED_CONTENT_LENGTH x
     else (let x = set_upgrade (UPDATE_STATE s_headers_done x) in
       res_bind (on_headers_complete S (ex_parser x) (ex_user x)) (\<lambda>(r, s).
         let x = x\<lparr>ex_user := s\<rparr> in
         if r = 0 then (if hp_errno (ex_parser x) \<noteq> HPE_OK then Inr (Return (ex_p x) x)
                        else step_headers_done S ch x)
         else if r = 1 then (let x = add_flag F_SKIPBODY x in
                if hp_errno (ex_parser x) \<noteq> HPE_OK then Inr (Return (ex_p x) x)
                else step_headers_done S ch x)
         else Inr (Return (ex_p x) (SET_ERRNO HPE_CB_headers_complete x))))) x"

text \<open>The first letter of a field name selects the name to match.\<close>

definition first_header_state :: "char \<Rightarrow> header_states" where
  "first_header_state c =
    (if c = CHR ''c'' then h_C
     else if c = CHR ''p'' then h_matching_proxy_connection
     else if c = CHR ''t'' then h_matching_transfer_encoding
     else if c = CHR ''u'' then h_matching_upgrade
     else h_general)"

definition step_header_field_start :: "'s http_parser_settings \<Rightarrow> char \<Rightarrow> 's step" where
  "step_header_field_start S ch x =
    (if ch = CR then next_byte (UPDATE_STATE s_headers_almost_done x)
     else if ch = LF then step_headers_almost_done S ch (UPDATE_STATE s_headers_almost_done x)
     else if tokens ch = NUL then fail HPE_INVALID_HEADER_TOKEN x
     else next_byte (set_header_state (first_header_state (tokens ch))
            (UPDATE_STATE s_header_field (set_index 0 (MARK M_header_field x)))))"

text \<open>A finished header value sets its flag.\<close>

definition finish_header :: "http_parser \<Rightarrow> http_parser" where
  "finish_header hp =
    (if hp_header_state hp = h_transfer_encoding_chunked
     then hp\<lparr>hp_flags := insert F_CHUNKED (hp_flags hp)\<rparr>
     else connection_flag (hp_header_state hp) hp)"

definition step_header_value_lws :: "'s http_parser_settings \<Rightarrow> char \<Rightarrow> 's step" where
  "step_header_value_lws S ch x =
    (if ch = CHR '' '' \<or> ch = HT then step_header_value_start ch (UPDATE_STATE s_header_value_start x)
     else step_header_field_start S ch (UPDATE_STATE s_header_field_start (update_parser finish_header x)))"

definition step_header_value_discard_lws :: "'s http_parser_settings \<Rightarrow> string \<Rightarrow> char \<Rightarrow> 's step" where
  "step_header_value_discard_lws S d ch x =
    (if ch = CHR '' '' \<or> ch = HT then next_byte (UPDATE_STATE s_header_value_discard_ws x)
     else CALLBACK_DATA_NOADVANCE S d M_header_value (step_header_field_start S ch)
            (UPDATE_STATE s_header_field_start (MARK M_header_value (update_parser finish_header x))))"

section \<open>The loop\<close>

definition step :: "'s http_parser_settings \<Rightarrow> string \<Rightarrow> char \<Rightarrow> 's step" where
  "step S d ch x = (case hp_state (ex_parser x) of
     s_dead \<Rightarrow> step_dead ch x
   | s_start_req_or_res \<Rightarrow> step_start_req_or_res S ch x
   | s_res_or_resp_H \<Rightarrow> step_res_or_resp_H ch x
   | s_start_res \<Rightarrow> step_start_res S ch x
   | s_res_H \<Rightarrow> step_res_constant CHR ''T'' s_res_HT ch x
   | s_res_HT \<Rightarrow> step_res_constant CHR ''T'' s_res_HTT ch x
   | s_res_HTT \<Rightarrow> step_res_constant CHR ''P'' s_res_HTTP ch x
   | s_res_HTTP \<Rightarrow> step_res_constant CHR ''/'' s_res_first_http_major ch x
   | s_res_first_http_major \<Rightarrow> step_res_first_http_major ch x
   | s_res_http_major \<Rightarrow> step_http_major s_res_first_http_minor ch x
   | s_res_first_http_minor \<Rightarrow> step_first_http_minor s_res_http_minor ch x
   | s_res_http_minor \<Rightarrow> step_res_http_minor ch x
   | s_res_first_status_code \<Rightarrow> step_res_first_status_code ch x
   | s_res_status_code \<Rightarrow> step_res_status_code ch x
   | s_res_status_start \<Rightarrow> step_res_status_start ch x
   | s_res_status \<Rightarrow> step_res_status S d ch x
   | s_res_line_almost_done \<Rightarrow> step_res_constant LF s_header_field_start ch x
   | s_start_req \<Rightarrow> step_start_req S ch x
   | s_req_method \<Rightarrow> step_req_method ch x
   | s_req_spaces_before_url \<Rightarrow> step_req_spaces_before_url ch x
   | s_req_schema \<Rightarrow> step_req_schema ch x
   | s_req_schema_slash \<Rightarrow> step_req_schema ch x
   | s_req_schema_slash_slash \<Rightarrow> step_req_schema ch x
   | s_req_server_start \<Rightarrow> step_req_schema ch x
   | s_req_server \<Rightarrow> step_req_url S d ch x
   | s_req_server_with_at \<Rightarrow> step_req_url S d ch x
   | s_req_path \<Rightarrow> step_req_url S d ch x
   | s_req_query_string_start \<Rightarrow> step_req_url S d ch x
   | s_req_query_string \<Rightarrow> step_req_url S d ch x
   | s_req_fragment_start \<Rightarrow> step_req_url S d ch x
   | s_req_fragment \<Rightarrow> step_req_url S d ch x
   | s_req_http_start \<Rightarrow> step_req_http_start ch x
   | s_req_http_H \<Rightarrow> step_res_constant CHR ''T'' s_req_http_HT ch x
   | s_req_http_HT \<Rightarrow> step_res_constant CHR ''T'' s_req_http_HTT ch x
   | s_req_http_HTT \<Rightarrow> step_res_constant CHR ''P'' s_req_http_HTTP ch x
   | s_req_http_HTTP \<Rightarrow> step_res_constant CHR ''/'' s_req_first_http_major ch x
   | s_req_first_http_major \<Rightarrow> step_req_first_http_major ch x
   | s_req_http_major \<Rightarrow> step_http_major s_req_first_http_minor ch x
   | s_req_first_http_minor \<Rightarrow> step_first_http_minor s_req_http_minor ch x
   | s_req_http_minor \<Rightarrow> step_req_http_minor ch x
   | s_req_line_almost_done \<Rightarrow> step_expect_LF s_header_field_start ch x
   | s_header_field_start \<Rightarrow> step_header_field_start S ch x
   | s_header_field \<Rightarrow> step_header_field S d x
   | s_header_value_discard_ws \<Rightarrow> step_header_value_discard_ws ch x
   | s_header_value_discard_ws_almost_done \<Rightarrow> step_res_constant LF s_header_value_discard_lws ch x
   | s_header_value_discard_lws \<Rightarrow> step_header_value_discard_lws S d ch x
   | s_header_value_start \<Rightarrow> step_header_value_start ch x
   | s_header_value \<Rightarrow> step_header_value S d x
   | s_header_value_lws \<Rightarrow> step_header_value_lws S ch x
   | s_header_almost_done \<Rightarrow> step_expect_LF s_header_value_lws ch x
   | s_chunk_size_start \<Rightarrow> step_chunk_size_start ch x
   | s_chunk_size \<Rightarrow> step_chunk_size ch x
   | s_chunk_parameters \<Rightarrow> step_chunk_parameters ch x
   | s_chunk_size_almost_done \<Rightarrow> step_chunk_size_almost_done S ch x
   | s_headers_almost_done \<Rightarrow> step_headers_almost_done S ch x
   | s_headers_done \<Rightarrow> step_headers_done S ch x
   | s_chunk_data \<Rightarrow> step_chunk_data d x
   | s_chunk_data_almost_done \<Rightarrow> step_chunk_data_almost_done S d ch x
   | s_chunk_data_done \<Rightarrow> step_chunk_data_done S ch x
   | s_body_identity \<Rightarrow> step_body_identity S d x
   | s_body_identity_eof \<Rightarrow> step_body_identity_eof d x
   | s_message_done \<Rightarrow> step_message_done S x)"

text \<open>One turn of the loop: the byte is counted while in the headers, then the state is run.\<close>

definition turn :: "'s http_parser_settings \<Rightarrow> string \<Rightarrow> 's step" where
  "turn S d x =
    (let ch = d ! ex_p x in
     if PARSING_HEADER (hp_state (ex_parser x)) then COUNT_HEADER_SIZE 1 (step S d ch) x else step S d ch x)"

text \<open>The callbacks for the marks that are left when the data ends.\<close>

definition marks_set :: "'s execution \<Rightarrow> nat" where
  "marks_set x = length (filter (\<lambda>m. ex_mark x m \<noteq> None)
     [M_header_field, M_header_value, M_url, M_body, M_status])"

definition finish_data :: "'s http_parser_settings \<Rightarrow> string \<Rightarrow> 's step" where
  "finish_data S d x = assert_that (marks_set x \<le> 1)
    (CALLBACK_DATA_NOADVANCE S d M_header_field
      (CALLBACK_DATA_NOADVANCE S d M_header_value
        (CALLBACK_DATA_NOADVANCE S d M_url
          (CALLBACK_DATA_NOADVANCE S d M_body
            (CALLBACK_DATA_NOADVANCE S d M_status (\<lambda>x. Inr (Return (length d) x)))))) x)"

text \<open>
  The loop never goes back (\<open>safe_turn\<close> in \<open>Parser_Safety\<close>), so as many turns as
  there are bytes suffice: the turns left are the recursion's argument, and the loop ends when
  the position reaches the end of the data.
\<close>

fun execute_loop :: "nat \<Rightarrow> 's http_parser_settings \<Rightarrow> string \<Rightarrow> 's step" where
  "execute_loop n S d x =
    (if ex_p x = length d then finish_data S d x
     else case n of
        0 \<Rightarrow> Inl Out_of_turns
      | Suc m \<Rightarrow> res_bind (turn S d x) (\<lambda>c. case c of
            Return r x \<Rightarrow> Inr (Return r x)
          | Next x \<Rightarrow> execute_loop m S d (x\<lparr>ex_p := ex_p x + 1\<rparr>)))"

declare execute_loop.simps [simp del]

text \<open>The marks that are set when the data starts in the middle of a name, a value, a URL or a status.\<close>

definition initial_mark :: "parser_state \<Rightarrow> mark \<Rightarrow> nat option" where
  "initial_mark s m = (if
       (m = M_header_field \<and> s = s_header_field)
     \<or> (m = M_header_value \<and> s = s_header_value)
     \<or> (m = M_url \<and> s \<in> {s_req_path, s_req_schema, s_req_schema_slash, s_req_schema_slash_slash,
          s_req_server_start, s_req_server, s_req_server_with_at, s_req_query_string_start,
          s_req_query_string, s_req_fragment_start, s_req_fragment})
     \<or> (m = M_status \<and> s = s_res_status)
     then Some 0 else None)"

definition start_execution :: "http_parser \<Rightarrow> 's \<Rightarrow> 's execution" where
  "start_execution hp s = \<lparr>ex_parser = hp, ex_p = 0, ex_mark = initial_mark (hp_state hp), ex_user = s\<rparr>"

text \<open>No data means the end of the stream.\<close>

definition execute_eof :: "'s http_parser_settings \<Rightarrow> 's step" where
  "execute_eof S x = (let s = hp_state (ex_parser x) in
     if s = s_body_identity_eof then callback_message_complete S 0 (\<lambda>x. Inr (Return 0 x)) x
     else if s \<in> {s_dead, s_start_req_or_res, s_start_res, s_start_req} then Inr (Return 0 x)
     else Inr (Return 1 (SET_ERRNO HPE_INVALID_EOF_STATE x)))"

definition http_parser_execute ::
  "'s http_parser_settings \<Rightarrow> string \<Rightarrow> http_parser \<Rightarrow> 's \<Rightarrow> (nat \<times> http_parser \<times> 's) result" where
  "http_parser_execute S d hp s =
    (if hp_errno hp \<noteq> HPE_OK then Inr (0, hp, s)
     else res_bind
       (if d = [] then execute_eof S (start_execution hp s)
        else execute_loop (length d) S d (start_execution hp s))
       (\<lambda>c. case c of
          Return n x \<Rightarrow> Inr (n, ex_parser x, ex_user x)
        | Next x \<Rightarrow> Inl Out_of_turns))"

end
