(* ===== verification/Parser_Safety.thy ===== *)
theory Parser_Safety
  imports Parser_Execute
begin

text \<open>
  What holds of \<open>http_parser_execute\<close> on every input, however it is cut into pieces: none of
  its assertions fails, the position stays inside the data and moves forward, the 7-bit matcher
  index never wraps, no method name is read past its end, and at most one mark is set when the
  data ends.  The proofs go state by state with an outcome predicate (\<open>holds\<close>) whose rules
  follow the macros.
\<close>

section \<open>Outcomes\<close>

definition holds ::
  "(fault \<Rightarrow> bool) \<Rightarrow> ('s execution \<Rightarrow> bool) \<Rightarrow> (nat \<Rightarrow> 's execution \<Rightarrow> bool) \<Rightarrow> 's control result \<Rightarrow> bool" where
  "holds F N R r = (case r of Inl f \<Rightarrow> F f | Inr (Next x) \<Rightarrow> N x | Inr (Return n x) \<Rightarrow> R n x)"

lemma holds_simps [simp]:
  "holds F N R (Inl f) = F f" "holds F N R (Inr (Next x)) = N x" "holds F N R (Inr (Return n x)) = R n x"
  by (simp_all add: holds_def)

lemma holds_ctl [simp]:
  "holds F N R (next_byte x) = N x"
  "holds F N R (fail e x) = R (ex_p x) (SET_ERRNO e x)"
  "holds F N R (STRICT_CHECK c k x) = (if c then R (ex_p x) (SET_ERRNO HPE_STRICT x) else holds F N R (k x))"
  by (simp_all add: next_byte_def fail_def STRICT_CHECK_def)

text \<open>
  What the callbacks may do: fail only in \<open>F\<close>, keep the invariant \<open>U\<close> of the user's
  state, and, at the end of a message, leave the parser as it is or start it afresh.
\<close>

definition starting :: "http_parser \<Rightarrow> bool" where
  "starting hp \<longleftrightarrow> hp_state hp \<in> {s_dead, s_start_req_or_res, s_start_req, s_start_res} \<and> hp_index hp \<le> 16"

definition callback_ok :: "(fault \<Rightarrow> bool) \<Rightarrow> ('s \<Rightarrow> bool) \<Rightarrow> (int \<times> 's) result \<Rightarrow> bool" where
  "callback_ok F U r = (case r of Inl f \<Rightarrow> F f | Inr (i, s) \<Rightarrow> U s)"

definition settings_ok :: "(fault \<Rightarrow> bool) \<Rightarrow> ('s \<Rightarrow> bool) \<Rightarrow> 's http_parser_settings \<Rightarrow> bool" where
  "settings_ok F U S \<longleftrightarrow>
     (\<forall>hp s. U s \<longrightarrow> callback_ok F U (on_message_begin S hp s))
   \<and> (\<forall>m hp a n s. U s \<longrightarrow> callback_ok F U (on_data S m hp a n s))
   \<and> (\<forall>hp s. U s \<longrightarrow> callback_ok F U (on_headers_complete S hp s))
   \<and> (\<forall>hp s. U s \<longrightarrow> callback_ok F U (on_chunk_header S hp s))
   \<and> (\<forall>hp s. U s \<longrightarrow> callback_ok F U (on_chunk_complete S hp s))
   \<and> (\<forall>hp s. U s \<longrightarrow> (case on_message_complete S hp s of
        Inl f \<Rightarrow> F f | Inr (r, hp', s') \<Rightarrow> U s' \<and> (hp' = hp \<or> starting hp')))"

section \<open>The invariant\<close>

text \<open>How far the matcher index may be in a header state.\<close>

fun index_bound :: "header_states \<Rightarrow> nat" where
  "index_bound h_C = 0"
| "index_bound h_CO = 1"
| "index_bound h_CON = 2"
| "index_bound h_matching_connection = 8"
| "index_bound h_matching_proxy_connection = 14"
| "index_bound h_matching_content_length = 12"
| "index_bound h_matching_transfer_encoding = 15"
| "index_bound h_matching_upgrade = 5"
| "index_bound h_matching_transfer_encoding_chunked = 5"
| "index_bound h_matching_connection_token_start = 0"
| "index_bound h_matching_connection_keep_alive = 8"
| "index_bound h_matching_connection_close = 3"
| "index_bound h_matching_connection_upgrade = 5"
| "index_bound _ = 16"

definition field_states :: "header_states set" where
  "field_states = {h_general, h_C, h_CO, h_CON, h_matching_connection, h_matching_proxy_connection,
     h_matching_content_length, h_matching_transfer_encoding, h_matching_upgrade, h_connection,
     h_content_length, h_transfer_encoding, h_upgrade}"

definition chunk_states :: "parser_state set" where
  "chunk_states = {s_chunk_size_start, s_chunk_size, s_chunk_parameters, s_chunk_size_almost_done,
     s_chunk_data, s_chunk_data_almost_done, s_chunk_data_done}"

definition index_ok :: "http_parser \<Rightarrow> bool" where
  "index_ok hp \<longleftrightarrow>
    (if hp_state hp = s_req_method then hp_index hp \<le> length (http_method_str (hp_method hp))
     else if hp_state hp = s_header_field \<or> hp_state hp = s_header_value
     then hp_index hp \<le> index_bound (hp_header_state hp)
     else hp_index hp \<le> 16)"

definition parser_ok :: "32 word \<Rightarrow> http_parser \<Rightarrow> bool" where
  "parser_ok n hp \<longleftrightarrow> index_ok hp
   \<and> (hp_state hp = s_header_field \<longrightarrow> hp_header_state hp \<in> field_states)
   \<and> (hp_state hp = s_header_value \<longrightarrow> hp_header_state hp \<notin> {h_connection, h_transfer_encoding})
   \<and> (hp_state hp \<in> chunk_states \<longrightarrow> F_CHUNKED \<in> hp_flags hp)
   \<and> (hp_state hp = s_chunk_size_start \<longrightarrow> hp_nread hp = n)
   \<and> (hp_state hp \<in> {s_chunk_size, s_chunk_parameters, s_chunk_size_almost_done, s_chunk_data, s_body_identity}
        \<longrightarrow> hp_content_length hp \<noteq> ULLONG_MAX)
   \<and> (hp_state hp \<in> {s_chunk_data, s_body_identity} \<longrightarrow> hp_content_length hp \<noteq> 0)
   \<and> (hp_state hp = s_chunk_data_almost_done \<longrightarrow> hp_content_length hp = 0)"

text \<open>A mark is set only in the states that read what it marks.\<close>

definition mark_of :: "parser_state \<Rightarrow> mark option" where
  "mark_of s =
    (if s = s_header_field then Some M_header_field
     else if s = s_header_value then Some M_header_value
     else if s \<in> url_states then Some M_url
     else if s \<in> {s_body_identity, s_body_identity_eof, s_chunk_data, s_chunk_data_almost_done} then Some M_body
     else if s = s_res_status then Some M_status
     else None)"

definition marks_ok :: "'s execution \<Rightarrow> bool" where
  "marks_ok x \<longleftrightarrow> (\<forall>m. mark_of (hp_state (ex_parser x)) \<noteq> Some m \<longrightarrow> ex_mark x m = None)"

definition inv :: "('s \<Rightarrow> bool) \<Rightarrow> 32 word \<Rightarrow> string \<Rightarrow> nat \<Rightarrow> 's execution \<Rightarrow> bool" where
  "inv U n d p x \<longleftrightarrow> p \<le> ex_p x \<and> ex_p x < length d \<and> hp_errno (ex_parser x) = HPE_OK
     \<and> parser_ok n (ex_parser x) \<and> marks_ok x \<and> U (ex_user x)"

text \<open>A call that meets no error makes progress.\<close>

definition returned :: "('s \<Rightarrow> bool) \<Rightarrow> string \<Rightarrow> nat \<Rightarrow> 's execution \<Rightarrow> bool" where
  "returned U d n x \<longleftrightarrow> n \<le> length d \<and> U (ex_user x)
     \<and> (hp_errno (ex_parser x) = HPE_OK \<longrightarrow> parser_ok 0 (ex_parser x) \<and> 1 \<le> n)"

abbreviation safe :: "(fault \<Rightarrow> bool) \<Rightarrow> ('s \<Rightarrow> bool) \<Rightarrow> string \<Rightarrow> nat \<Rightarrow> 's control result \<Rightarrow> bool" where
  "safe F U d p r \<equiv> holds F (inv U 0 d p) (returned U d) r"

lemma index_bound_le: "index_bound h \<le> 16"
  by (cases h) simp_all

lemmas parser_updates = update_parser_def SET_ERRNO_def UPDATE_STATE_def add_flag_def set_index_def
  incr_index_def set_major_def set_minor_def set_status_code_def set_parsed_method_def
  clear_message_def set_header_state_def set_content_length_def reset_nread_def set_upgrade_def

lemma returned_failed [simp]:
  "hp_errno (ex_parser x) \<noteq> HPE_OK \<Longrightarrow> returned U d n x \<longleftrightarrow> n \<le> length d \<and> U (ex_user x)"
  by (simp add: returned_def)

lemma returned_error [simp]:
  "e \<noteq> HPE_OK \<Longrightarrow> returned U d n (SET_ERRNO e x) \<longleftrightarrow> n \<le> length d \<and> U (ex_user x)"
  by (simp add: parser_updates)

lemma mark_errno_not_OK [simp]: "mark_errno m \<noteq> HPE_OK"
  by (cases m) simp_all

section \<open>Rules for the macros\<close>

lemma safe_notify:
  assumes "hp_errno (ex_parser x) = HPE_OK" "e \<noteq> HPE_OK" "er \<le> length d"
    and "callback_ok F U (cb (ex_parser x) (ex_user x))"
    and "\<And>s. U s \<Longrightarrow> safe F U d p (k (x\<lparr>ex_user := s\<rparr>))"
  shows "safe F U d p (callback_notify cb e er k x)"
  using assms by (cases "cb (ex_parser x) (ex_user x)") (auto simp: callback_notify_def callback_ok_def Let_def)

lemma safe_data:
  assumes "settings_ok F U S" "hp_errno (ex_parser x) = HPE_OK" "er \<le> length d" "U (ex_user x)"
    and "\<And>s. U s \<Longrightarrow> safe F U d p (k (x\<lparr>ex_user := s, ex_mark := (ex_mark x)(m := None)\<rparr>))"
  shows "safe F U d p (callback_data S d m at_end er k x)"
proof (cases "ex_mark x m")
  case None
  then have "x = x\<lparr>ex_user := ex_user x, ex_mark := (ex_mark x)(m := None)\<rparr>"
    by (simp add: fun_upd_idem)
  then have "safe F U d p (k x)" using assms(4,5) by metis
  then show ?thesis using None assms(2) by (simp add: callback_data_def)
next
  case (Some a)
  have "callback_ok F U (on_data S m (ex_parser x) (drop a d) (at_end - a) (ex_user x))"
    using assms(1,4) by (simp add: settings_ok_def)
  then show ?thesis
    using assms(2,3,5) Some by (cases "on_data S m (ex_parser x) (drop a d) (at_end - a) (ex_user x)")
      (auto simp: callback_data_def callback_ok_def Let_def)
qed

lemma safe_message_complete:
  assumes "settings_ok F U S" "hp_errno (ex_parser x) = HPE_OK" "er \<le> length d" "starting (ex_parser x)" "U (ex_user x)"
    and "\<And>hp s. starting hp \<Longrightarrow> hp_errno hp = HPE_OK \<Longrightarrow> U s \<Longrightarrow> safe F U d p (k (x\<lparr>ex_parser := hp, ex_user := s\<rparr>))"
  shows "safe F U d p (callback_message_complete S er k x)"
proof (cases "on_message_complete S (ex_parser x) (ex_user x)")
  case (Inl f)
  then have "F f" using assms(1,5) unfolding settings_ok_def by (metis (no_types, lifting) old.sum.simps(5))
  then show ?thesis using Inl assms(2) by (simp add: callback_message_complete_def)
next
  case (Inr b)
  obtain r hp s where b: "b = (r, hp, s)" by (cases b)
  have "case on_message_complete S (ex_parser x) (ex_user x) of
      Inl f \<Rightarrow> F f | Inr (r, hp', s') \<Rightarrow> U s' \<and> (hp' = ex_parser x \<or> starting hp')"
    using assms(1,5) by (simp add: settings_ok_def)
  then have "starting hp" "U s" using assms(4) Inr b by auto
  then show ?thesis using assms(2,3,6) Inr b
    by (auto simp: callback_message_complete_def Let_def parser_updates)
qed

lemma safe_count:
  assumes "ex_p x \<le> length d" "U (ex_user x)"
    and "\<And>w. safe F U d p (k (update_parser (\<lambda>hp. hp\<lparr>hp_nread := w\<rparr>) x))"
  shows "safe F U d p (COUNT_HEADER_SIZE v k x)"
  using assms(1,2) assms(3) [of "hp_nread (ex_parser x) + of_nat v"]
  by (simp add: COUNT_HEADER_SIZE_def Let_def update_parser_def)


lemma settings_okD:
  assumes "settings_ok F U S" "U s"
  shows "callback_ok F U (on_message_begin S hp s)" "callback_ok F U (on_headers_complete S hp s)"
    "callback_ok F U (on_chunk_header S hp s)" "callback_ok F U (on_chunk_complete S hp s)"
  using assms by (simp_all add: settings_ok_def)

section \<open>The states of the start line\<close>

lemmas inv_defs = inv_def parser_ok_def index_ok_def marks_ok_def mark_of_def url_states_def
  chunk_states_def MARK_def Let_def

lemma safe_start_req:
  assumes "settings_ok F U S" "inv U n d p x" "hp_state (ex_parser x) = s_start_req"
  shows "safe F U d p (step_start_req S ch x)"
proof (cases "method_start ch")
  case None
  then show ?thesis using assms(2,3)
    by (auto simp: step_start_req_def inv_defs parser_updates)
next
  case (Some m)
  then have "1 \<le> length (http_method_str m)" using method_start_Some [OF Some] by (cases "http_method_str m") auto
  then show ?thesis using assms(2,3) Some settings_okD [OF assms(1)]
    by (auto intro!: safe_notify simp: step_start_req_def inv_defs parser_updates)
qed

lemma safe_start_req_or_res:
  assumes "settings_ok F U S" "inv U n d p x" "hp_state (ex_parser x) = s_start_req_or_res"
  shows "safe F U d p (step_start_req_or_res S ch x)"
  using assms(2,3) settings_okD [OF assms(1)]
  by (auto intro!: safe_notify safe_start_req [OF assms(1), where n = n]
      simp: step_start_req_or_res_def inv_defs parser_updates)

lemma safe_res_http_major:
  assumes "inv U n d p x" "hp_state (ex_parser x) = s_res_http_major"
  shows "safe F U d p (step_http_major s_res_first_http_minor ch x)"
  using assms by (auto simp: step_http_major_def inv_defs parser_updates)

lemma safe_req_http_major:
  assumes "inv U n d p x" "hp_state (ex_parser x) = s_req_http_major"
  shows "safe F U d p (step_http_major s_req_first_http_minor ch x)"
  using assms by (auto simp: step_http_major_def inv_defs parser_updates)

lemma safe_res_first_http_minor:
  assumes "inv U n d p x" "hp_state (ex_parser x) = s_res_first_http_minor"
  shows "safe F U d p (step_first_http_minor s_res_http_minor ch x)"
  using assms by (auto simp: step_first_http_minor_def inv_defs parser_updates)

lemma safe_req_first_http_minor:
  assumes "inv U n d p x" "hp_state (ex_parser x) = s_req_first_http_minor"
  shows "safe F U d p (step_first_http_minor s_req_http_minor ch x)"
  using assms by (auto simp: step_first_http_minor_def inv_defs parser_updates)

lemma safe_dead:
  assumes "settings_ok F U S" "inv U n d p x" "hp_state (ex_parser x) = s_dead"
  shows "safe F U d p (step_dead ch x)"
  using assms(2,3) settings_okD [OF assms(1)]
  by (auto intro!: safe_notify safe_data [OF assms(1)]
      simp: step_dead_def CALLBACK_DATA_def inv_defs parser_updates)

lemma safe_res_or_resp_H:
  assumes "settings_ok F U S" "inv U n d p x" "hp_state (ex_parser x) = s_res_or_resp_H"
  shows "safe F U d p (step_res_or_resp_H ch x)"
  using assms(2,3) settings_okD [OF assms(1)]
  by (auto intro!: safe_notify safe_data [OF assms(1)]
      simp: step_res_or_resp_H_def CALLBACK_DATA_def inv_defs parser_updates)

lemma safe_start_res:
  assumes "settings_ok F U S" "inv U n d p x" "hp_state (ex_parser x) = s_start_res"
  shows "safe F U d p (step_start_res S ch x)"
  using assms(2,3) settings_okD [OF assms(1)]
  by (auto intro!: safe_notify safe_data [OF assms(1)]
      simp: step_start_res_def CALLBACK_DATA_def inv_defs parser_updates)

lemma safe_res_first_http_major:
  assumes "settings_ok F U S" "inv U n d p x" "hp_state (ex_parser x) = s_res_first_http_major"
  shows "safe F U d p (step_res_first_http_major ch x)"
  using assms(2,3) settings_okD [OF assms(1)]
  by (auto intro!: safe_notify safe_data [OF assms(1)]
      simp: step_res_first_http_major_def CALLBACK_DATA_def inv_defs parser_updates)

lemma safe_res_http_minor:
  assumes "settings_ok F U S" "inv U n d p x" "hp_state (ex_parser x) = s_res_http_minor"
  shows "safe F U d p (step_res_http_minor ch x)"
  using assms(2,3) settings_okD [OF assms(1)]
  by (auto intro!: safe_notify safe_data [OF assms(1)]
      simp: step_res_http_minor_def minor_digit_def CALLBACK_DATA_def inv_defs parser_updates)

lemma safe_res_first_status_code:
  assumes "settings_ok F U S" "inv U n d p x" "hp_state (ex_parser x) = s_res_first_status_code"
  shows "safe F U d p (step_res_first_status_code ch x)"
  using assms(2,3) settings_okD [OF assms(1)]
  by (auto intro!: safe_notify safe_data [OF assms(1)]
      simp: step_res_first_status_code_def CALLBACK_DATA_def inv_defs parser_updates)

lemma safe_res_status_code:
  assumes "settings_ok F U S" "inv U n d p x" "hp_state (ex_parser x) = s_res_status_code"
  shows "safe F U d p (step_res_status_code ch x)"
  using assms(2,3) settings_okD [OF assms(1)]
  by (auto intro!: safe_notify safe_data [OF assms(1)]
      simp: step_res_status_code_def CALLBACK_DATA_def inv_defs parser_updates)

lemma safe_res_status_start:
  assumes "settings_ok F U S" "inv U n d p x" "hp_state (ex_parser x) = s_res_status_start"
  shows "safe F U d p (step_res_status_start ch x)"
  using assms(2,3) settings_okD [OF assms(1)]
  by (auto intro!: safe_notify safe_data [OF assms(1)]
      simp: step_res_status_start_def CALLBACK_DATA_def inv_defs parser_updates)

lemma safe_res_status:
  assumes "settings_ok F U S" "inv U n d p x" "hp_state (ex_parser x) = s_res_status"
  shows "safe F U d p (step_res_status S d ch x)"
  using assms(2,3) settings_okD [OF assms(1)]
  by (auto intro!: safe_notify safe_data [OF assms(1)]
      simp: step_res_status_def CALLBACK_DATA_def inv_defs parser_updates)

lemma safe_req_http_start:
  assumes "settings_ok F U S" "inv U n d p x" "hp_state (ex_parser x) = s_req_http_start"
  shows "safe F U d p (step_req_http_start ch x)"
  using assms(2,3) settings_okD [OF assms(1)]
  by (auto intro!: safe_notify safe_data [OF assms(1)]
      simp: step_req_http_start_def CALLBACK_DATA_def inv_defs parser_updates)

lemma safe_req_first_http_major:
  assumes "settings_ok F U S" "inv U n d p x" "hp_state (ex_parser x) = s_req_first_http_major"
  shows "safe F U d p (step_req_first_http_major ch x)"
  using assms(2,3) settings_okD [OF assms(1)]
  by (auto intro!: safe_notify safe_data [OF assms(1)]
      simp: step_req_first_http_major_def CALLBACK_DATA_def inv_defs parser_updates)

lemma safe_req_http_minor:
  assumes "settings_ok F U S" "inv U n d p x" "hp_state (ex_parser x) = s_req_http_minor"
  shows "safe F U d p (step_req_http_minor ch x)"
  using assms(2,3) settings_okD [OF assms(1)]
  by (auto intro!: safe_notify safe_data [OF assms(1)]
      simp: step_req_http_minor_def minor_digit_def CALLBACK_DATA_def inv_defs parser_updates)

text \<open>The method: the index never passes the end of the name being matched.\<close>

lemma safe_req_method:
  assumes "inv U n d p x" "hp_state (ex_parser x) = s_req_method"
  shows "safe F U d p (step_req_method ch x)"
proof -
  define m where "m = hp_method (ex_parser x)"
  define i where "i = hp_index (ex_parser x)"
  have i: "i \<le> length (http_method_str m)" using assms by (simp add: inv_defs m_def i_def)
  have go: "safe F U d p (next_byte (incr_index (set_parsed_method m' x)))"
    if "i < length (http_method_str m')" for m'
    using that assms by (simp add: inv_defs parser_updates i_def)
  have same: "x = set_parsed_method m x" by (simp add: m_def parser_updates)
  have at: "i < length (http_method_str m)" if "ch = c_at (http_method_str m) i" "ch \<noteq> NUL"
    using that by (auto simp: c_at_def split: if_splits)
  have spaces: "safe F U d p (next_byte (incr_index (UPDATE_STATE s_req_spaces_before_url x)))"
    using assms i length_http_method_str [of m] by (simp add: inv_defs parser_updates i_def)
  have failed: "safe F U d p (fail HPE_INVALID_METHOD x)" using assms by (simp add: inv_def)
  have other: "i < length (http_method_str m')" if "method_switch m i ch = Some m'" for m'
    using method_switch_Some [OF that] by simp
  show ?thesis
    using go [of m] at go other spaces failed same
    unfolding step_req_method_def Let_def m_def [symmetric] i_def [symmetric]
    by (auto split: option.splits simp flip: same)
qed

lemma safe_url_char:
  assumes "p \<le> ex_p x" "ex_p x < length d" "hp_errno (ex_parser x) = HPE_OK" "hp_index (ex_parser x) \<le> 16"
    and "\<And>m. m \<noteq> M_url \<Longrightarrow> ex_mark x m = None" and "U (ex_user x)"
  shows "safe F U d p (url_char ch x)"
proof (cases "parse_url_char (hp_state (ex_parser x)) ch = s_dead")
  case True
  then show ?thesis using assms by (simp add: url_char_def Let_def parser_updates)
next
  case False
  then have "parse_url_char (hp_state (ex_parser x)) ch \<in> url_states"
    using parse_url_char_range by blast
  moreover have "inv U 0 d p (UPDATE_STATE s x)" if "s \<in> url_states" for s
    using that assms by (auto simp: url_states_def inv_def parser_ok_def index_ok_def marks_ok_def
        mark_of_def chunk_states_def parser_updates)
  ultimately show ?thesis using False by (simp add: url_char_def Let_def) (simp add: parser_updates)
qed

lemma safe_req_spaces_before_url:
  assumes "inv U n d p x" "hp_state (ex_parser x) = s_req_spaces_before_url"
  shows "safe F U d p (step_req_spaces_before_url ch x)"
  using assms by (auto intro!: safe_url_char simp: step_req_spaces_before_url_def inv_defs parser_updates)

lemma url_state_facts:
  assumes "inv U n d p x" "hp_state (ex_parser x) \<in> url_states"
  shows "p \<le> ex_p x" "ex_p x < length d" "hp_errno (ex_parser x) = HPE_OK" "hp_index (ex_parser x) \<le> 16"
    "m \<noteq> M_url \<Longrightarrow> ex_mark x m = None" "U (ex_user x)"
proof -
  have "mark_of s = Some M_url \<and> s \<notin> {s_req_method, s_header_field, s_header_value}" if "s \<in> url_states" for s
    using that by (auto simp: url_states_def mark_of_def)
  note s = this [OF assms(2)]
  show "p \<le> ex_p x" "ex_p x < length d" "hp_errno (ex_parser x) = HPE_OK" "hp_index (ex_parser x) \<le> 16"
    "U (ex_user x)" using assms(1) s by (simp_all add: inv_def parser_ok_def index_ok_def)
  show "ex_mark x m = None" if "m \<noteq> M_url" using assms(1) s that by (simp add: inv_def marks_ok_def)
qed

lemma safe_req_schema:
  assumes "inv U n d p x" "hp_state (ex_parser x) \<in> url_states"
  shows "safe F U d p (step_req_schema ch x)"
proof -
  have "safe F U d p (url_char ch x)" using url_state_facts [OF assms] by (intro safe_url_char)
  then show ?thesis using url_state_facts [OF assms] by (simp add: step_req_schema_def)
qed

lemma safe_req_url:
  assumes "settings_ok F U S" "inv U n d p x" "hp_state (ex_parser x) \<in> url_states"
  shows "safe F U d p (step_req_url S d ch x)"
proof -
  note x = url_state_facts [OF assms(2,3)]
  have char: "safe F U d p (url_char ch x)" using x by (intro safe_url_char)
  have data: "safe F U d p (callback_data S d M_url at_end (Suc (ex_p x)) next_byte
      (UPDATE_STATE s (update_parser f x)))"
    if "s \<in> {s_req_http_start, s_req_line_almost_done, s_header_field_start}"
      "f = id \<or> f = (\<lambda>hp. hp\<lparr>hp_http_major := 0, hp_http_minor := 9\<rparr>)" for s f at_end
    using that x by (auto intro!: safe_data [OF assms(1)] simp: inv_defs parser_updates)
  have "update_parser id x = x" by (simp add: update_parser_def)
  with data [where f = id] char
    data [where f = "\<lambda>hp. hp\<lparr>hp_http_major := 0, hp_http_minor := 9\<rparr>"]
  show ?thesis
    by (simp add: step_req_url_def CALLBACK_DATA_def set_major_def set_minor_def)
      (simp add: parser_updates)
qed

section \<open>The header states\<close>

text \<open>Between a header's parts no mark is set.\<close>

definition clean :: "('s \<Rightarrow> bool) \<Rightarrow> string \<Rightarrow> nat \<Rightarrow> 's execution \<Rightarrow> bool" where
  "clean U d p x \<longleftrightarrow> p \<le> ex_p x \<and> ex_p x < length d \<and> hp_errno (ex_parser x) = HPE_OK
     \<and> hp_index (ex_parser x) \<le> 16 \<and> (\<forall>m. ex_mark x m = None) \<and> U (ex_user x)"

lemma inv_clean:
  assumes "inv U n d p x" "mark_of (hp_state (ex_parser x)) = None" "hp_state (ex_parser x) \<noteq> s_req_method"
  shows "clean U d p x"
  using assms by (auto simp: inv_def clean_def parser_ok_def index_ok_def marks_ok_def mark_of_def split: if_splits)

lemma safe_constant:
  assumes "clean U d p x" "mark_of s = None" "s \<notin> chunk_states" "s \<noteq> s_req_method"
  shows "safe F U d p (step_res_constant c s ch x)" "safe F U d p (step_expect_LF s ch x)"
proof -
  have "inv U 0 d p (UPDATE_STATE s x)"
    using assms by (auto simp: clean_def inv_def parser_ok_def index_ok_def marks_ok_def mark_of_def
        chunk_states_def parser_updates split: if_splits)
  then show "safe F U d p (step_res_constant c s ch x)" "safe F U d p (step_expect_LF s ch x)"
    using assms(1) by (simp_all add: step_res_constant_def step_expect_LF_def clean_def)
qed

lemma value_started:
  assumes "clean U d p x" "hp_state hp = s_header_value" "hp_index hp = 0" "hp_errno hp = HPE_OK"
    and "hp_header_state hp \<notin> {h_connection, h_transfer_encoding}"
  shows "inv U 0 d p ((MARK M_header_value x)\<lparr>ex_parser := hp\<rparr>)"
  using assms by (simp add: clean_def inv_def parser_ok_def index_ok_def marks_ok_def mark_of_def
      chunk_states_def MARK_def)

lemma safe_header_value_start:
  assumes "clean U d p x"
  shows "safe F U d p (step_header_value_start ch x)"
proof -
  define hp where "hp = (ex_parser x)\<lparr>hp_state := s_header_value, hp_index := 0\<rparr>"
  define y where "y = set_index 0 (UPDATE_STATE s_header_value (MARK M_header_value x))"
  have y: "y = (MARK M_header_value x)\<lparr>ex_parser := hp\<rparr>"
    by (simp add: y_def hp_def parser_updates MARK_def)
  have hp: "hp_state hp = s_header_value" "hp_index hp = 0" "hp_errno hp = HPE_OK"
    "hp_header_state hp = hp_header_state (ex_parser x)"
    using assms by (simp_all add: hp_def clean_def)
  have go: "inv U 0 d p (update_parser f y)"
    if "f hp = hp\<lparr>hp_header_state := h, hp_flags := fl, hp_content_length := cl\<rparr>" "h \<notin> {h_connection, h_transfer_encoding}" for f h fl cl
    using value_started [OF assms, of "f hp"] that hp by (simp add: y update_parser_def)
  have failed: "returned U d (ex_p y) (SET_ERRNO HPE_INVALID_CONTENT_LENGTH y)"
    using assms by (simp add: y clean_def MARK_def)
  have set: "inv U 0 d p (set_header_state h y)" if "h \<notin> {h_connection, h_transfer_encoding}" for h
    unfolding set_header_state_def using that by (intro go [where h = h and fl = "hp_flags hp" and cl = "hp_content_length hp"]) simp_all
  have upgrade: "inv U 0 d p (set_header_state h_general (add_flag F_UPGRADE y))"
    using go [where f = "\<lambda>hp. hp\<lparr>hp_flags := insert F_UPGRADE (hp_flags hp), hp_header_state := h_general\<rparr>"
        and h = h_general and fl = "insert F_UPGRADE (hp_flags hp)" and cl = "hp_content_length hp"]
    by (simp add: parser_updates)
  have len: "inv U 0 d p (update_parser (\<lambda>hp. hp\<lparr>hp_content_length := n\<rparr>) y)" if "hp_header_state hp = h_content_length" for n
    using that by (intro go [where h = h_content_length and fl = "hp_flags hp" and cl = n]) simp_all
  have same: "inv U 0 d p y" if "hp_header_state hp = h_matching_connection_token_start"
    using value_started [OF assms hp(1-3)] that by (simp add: y)
  have hs: "hp_header_state (ex_parser y) = hp_header_state hp" by (simp add: y)
  show ?thesis
    unfolding step_header_value_start_def Let_def y_def [symmetric] hs
    using set upgrade len same failed by (simp split: header_states.split)
qed

lemma safe_header_value_discard_ws:
  assumes "inv U n d p x" "hp_state (ex_parser x) = s_header_value_discard_ws"
  shows "safe F U d p (step_header_value_discard_ws ch x)"
proof -
  have "clean U d p x" using assms by (intro inv_clean) (simp_all add: mark_of_def url_states_def)
  then show ?thesis using assms safe_header_value_start [of U d p x F ch]
    by (auto simp: step_header_value_discard_ws_def inv_defs parser_updates)
qed

subsection \<open>Field names\<close>

definition field_ok :: "http_parser \<Rightarrow> bool" where
  "field_ok hp \<longleftrightarrow> hp_state hp = s_header_field \<and> hp_errno hp = HPE_OK
     \<and> hp_header_state hp \<in> field_states \<and> hp_index hp \<le> index_bound (hp_header_state hp)"

lemma match_name_ok:
  assumes "field_ok hp" "index_bound (hp_header_state hp) = length name - 2" "2 \<le> length name" "length name \<le> 17"
    and "full \<in> field_states" "index_bound full = 16"
  shows "field_ok (match_name name full c hp)"
proof -
  have g: "h_general \<in> field_states" by (simp add: field_states_def)
  have "hp_index hp + 1 \<le> length name - 1" using assms(1-3) by (auto simp: field_ok_def)
  then show ?thesis using assms g by (auto simp: field_ok_def match_name_def Let_def)
qed

lemma header_field_char_ok:
  assumes "field_ok hp"
  shows "\<exists>r. header_field_char ch c hp = Inr r
    \<and> (case r of Inl e \<Rightarrow> e \<noteq> HPE_OK | Inr hp' \<Rightarrow> field_ok hp')"
proof -
  have m: "field_ok (match_name ''connection'' h_connection c hp)" if "hp_header_state hp = h_matching_connection"
    using assms that by (intro match_name_ok) (simp_all add: field_states_def)
  have p: "field_ok (match_name ''proxy-connection'' h_connection c hp)"
    if "hp_header_state hp = h_matching_proxy_connection"
    using assms that by (intro match_name_ok) (simp_all add: field_states_def)
  have l: "field_ok (match_name ''content-length'' h_content_length c hp)"
    if "hp_header_state hp = h_matching_content_length"
    using assms that by (intro match_name_ok) (simp_all add: field_states_def)
  have t: "field_ok (match_name ''transfer-encoding'' h_transfer_encoding c hp)"
    if "hp_header_state hp = h_matching_transfer_encoding"
    using assms that by (intro match_name_ok) (simp_all add: field_states_def)
  have u: "field_ok (match_name ''upgrade'' h_upgrade c hp)" if "hp_header_state hp = h_matching_upgrade"
    using assms that by (intro match_name_ok) (simp_all add: field_states_def)
  have fl: "field_ok (hp\<lparr>hp_flags := fs\<rparr>) = field_ok hp" for hp fs by (simp add: field_ok_def)
  from assms have "hp_header_state hp \<in> field_states" by (simp add: field_ok_def)
  then show ?thesis
    unfolding field_states_def
    by (elim insertE) (use assms m p l t u fl in \<open>auto simp: header_field_char_def field_ok_def field_states_def Let_def\<close>)
qed

lemma header_field_loop_ok:
  assumes "field_ok hp"
  shows "\<exists>stop q' hp'. header_field_loop cs q hp = Inr (stop, q', hp') \<and> field_ok hp'
    \<and> q \<le> q' \<and> q' \<le> q + length cs \<and> (stop \<noteq> Field_end \<longrightarrow> q' < q + length cs)
    \<and> (stop = Field_end \<longrightarrow> q' = q + length cs) \<and> (\<forall>e. stop = Field_error e \<longrightarrow> e \<noteq> HPE_OK)"
  using assms
proof (induction cs arbitrary: q hp)
  case (Cons ch cs)
  show ?case
  proof (cases "tokens ch = NUL")
    case True
    then show ?thesis using Cons.prems by simp
  next
    case False
    obtain r where r: "header_field_char ch (tokens ch) hp = Inr r"
      "case r of Inl e \<Rightarrow> e \<noteq> HPE_OK | Inr hp' \<Rightarrow> field_ok hp'"
      using header_field_char_ok [OF Cons.prems] by blast
    show ?thesis
    proof (cases r)
      case (Inl e)
      then show ?thesis using False r Cons.prems by simp
    next
      case (Inr hp')
      then have "field_ok hp'" using r(2) by simp
      from Cons.IH [OF this, of "Suc q"] show ?thesis using False r(1) Inr by auto
    qed
  qed
qed simp

lemma safe_header_field:
  assumes "settings_ok F U S" "inv U n d p x" "hp_state (ex_parser x) = s_header_field"
  shows "safe F U d p (step_header_field S d x)"
proof -
  have x: "p \<le> ex_p x" "ex_p x < length d" "field_ok (ex_parser x)" "\<And>m. m \<noteq> M_header_field \<Longrightarrow> ex_mark x m = None"
    "U (ex_user x)" using assms(2,3) by (auto simp: inv_def parser_ok_def index_ok_def marks_ok_def mark_of_def field_ok_def)
  obtain stop q hp where l: "header_field_loop (drop (ex_p x) d) (ex_p x) (ex_parser x) = Inr (stop, q, hp)"
    "field_ok hp" "ex_p x \<le> q" "q \<le> length d" "stop \<noteq> Field_end \<Longrightarrow> q < length d"
    "stop = Field_end \<Longrightarrow> q = length d" "\<And>e. stop = Field_error e \<Longrightarrow> e \<noteq> HPE_OK"
    using header_field_loop_ok [OF x(3), of "drop (ex_p x) d" "ex_p x"] x(2) by auto
  have hp: "hp_errno hp = HPE_OK" "hp_state hp = s_header_field" "hp_header_state hp \<in> field_states"
    "hp_index hp \<le> index_bound (hp_header_state hp)"
    using l(2) by (simp_all add: field_ok_def)
  then have idx: "hp_index hp \<le> 16" using index_bound_le order_trans by blast
  show ?thesis
  proof (cases stop)
    case Field_end
    then show ?thesis using l x hp
      by (auto intro!: safe_count simp: step_header_field_def inv_defs parser_updates)
  next
    case (Field_char ch)
    then show ?thesis using l x hp idx
      by (auto intro!: safe_count safe_data [OF assms(1)]
          simp: step_header_field_def CALLBACK_DATA_def inv_defs parser_updates)
  next
    case (Field_error e)
    then show ?thesis using l x by (simp add: step_header_field_def)
  qed
qed

subsection \<open>Field values\<close>

definition value_ok :: "header_states \<Rightarrow> http_parser \<Rightarrow> bool" where
  "value_ok h hp \<longleftrightarrow> hp_state hp = s_header_value \<and> hp_errno hp = HPE_OK
     \<and> h \<notin> {h_connection, h_transfer_encoding} \<and> hp_index hp \<le> index_bound h"

lemma match_value_ok:
  assumes "value_ok h hp" "index_bound h = length word - 2" "2 \<le> length word" "length word \<le> 17"
    and "full \<notin> {h_connection, h_transfer_encoding}" "index_bound full = 16"
    and "other \<notin> {h_connection, h_transfer_encoding}" "index_bound other = 16"
    and "match_value word full other c h hp = (hp', h')"
  shows "value_ok h' hp'"
proof -
  have "hp_index hp + 1 \<le> length word - 1" using assms(1-3) by (auto simp: value_ok_def)
  then show ?thesis using assms by (auto simp: value_ok_def match_value_def Let_def split: if_splits)
qed

lemma connection_flag_simps [simp]:
  "hp_state (connection_flag h hp) = hp_state hp" "hp_errno (connection_flag h hp) = hp_errno hp"
  "hp_index (connection_flag h hp) = hp_index hp" "hp_header_state (connection_flag h hp) = hp_header_state hp"
  by (simp_all add: connection_flag_def)

lemma header_value_char_ok:
  assumes "value_ok h hp"
  shows "\<exists>r. header_value_char ch h hp = Inr r
    \<and> (case r of Inl e \<Rightarrow> e \<noteq> HPE_OK | Inr (hp', h') \<Rightarrow> value_ok h' hp')"
proof -
  have len: "case content_length_digit ch hp of Inl e \<Rightarrow> e \<noteq> HPE_OK | Inr hp' \<Rightarrow> value_ok h hp'"
    if "h = h_content_length"
    using assms that by (simp add: content_length_digit_def value_ok_def)
  have m: "case match_value word full other c h hp of (hp', h') \<Rightarrow> value_ok h' hp'"
    if "index_bound h = length word - 2" "2 \<le> length word" "length word \<le> 17"
      "full \<notin> {h_connection, h_transfer_encoding}" "index_bound full = 16"
      "other \<notin> {h_connection, h_transfer_encoding}" "index_bound other = 16" for word full other c
    using match_value_ok [OF assms that] by (auto split: prod.split)
  show ?thesis
  proof (cases h)
    case h_content_length
    then show ?thesis using len by (auto simp: header_value_char_def split: sum.splits)
  next
    case h_matching_transfer_encoding_chunked
    then show ?thesis using m [of "''chunked''" h_transfer_encoding_chunked h_general "LOWER ch"]
      by (simp add: header_value_char_def)
  next
    case h_matching_connection_keep_alive
    then show ?thesis using m [of "''keep-alive''" h_connection_keep_alive h_matching_connection_token "LOWER ch"]
      by (simp add: header_value_char_def)
  next
    case h_matching_connection_close
    then show ?thesis using m [of "''close''" h_connection_close h_matching_connection_token "LOWER ch"]
      by (simp add: header_value_char_def)
  next
    case h_matching_connection_upgrade
    then show ?thesis using m [of "''upgrade''" h_connection_upgrade h_matching_connection_token "LOWER ch"]
      by (simp add: header_value_char_def)
  qed (use assms index_bound_le [of h] in \<open>auto simp: header_value_char_def value_ok_def Let_def\<close>)
qed

lemma skip_general_bounds:
  assumes "\<not> is_eol ch"
  shows "1 \<le> skip_general (ch # cs)" "skip_general (ch # cs) \<le> length (ch # cs)"
proof -
  define w where "w = take (min (length (ch # cs)) HTTP_MAX_HEADER_SIZE) (ch # cs)"
  define n where "n = length (takeWhile (\<lambda>c. \<not> is_eol c) w)"
  have sg: "skip_general (ch # cs) = (if n < length w then n else length (ch # cs))"
    by (simp only: skip_general_def Let_def w_def n_def)
  have "w \<noteq> []" by (simp add: w_def HTTP_MAX_HEADER_SIZE_def)
  then have "hd w = ch" by (simp add: w_def hd_take)
  then have "1 \<le> n" using assms \<open>w \<noteq> []\<close> by (cases w) (simp_all add: n_def)
  then show "1 \<le> skip_general (ch # cs)" by (simp add: sg)
  have "length w \<le> length (ch # cs)" by (simp add: w_def)
  then show "skip_general (ch # cs) \<le> length (ch # cs)" by (simp add: sg)
qed

lemma header_value_loop_eqs:
  "header_value_loop (CR # cs) q h hp = Inr (Value_CR, q, h, hp)"
  "header_value_loop (LF # cs) q h hp = Inr (Value_LF, q, h, hp)"
  "\<not> is_eol ch \<Longrightarrow> \<not> hp_lenient hp \<Longrightarrow> \<not> IS_HEADER_CHAR ch \<Longrightarrow> header_value_loop (ch # cs) q h hp
     = Inr (Value_error HPE_INVALID_HEADER_TOKEN, q, hp_header_state hp, hp)"
  "\<not> is_eol ch \<Longrightarrow> hp_lenient hp \<or> IS_HEADER_CHAR ch \<Longrightarrow> header_value_loop (ch # cs) q h_general hp
     = header_value_loop (drop (skip_general (ch # cs) - 1) cs) (q + skip_general (ch # cs)) h_general hp"
  "\<not> is_eol ch \<Longrightarrow> hp_lenient hp \<or> IS_HEADER_CHAR ch \<Longrightarrow> h \<noteq> h_general \<Longrightarrow> header_value_loop (ch # cs) q h hp
     = res_bind (header_value_char ch h hp) (\<lambda>r. case r of
            Inl e \<Rightarrow> Inr (Value_error e, q, h, hp)
          | Inr (hp, h) \<Rightarrow> header_value_loop cs (Suc q) h hp)"
  by (subst header_value_loop.simps(2); auto simp: is_eol_def Let_def)+

definition value_stopped :: "nat \<Rightarrow> nat \<Rightarrow> (value_stop \<times> nat \<times> header_states \<times> http_parser) result \<Rightarrow> bool" where
  "value_stopped q n r \<longleftrightarrow> (\<exists>stop q' h' hp'. r = Inr (stop, q', h', hp')
    \<and> hp_errno hp' = HPE_OK \<and> q \<le> q' \<and> q' \<le> q + n
    \<and> (stop \<noteq> Value_end \<longrightarrow> q' < q + n) \<and> (stop = Value_end \<longrightarrow> q' = q + n)
    \<and> (\<forall>e. stop = Value_error e \<longrightarrow> e \<noteq> HPE_OK) \<and> ((\<forall>e. stop \<noteq> Value_error e) \<longrightarrow> value_ok h' hp'))"

lemma value_stopped_later: "value_stopped (q + k) n r \<Longrightarrow> value_stopped q (k + n) r"
  by (fastforce simp: value_stopped_def)

lemma value_stopped_here:
  assumes "hp_errno hp = HPE_OK" "stop \<noteq> Value_end" "0 < n" "\<forall>e. stop = Value_error e \<longrightarrow> e \<noteq> HPE_OK"
    and "(\<forall>e. stop \<noteq> Value_error e) \<longrightarrow> value_ok h hp"
  shows "value_stopped q n (Inr (stop, q, h, hp))"
  using assms by (simp add: value_stopped_def)

lemma header_value_loop_ok:
  assumes "value_ok h hp"
  shows "value_stopped q (length cs) (header_value_loop cs q h hp)"
  using assms
proof (induction cs q h hp rule: header_value_loop.induct)
  case (1 q h hp)
  then show ?case by (simp add: value_ok_def value_stopped_def)
next
  case (2 ch cs q h hp)
  have errno: "hp_errno hp = HPE_OK" using "2.prems" by (simp add: value_ok_def)
  consider (eol) "is_eol ch" | (bad) "\<not> is_eol ch" "\<not> hp_lenient hp" "\<not> IS_HEADER_CHAR ch"
    | (good) "\<not> is_eol ch" "hp_lenient hp \<or> IS_HEADER_CHAR ch" by blast
  then show ?case
  proof cases
    case eol
    then show ?thesis using errno "2.prems"
      by (auto simp: is_eol_def header_value_loop_eqs intro!: value_stopped_here)
  next
    case bad
    then show ?thesis using errno by (simp add: header_value_loop_eqs value_stopped_here)
  next
    case good
    then have c: "ch \<noteq> CR" "ch \<noteq> LF" "\<not> (\<not> hp_lenient hp \<and> \<not> IS_HEADER_CHAR ch)" by (auto simp: is_eol_def)
    show ?thesis
    proof (cases "h = h_general")
      case True
      define n where "n = skip_general (ch # cs)"
      have n: "1 \<le> n" "n \<le> Suc (length cs)" using skip_general_bounds [OF good(1)] by (simp_all add: n_def)
      have eq: "header_value_loop (ch # cs) q h hp = header_value_loop (drop (n - 1) cs) (q + n) h hp"
        using header_value_loop_eqs(4) [OF good] True by (simp add: n_def)
      have "n + length (drop (n - 1) cs) = length (ch # cs)" using n by simp
      then show ?thesis
        using value_stopped_later [OF "2.IH"(1) [OF c True n_def "2.prems"]] unfolding eq by simp
    next
      case False
      obtain r where r: "header_value_char ch h hp = Inr r"
        "case r of Inl e \<Rightarrow> e \<noteq> HPE_OK | Inr (hp', h') \<Rightarrow> value_ok h' hp'"
        using header_value_char_ok [OF "2.prems"] by blast
      show ?thesis
      proof (cases r)
        case (Inl e)
        then show ?thesis using good False r errno by (simp add: header_value_loop_eqs value_stopped_here)
      next
        case (Inr b)
        obtain hp' h' where b: "b = (hp', h')" by (cases b)
        have ok: "value_ok h' hp'" using r(2) Inr b by simp
        have "value_stopped (q + 1) (length cs) (header_value_loop cs (q + 1) h' hp')"
          using "2.IH"(2) [OF c False ok] by simp
        from value_stopped_later [OF this] show ?thesis
          using good False r(1) Inr b by (simp add: header_value_loop_eqs)
      qed
    qed
  qed
qed

lemma safe_header_value:
  assumes "settings_ok F U S" "inv U n d p x" "hp_state (ex_parser x) = s_header_value"
  shows "safe F U d p (step_header_value S d x)"
proof -
  define h0 where "h0 = hp_header_state (ex_parser x)"
  have x: "p \<le> ex_p x" "ex_p x < length d" "\<And>m. m \<noteq> M_header_value \<Longrightarrow> ex_mark x m = None"
    "value_ok h0 (ex_parser x)" "U (ex_user x)"
    using assms(2,3) by (auto simp: inv_def parser_ok_def index_ok_def marks_ok_def mark_of_def value_ok_def h0_def)
  obtain stop q h hp where l:
    "header_value_loop (drop (ex_p x) d) (ex_p x) h0 (ex_parser x) = Inr (stop, q, h, hp)"
    "hp_errno hp = HPE_OK" "ex_p x \<le> q" "q \<le> length d" "stop \<noteq> Value_end \<Longrightarrow> q < length d"
    "stop = Value_end \<Longrightarrow> q = length d" "\<And>e. stop = Value_error e \<Longrightarrow> e \<noteq> HPE_OK"
    "(\<forall>e. stop \<noteq> Value_error e) \<longrightarrow> value_ok h hp"
    using header_value_loop_ok [OF x(4), of "ex_p x" "drop (ex_p x) d"] x(2)
    by (auto simp: value_stopped_def)
  note step = step_header_value_def [of S d x, folded h0_def, unfolded l(1)]
  show ?thesis
  proof (cases stop)
    case (Value_error e)
    then show ?thesis using l x by (simp add: step parser_updates)
  next
    case Value_end
    then have hp: "hp_state hp = s_header_value" "hp_index hp \<le> index_bound h" "h \<notin> {h_connection, h_transfer_encoding}"
      using l(8) by (simp_all add: value_ok_def)
    then show ?thesis using Value_end l x
      by (auto intro!: safe_count simp: step inv_defs parser_updates)
  next
    case Value_CR
    then have "hp_index hp \<le> 16" using l(8) index_bound_le [of h] by (simp add: value_ok_def)
    then show ?thesis using Value_CR l x
      by (auto intro!: safe_count safe_data [OF assms(1)] simp: step CALLBACK_DATA_def inv_defs parser_updates)
  next
    case Value_LF
    then have "hp_index hp \<le> 16" using l(8) index_bound_le [of h] by (simp add: value_ok_def)
    then show ?thesis using Value_LF l x
      by (auto intro!: safe_count safe_data [OF assms(1)]
          simp: step CALLBACK_DATA_NOADVANCE_def step_expect_LF_def inv_defs parser_updates)
  qed
qed

section \<open>The ends of headers and messages\<close>

lemma NEW_MESSAGE_starting: "NEW_MESSAGE hp \<in> {s_dead, s_start_req, s_start_res}"
  by (simp add: NEW_MESSAGE_def start_state_def)

lemma starting_inv:
  assumes "clean U d p x" "starting hp" "hp_errno hp = HPE_OK" "U s"
  shows "inv U 0 d p (x\<lparr>ex_parser := hp, ex_user := s\<rparr>)"
  using assms by (auto simp: starting_def clean_def inv_defs)

lemma safe_new_message:
  assumes "settings_ok F U S" "clean U d p x"
    and "\<And>y. inv U 0 d p y \<Longrightarrow> ex_p y = ex_p x \<Longrightarrow> safe F U d p (k y)"
  shows "safe F U d p (callback_message_complete S (ex_p x + 1) k (UPDATE_STATE (NEW_MESSAGE (ex_parser x)) x))"
proof -
  have "starting (ex_parser (UPDATE_STATE (NEW_MESSAGE (ex_parser x)) x))"
    using NEW_MESSAGE_starting [of "ex_parser x"] assms(2)
    by (auto simp: starting_def clean_def parser_updates)
  moreover have c: "clean U d p (UPDATE_STATE (NEW_MESSAGE (ex_parser x)) x)"
    using assms(2) by (simp add: clean_def parser_updates)
  moreover have "safe F U d p (k ((UPDATE_STATE (NEW_MESSAGE (ex_parser x)) x)\<lparr>ex_parser := hp, ex_user := s\<rparr>))"
    if "starting hp" "hp_errno hp = HPE_OK" "U s" for hp s
    using assms(3) [OF starting_inv [OF c that]] by (simp add: parser_updates)
  moreover have "ex_p x + 1 \<le> length d" using assms(2) by (simp add: clean_def)
  ultimately show ?thesis
    by (intro safe_message_complete [OF assms(1)]) (auto simp: clean_def)
qed

lemma inv_returned: "inv U 0 d p x \<Longrightarrow> 1 \<le> n \<Longrightarrow> n \<le> length d \<Longrightarrow> returned U d n x"
  by (simp add: inv_def returned_def)

lemma safe_message_done:
  assumes "settings_ok F U S" "clean U d p x"
  shows "safe F U d p (step_message_done S x)"
  unfolding step_message_done_def using assms(2)
  by (intro safe_new_message [OF assms]) (auto simp: clean_def inv_returned)

lemma safe_without_body:
  assumes "settings_ok F U S" "clean U d p x"
  shows "safe F U d p (message_without_body S next_byte x)"
    "safe F U d p (message_without_body S (\<lambda>x. Inr (Return (ex_p x + 1) x)) x)"
  unfolding message_without_body_def using assms(2)
  by (intro safe_new_message [OF assms]; auto simp: clean_def inv_returned)+

lemma safe_headers_done:
  assumes "settings_ok F U S" "clean U d p x"
  shows "safe F U d p (step_headers_done S ch x)"
proof -
  have c: "clean U d p (reset_nread x)" using assms(2) by (simp add: clean_def parser_updates)
  have go: "inv U 0 d p (UPDATE_STATE s (reset_nread x))"
    if "s = s_chunk_size_start \<and> F_CHUNKED \<in> hp_flags (ex_parser x)
      \<or> s = s_body_identity \<and> hp_content_length (ex_parser x) \<notin> {0, ULLONG_MAX} \<or> s = s_body_identity_eof" for s
    using that assms(2) by (auto simp: clean_def inv_defs parser_updates)
  have f: "hp_flags (ex_parser (reset_nread x)) = hp_flags (ex_parser x)"
    "hp_content_length (ex_parser (reset_nread x)) = hp_content_length (ex_parser x)"
    by (simp_all add: parser_updates)
  show ?thesis
    using go safe_without_body [OF assms(1) c] assms(2) f
    by (auto simp: step_headers_done_def Let_def clean_def)
qed

lemma safe_headers_almost_done:
  assumes "settings_ok F U S" "clean U d p x"
  shows "safe F U d p (step_headers_almost_done S ch x)"
proof -
  have c: "clean U d p (y\<lparr>ex_user := s\<rparr>) = clean U d p y" if "U s" "U (ex_user y)" for y s using that by (simp add: clean_def)
  have u: "clean U d p (set_upgrade (UPDATE_STATE s_headers_done x))" "clean U d p (UPDATE_STATE s_message_done x)"
    using assms(2) by (simp_all add: clean_def parser_updates)
  have fl: "clean U d p (add_flag f y) = clean U d p y" for f y by (simp add: clean_def parser_updates)
  have "safe F U d p (callback_notify (on_chunk_complete S) HPE_CB_chunk_complete (ex_p x) (step_message_done S)
            (UPDATE_STATE s_message_done x))"
    using u(2) assms(2) settings_okD [OF assms(1)]
    by (intro safe_notify safe_message_done [OF assms(1)]) (auto simp: c clean_def parser_updates)
  moreover have "safe F U d p (res_bind (on_headers_complete S hp s) (\<lambda>(r, s).
         let x = y\<lparr>ex_user := s\<rparr> in
         if r = 0 then (if hp_errno (ex_parser x) \<noteq> HPE_OK then Inr (Return (ex_p x) x)
                        else step_headers_done S ch x)
         else if r = 1 then (let x = add_flag F_SKIPBODY x in
                if hp_errno (ex_parser x) \<noteq> HPE_OK then Inr (Return (ex_p x) x)
                else step_headers_done S ch x)
         else Inr (Return (ex_p x) (SET_ERRNO HPE_CB_headers_complete x))))"
    if y: "clean U d p y" and s: "U s" for y hp s
  proof (cases "on_headers_complete S hp s")
    case (Inl f)
    then show ?thesis using settings_okD [OF assms(1) s, of hp] by (simp add: callback_ok_def)
  next
    case (Inr b)
    then have ub: "U (snd b)" using settings_okD(2) [OF assms(1) s, of hp] by (cases b) (simp add: callback_ok_def)
    then have "clean U d p (y\<lparr>ex_user := snd b\<rparr>)" "clean U d p (add_flag F_SKIPBODY (y\<lparr>ex_user := snd b\<rparr>))"
      using y by (simp_all add: fl) (simp_all add: clean_def)
    note this [THEN safe_headers_done [OF assms(1)]]
    then show ?thesis using Inr y ub
      by (cases b) (auto simp: Let_def clean_def parser_updates)
  qed
  ultimately show ?thesis using u assms(2)
    by (auto simp: step_headers_almost_done_def Let_def clean_def)
qed

lemma clean_finish: "clean U d p x \<Longrightarrow> clean U d p (update_parser finish_header x)"
  by (simp add: clean_def finish_header_def connection_flag_def update_parser_def)

lemma first_header_state_ok:
  "first_header_state c \<in> field_states" "index_bound (first_header_state c) \<ge> 0"
  by (auto simp: first_header_state_def field_states_def)

lemma safe_header_field_start:
  assumes "settings_ok F U S" "clean U d p x"
  shows "safe F U d p (step_header_field_start S ch x)"
proof -
  have "clean U d p (UPDATE_STATE s_headers_almost_done x)" using assms(2) by (simp add: clean_def parser_updates)
  from safe_headers_almost_done [OF assms(1) this] show ?thesis
    using assms(2) first_header_state_ok
    by (auto simp: step_header_field_start_def clean_def inv_defs parser_updates)
qed

lemma safe_header_value_lws:
  assumes "settings_ok F U S" "clean U d p x"
  shows "safe F U d p (step_header_value_lws S ch x)"
proof -
  have "clean U d p (UPDATE_STATE s y) = clean U d p y" for s y by (simp add: clean_def parser_updates)
  then show ?thesis using assms clean_finish [OF assms(2)]
    by (auto simp: step_header_value_lws_def intro!: safe_header_value_start safe_header_field_start)
qed

lemma safe_header_value_discard_lws:
  assumes "settings_ok F U S" "clean U d p x"
  shows "safe F U d p (step_header_value_discard_lws S d ch x)"
proof -
  have "clean U d p (y\<lparr>ex_user := s, ex_mark := (ex_mark y)(M_header_value := None)\<rparr>)"
    if "y = UPDATE_STATE s_header_field_start (MARK M_header_value (update_parser finish_header x))" "U s" for y s
    using clean_finish [OF assms(2)] that by (simp add: clean_def MARK_def parser_updates)
  then show ?thesis using assms(2) clean_finish [OF assms(2)]
    by (auto simp: step_header_value_discard_lws_def CALLBACK_DATA_NOADVANCE_def clean_def inv_defs
        parser_updates intro!: safe_data [OF assms(1)] safe_header_field_start [OF assms(1)])
qed

section \<open>Bodies\<close>

lemma unhex_range: "unhex c \<noteq> -1 \<Longrightarrow> 0 \<le> unhex c \<and> unhex c \<le> 15"
  by (auto simp: unhex_def IS_NUM_def split: if_splits)

lemma chunk_digit_not_max:
  fixes cl :: "64 word"
  assumes "\<not> (ULLONG_MAX - 16) div 16 < cl" "0 \<le> u" "u \<le> 15"
  shows "cl * 16 + of_int u \<noteq> ULLONG_MAX"
proof -
  have "uint cl \<le> uint ((ULLONG_MAX - 16) div 16 :: 64 word)" using assms(1) by (simp add: word_less_def)
  also have "uint ((ULLONG_MAX - 16) div 16 :: 64 word) = 2 ^ 60 - 2" by (simp add: uint_div_distrib)
  finally have c: "uint cl \<le> 2 ^ 60 - 2" .
  have "uint (cl * 16 + of_int u) = (uint cl * 16 + u) mod 2 ^ 64"
    by (simp add: uint_word_ariths unsigned_of_int take_bit_eq_mod mod_simps)
  also have "\<dots> = uint cl * 16 + u" using c assms(2,3) by (intro mod_pos_pos_trivial) simp_all
  finally have "uint (cl * 16 + of_int u) < 2 ^ 64 - 1" using c assms(3) by simp
  moreover have "uint ULLONG_MAX = 2 ^ 64 - 1" by (simp add: unsigned_minus_1_eq_mask mask_eq_exp_minus_1)
  ultimately show ?thesis by force
qed

lemma consume_not_max:
  fixes cl :: "64 word"
  assumes "cl \<noteq> ULLONG_MAX" "n \<le> unat cl"
  shows "cl - of_nat n \<noteq> ULLONG_MAX"
proof
  assume eq: "cl - of_nat n = ULLONG_MAX"
  have "unat cl < 2 ^ LENGTH(64)" by (rule unsigned_less)
  then have "n < 2 ^ 64" using assms(2) by simp
  then have "(of_nat n :: 64 word) \<le> cl" using assms(2) by (simp add: word_le_nat_alt unat_of_nat take_bit_nat_eq_self)
  then have "cl - of_nat n \<le> cl" by (rule word_sub_le)
  then show False using eq assms(1) by (simp add: word_order.extremum_unique)
qed

lemma body_to_read_bounds:
  assumes "ex_p x < length d" "hp_content_length (ex_parser x) \<noteq> 0"
  shows "1 \<le> body_to_read d x" "ex_p x + body_to_read d x \<le> length d"
    "body_to_read d x \<le> unat (hp_content_length (ex_parser x))"
proof -
  have "unat (hp_content_length (ex_parser x)) \<noteq> 0" using assms(2) by (simp only: unat_eq_zero) simp
  then show "1 \<le> body_to_read d x" using assms(1) by (simp add: body_to_read_def)
  show "ex_p x + body_to_read d x \<le> length d" using assms(1) by (simp add: body_to_read_def)
  show "body_to_read d x \<le> unat (hp_content_length (ex_parser x))" by (simp add: body_to_read_def)
qed

lemma safe_body_identity:
  assumes "settings_ok F U S" "inv U n d p x" "hp_state (ex_parser x) = s_body_identity"
  shows "safe F U d p (step_body_identity S d x)"
proof -
  let ?cl = "hp_content_length (ex_parser x)"
  let ?n = "body_to_read d x"
  define y where "y = consume_body ?n (MARK M_body x)"
  have x: "p \<le> ex_p x" "ex_p x < length d" "hp_errno (ex_parser x) = HPE_OK" "hp_index (ex_parser x) \<le> 16"
    "\<And>m. m \<noteq> M_body \<Longrightarrow> ex_mark x m = None" "?cl \<noteq> 0" "?cl \<noteq> ULLONG_MAX"
    using assms(2,3) by (auto simp: inv_defs)
  have u: "U (ex_user x)" using assms by (simp add: inv_def)
  note n = body_to_read_bounds [OF x(2,6)]
  have y: "ex_p y = ex_p x + ?n - 1" "hp_errno (ex_parser y) = HPE_OK" "hp_index (ex_parser y) \<le> 16"
    "\<And>m. m \<noteq> M_body \<Longrightarrow> ex_mark y m = None" "hp_content_length (ex_parser y) = ?cl - of_nat ?n"
    "hp_state (ex_parser y) = s_body_identity"
    using x assms(3) by (simp_all add: y_def consume_body_def MARK_def update_parser_def)
  have p: "p \<le> ex_p y" "ex_p y < length d" "U (ex_user y)" using x(1) n(1,2) y(1) u by (simp_all add: y_def consume_body_def MARK_def update_parser_def)
  have "inv U 0 d p y" if "hp_content_length (ex_parser y) \<noteq> 0"
    using that p y consume_not_max [OF x(7) n(3)]
    by (simp add: inv_def parser_ok_def index_ok_def marks_ok_def mark_of_def chunk_states_def url_states_def)
  moreover have "safe F U d p (callback_data S d M_body (ex_p y + 1) (ex_p y) (step_message_done S) (UPDATE_STATE s_message_done y))"
    using p y by (intro safe_data [OF assms(1)] safe_message_done [OF assms(1)]) (auto simp: clean_def parser_updates)
  ultimately show ?thesis
    unfolding step_body_identity_def Let_def y_def [symmetric] using x(6,7) by simp
qed

lemma safe_chunk_data:
  assumes "inv U n d p x" "hp_state (ex_parser x) = s_chunk_data"
  shows "safe F U d p (step_chunk_data d x)"
proof -
  let ?cl = "hp_content_length (ex_parser x)"
  let ?n = "body_to_read d x"
  define y where "y = consume_body ?n (MARK M_body x)"
  have x: "p \<le> ex_p x" "ex_p x < length d" "hp_errno (ex_parser x) = HPE_OK" "hp_index (ex_parser x) \<le> 16"
    "\<And>m. m \<noteq> M_body \<Longrightarrow> ex_mark x m = None" "?cl \<noteq> 0" "?cl \<noteq> ULLONG_MAX" "F_CHUNKED \<in> hp_flags (ex_parser x)"
    using assms by (auto simp: inv_defs)
  have u: "U (ex_user x)" using assms by (simp add: inv_def)
  note n = body_to_read_bounds [OF x(2,6)]
  have y: "ex_p y = ex_p x + ?n - 1" "hp_errno (ex_parser y) = HPE_OK" "hp_index (ex_parser y) \<le> 16"
    "\<And>m. m \<noteq> M_body \<Longrightarrow> ex_mark y m = None" "hp_content_length (ex_parser y) = ?cl - of_nat ?n"
    "hp_state (ex_parser y) = s_chunk_data" "F_CHUNKED \<in> hp_flags (ex_parser y)"
    using x assms(2) by (simp_all add: y_def consume_body_def MARK_def update_parser_def)
  have p: "p \<le> ex_p y" "ex_p y < length d" "U (ex_user y)" using x(1) n(1,2) y(1) u by (simp_all add: y_def consume_body_def MARK_def update_parser_def)
  have "inv U 0 d p y" if "hp_content_length (ex_parser y) \<noteq> 0"
    using that p y consume_not_max [OF x(7) n(3)]
    by (simp add: inv_def parser_ok_def index_ok_def marks_ok_def mark_of_def chunk_states_def url_states_def)
  moreover have "inv U 0 d p (UPDATE_STATE s_chunk_data_almost_done y)" if "hp_content_length (ex_parser y) = 0"
    using that p y by (simp add: inv_def parser_ok_def index_ok_def marks_ok_def mark_of_def chunk_states_def
        url_states_def parser_updates)
  ultimately show ?thesis
    unfolding step_chunk_data_def Let_def y_def [symmetric] is_chunked_def using x by simp
qed

lemma safe_body_identity_eof:
  assumes "inv U n d p x" "hp_state (ex_parser x) = s_body_identity_eof"
  shows "safe F U d p (step_body_identity_eof d x)"
  using assms by (auto simp: step_body_identity_eof_def inv_defs)

lemma safe_chunk_size_start:
  assumes "inv U 1 d p x" "hp_state (ex_parser x) = s_chunk_size_start"
  shows "safe F U d p (step_chunk_size_start ch x)"
proof -
  have "(of_int (unhex ch) :: 64 word) \<noteq> ULLONG_MAX" if "unhex ch \<noteq> -1"
    using chunk_digit_not_max [of 0 "unhex ch"] unhex_range [OF that] by simp
  then show ?thesis using assms
    by (auto simp: step_chunk_size_start_def is_chunked_def inv_defs parser_updates)
qed

lemma safe_chunk_size:
  assumes "inv U n d p x" "hp_state (ex_parser x) = s_chunk_size"
  shows "safe F U d p (step_chunk_size ch x)"
proof -
  have "hp_content_length (ex_parser x) * 16 + of_int (unhex ch) \<noteq> ULLONG_MAX"
    if "unhex ch \<noteq> -1" "\<not> (ULLONG_MAX - 16) div 16 < hp_content_length (ex_parser x)"
    using chunk_digit_not_max [OF that(2)] unhex_range [OF that(1)] by blast
  then show ?thesis using assms
    by (auto simp: step_chunk_size_def is_chunked_def inv_defs parser_updates)
qed

lemma safe_chunk_parameters:
  assumes "inv U n d p x" "hp_state (ex_parser x) = s_chunk_parameters"
  shows "safe F U d p (step_chunk_parameters ch x)"
  using assms by (auto simp: step_chunk_parameters_def is_chunked_def inv_defs parser_updates)

lemma safe_chunk_size_almost_done:
  assumes "settings_ok F U S" "inv U n d p x" "hp_state (ex_parser x) = s_chunk_size_almost_done"
  shows "safe F U d p (step_chunk_size_almost_done S ch x)"
  using assms(2,3) settings_okD [OF assms(1)]
  by (auto intro!: safe_notify simp: step_chunk_size_almost_done_def is_chunked_def inv_defs parser_updates)

lemma safe_chunk_data_almost_done:
  assumes "settings_ok F U S" "inv U n d p x" "hp_state (ex_parser x) = s_chunk_data_almost_done"
  shows "safe F U d p (step_chunk_data_almost_done S d ch x)"
  using assms(2,3)
  by (auto intro!: safe_data [OF assms(1)] simp: step_chunk_data_almost_done_def CALLBACK_DATA_def
      is_chunked_def inv_defs parser_updates)

lemma safe_chunk_data_done:
  assumes "settings_ok F U S" "inv U n d p x" "hp_state (ex_parser x) = s_chunk_data_done"
  shows "safe F U d p (step_chunk_data_done S ch x)"
  using assms(2,3) settings_okD [OF assms(1)]
  by (auto intro!: safe_notify simp: step_chunk_data_done_def is_chunked_def inv_defs parser_updates)

section \<open>The loop\<close>

lemma safe_step:
  assumes "settings_ok F U S" "inv U n d p x" "hp_state (ex_parser x) = s_chunk_size_start \<Longrightarrow> n = 1"
  shows "safe F U d p (step S d ch x)"
proof -
  have clean: "clean U d p x" if "mark_of (hp_state (ex_parser x)) = None" "hp_state (ex_parser x) \<noteq> s_req_method"
    using inv_clean [OF assms(2) that] .
  have one: "inv U 1 d p x" if "hp_state (ex_parser x) = s_chunk_size_start" using assms(2,3) that by simp
  note S = assms(1)
  note start = safe_dead [OF S assms(2)] safe_res_or_resp_H [OF S assms(2)] safe_start_res [OF S assms(2)]
    safe_start_req [OF S assms(2)] safe_start_req_or_res [OF S assms(2)]
    safe_res_first_http_major [OF S assms(2)] safe_res_http_major [OF assms(2)]
    safe_res_first_http_minor [OF assms(2)] safe_res_http_minor [OF S assms(2)]
    safe_res_first_status_code [OF S assms(2)] safe_res_status_code [OF S assms(2)]
    safe_res_status_start [OF S assms(2)] safe_res_status [OF S assms(2)]
    safe_req_http_start [OF S assms(2)] safe_req_first_http_major [OF S assms(2)]
    safe_req_http_major [OF assms(2)] safe_req_first_http_minor [OF assms(2)]
    safe_req_http_minor [OF S assms(2)] safe_req_method [OF assms(2)]
    safe_req_spaces_before_url [OF assms(2)] safe_req_schema [OF assms(2)] safe_req_url [OF S assms(2)]
  note headers = safe_header_field [OF S assms(2)] safe_header_value [OF S assms(2)]
    safe_header_value_discard_ws [OF assms(2)] safe_header_value_start [OF clean]
    safe_header_value_lws [OF S clean] safe_header_value_discard_lws [OF S clean]
    safe_header_field_start [OF S clean] safe_headers_almost_done [OF S clean] safe_headers_done [OF S clean]
  note bodies = safe_body_identity [OF S assms(2)] safe_chunk_data [OF assms(2)]
    safe_body_identity_eof [OF assms(2)] safe_chunk_size_start [OF one] safe_chunk_size [OF assms(2)]
    safe_chunk_parameters [OF assms(2)] safe_chunk_size_almost_done [OF S assms(2)]
    safe_chunk_data_almost_done [OF S assms(2)] safe_chunk_data_done [OF S assms(2)]
    safe_message_done [OF S clean]
  show ?thesis
    by (cases "hp_state (ex_parser x)")
      (simp_all add: step_def start headers bodies safe_constant [OF clean] mark_of_def url_states_def chunk_states_def)
qed

lemma safe_turn:
  assumes "settings_ok F U S" "inv U 0 d p x"
  shows "safe F U d p (turn S d x)"
proof (cases "PARSING_HEADER (hp_state (ex_parser x))")
  case True
  define y where "y = update_parser (\<lambda>hp. hp\<lparr>hp_nread := hp_nread hp + 1\<rparr>) x"
  have y: "inv U (if hp_state (ex_parser x) = s_chunk_size_start then 1 else 0) d p y"
    using assms(2) by (auto simp: y_def inv_def parser_ok_def index_ok_def marks_ok_def update_parser_def)
  have "safe F U d p (step S d (d ! ex_p x) y)"
    by (rule safe_step [OF assms(1) y]) (simp add: y_def update_parser_def)
  moreover have "ex_p y \<le> length d" "U (ex_user y)" using y by (simp_all add: inv_def)
  ultimately show ?thesis using True
    by (simp add: turn_def Let_def COUNT_HEADER_SIZE_def y_def)
next
  case False
  then have "hp_state (ex_parser x) \<noteq> s_chunk_size_start" by (auto simp: PARSING_HEADER_def)
  then show ?thesis using False safe_step [OF assms] by (simp add: turn_def)
qed

lemma marks_at_most_one: "marks_ok x \<Longrightarrow> marks_set x \<le> 1"
  by (cases "mark_of (hp_state (ex_parser x))"; cases "the (mark_of (hp_state (ex_parser x)))")
    (simp_all add: marks_ok_def marks_set_def)

text \<open>Between turns: as \<open>inv\<close>, but the position may have reached the end.\<close>

definition between :: "('s \<Rightarrow> bool) \<Rightarrow> string \<Rightarrow> 's execution \<Rightarrow> bool" where
  "between U d x \<longleftrightarrow> ex_p x \<le> length d \<and> hp_errno (ex_parser x) = HPE_OK \<and> parser_ok 0 (ex_parser x) \<and> marks_ok x
     \<and> U (ex_user x)"

abbreviation finished :: "(fault \<Rightarrow> bool) \<Rightarrow> ('s \<Rightarrow> bool) \<Rightarrow> string \<Rightarrow> 's control result \<Rightarrow> bool" where
  "finished F U d r \<equiv> holds F (\<lambda>_. False) (returned U d) r"

lemma finished_data:
  assumes "settings_ok F U S" "hp_errno (ex_parser x) = HPE_OK" "er \<le> length d" "U (ex_user x)"
    and "\<And>s. U s \<Longrightarrow> finished F U d (k (x\<lparr>ex_user := s, ex_mark := (ex_mark x)(m := None)\<rparr>))"
  shows "finished F U d (callback_data S d m at_end er k x)"
proof -
  have k: "safe F U d (length d) (k (x\<lparr>ex_user := s, ex_mark := (ex_mark x)(m := None)\<rparr>))" if "U s" for s
    using assms(5) [OF that] by (auto simp: holds_def split: sum.splits control.splits)
  have "safe F U d (length d) (callback_data S d m at_end er k x)"
    using assms(1-4) k by (intro safe_data)
  then show ?thesis by (auto simp: holds_def inv_def split: sum.splits control.splits)
qed

lemma finished_finish_data:
  assumes "settings_ok F U S" "between U d x" "ex_p x = length d" "d \<noteq> []"
  shows "finished F U d (finish_data S d x)"
  using assms(2,3) Suc_leI [of 0 "length d"] assms(4) marks_at_most_one [of x]
  by (auto simp: finish_data_def CALLBACK_DATA_NOADVANCE_def between_def returned_def
      intro!: finished_data [OF assms(1)])

text \<open>As many turns as there are bytes left are enough.\<close>

lemma finished_loop:
  assumes "settings_ok F U S" "d \<noteq> []" "between U d x" "length d \<le> ex_p x + n"
  shows "finished F U d (execute_loop n S d x)"
  using assms(3,4)
proof (induction n arbitrary: x)
  case 0
  then have "ex_p x = length d" by (simp add: between_def)
  then show ?case using finished_finish_data [OF assms(1) "0.prems"(1) _ assms(2)] by (simp add: execute_loop.simps)
next
  case (Suc n)
  show ?case
  proof (cases "ex_p x = length d")
    case True
    then show ?thesis using finished_finish_data [OF assms(1) Suc.prems(1) _ assms(2)] by (simp add: execute_loop.simps)
  next
    case False
    then have "inv U 0 d (ex_p x) x" using Suc.prems(1) by (simp add: between_def inv_def)
    from safe_turn [OF assms(1) this]
    consider (fault) f where "turn S d x = Inl f" "F f"
      | (ret) m y where "turn S d x = Inr (Return m y)" "returned U d m y"
      | (more) y where "turn S d x = Inr (Next y)" "inv U 0 d (ex_p x) y"
      by (auto simp: holds_def split: sum.splits control.splits)
    then show ?thesis
    proof cases
      case (more y)
      then have "finished F U d (execute_loop n S d (y\<lparr>ex_p := ex_p y + 1\<rparr>))"
        using Suc.prems(2) by (intro Suc.IH) (auto simp: inv_def between_def marks_ok_def)
      then show ?thesis using False more(1) by (subst execute_loop.simps) simp
    qed (use False in \<open>simp_all add: execute_loop.simps\<close>)
  qed
qed

lemma between_start:
  assumes "parser_ok 0 hp" "hp_errno hp = HPE_OK" "U s"
  shows "between U d (start_execution hp s)"
  using assms by (auto simp: between_def start_execution_def marks_ok_def initial_mark_def mark_of_def url_states_def)

lemma starting_parser_ok: "starting hp \<Longrightarrow> parser_ok 0 hp"
  by (auto simp: starting_def parser_ok_def index_ok_def chunk_states_def)

lemma finished_eof:
  assumes "settings_ok F U S" "parser_ok 0 (ex_parser x)" "hp_errno (ex_parser x) = HPE_OK" "U (ex_user x)"
  shows "holds F (\<lambda>_. False) (\<lambda>n x. U (ex_user x) \<and> (hp_errno (ex_parser x) = HPE_OK \<longrightarrow> parser_ok 0 (ex_parser x)))
    (execute_eof S x)"
proof (cases "on_message_complete S (ex_parser x) (ex_user x)")
  case (Inl f)
  then have "F f" using assms(1,4) unfolding settings_ok_def by (metis (no_types, lifting) old.sum.simps(5))
  then show ?thesis using Inl assms(2-4)
    by (simp add: execute_eof_def callback_message_complete_def Let_def parser_updates)
next
  case (Inr b)
  obtain r hp s where b: "b = (r, hp, s)" by (cases b)
  have "case on_message_complete S (ex_parser x) (ex_user x) of
      Inl f \<Rightarrow> F f | Inr (r, hp', s') \<Rightarrow> U s' \<and> (hp' = ex_parser x \<or> starting hp')"
    using assms(1,4) by (simp add: settings_ok_def)
  then have "parser_ok 0 hp" "U s" using assms(2) starting_parser_ok Inr b by auto
  then show ?thesis using Inr b assms(2-4)
    by (simp add: execute_eof_def callback_message_complete_def Let_def parser_updates)
qed

lemma execute_safe:
  assumes "settings_ok F U S" "hp_errno hp = HPE_OK \<longrightarrow> parser_ok 0 hp" "U s"
  shows "case http_parser_execute S d hp s of
      Inl f \<Rightarrow> F f
    | Inr (n, hp', s') \<Rightarrow> U s' \<and> (hp_errno hp' = HPE_OK \<longrightarrow> parser_ok 0 hp')
        \<and> (d \<noteq> [] \<longrightarrow> n \<le> length d \<and> (hp_errno hp' = HPE_OK \<longrightarrow> 1 \<le> n))"
proof (cases "hp_errno hp = HPE_OK")
  case False
  then show ?thesis using assms(3) by (simp add: http_parser_execute_def)
next
  case errno: True
  then have ok: "parser_ok 0 hp" using assms(2) by simp
  show ?thesis
  proof (cases "d = []")
    case True
    have "holds F (\<lambda>_. False) (\<lambda>n x. U (ex_user x) \<and> (hp_errno (ex_parser x) = HPE_OK \<longrightarrow> parser_ok 0 (ex_parser x)))
        (execute_eof S (start_execution hp s))"
      using ok errno assms(3) by (intro finished_eof [OF assms(1)]) (simp_all add: start_execution_def)
    then show ?thesis using True errno
      by (auto simp: http_parser_execute_def holds_def res_bind_def split: sum.splits control.splits)
  next
    case False
    have "finished F U d (execute_loop (length d) S d (start_execution hp s))"
      by (rule finished_loop [OF assms(1) False between_start [where U = U, OF ok errno assms(3)]]) simp
    then show ?thesis using False errno
      by (auto simp: http_parser_execute_def holds_def res_bind_def returned_def split: sum.splits control.splits)
  qed
qed

section \<open>The parser on any stream\<close>

text \<open>The stream arrives in pieces; after an error nothing more is read.\<close>

fun execute_pieces ::
  "'s http_parser_settings \<Rightarrow> string list \<Rightarrow> http_parser \<Rightarrow> 's \<Rightarrow> (http_parser \<times> 's) result" where
  "execute_pieces S [] hp s = Inr (hp, s)"
| "execute_pieces S (d # ds) hp s =
    res_bind (http_parser_execute S d hp s) (\<lambda>(n, hp, s). execute_pieces S ds hp s)"

lemma execute_pieces_safe:
  assumes "settings_ok F U S" "hp_errno hp = HPE_OK \<longrightarrow> parser_ok 0 hp" "U s"
  shows "case execute_pieces S ds hp s of
      Inl f \<Rightarrow> F f | Inr (hp', s') \<Rightarrow> U s' \<and> (hp_errno hp' = HPE_OK \<longrightarrow> parser_ok 0 hp')"
  using assms(2,3)
proof (induction ds arbitrary: hp s)
  case (Cons d ds)
  note safe = execute_safe [OF assms(1) Cons.prems, of d]
  show ?case
  proof (cases "http_parser_execute S d hp s")
    case (Inl f)
    then show ?thesis using safe by simp
  next
    case (Inr b)
    obtain n hp' s' where b: "b = (n, hp', s')" by (cases b)
    with safe Inr have "hp_errno hp' = HPE_OK \<longrightarrow> parser_ok 0 hp'" "U s'" by simp_all
    from Cons.IH [OF this] show ?thesis using Inr b by simp
  qed
qed simp

lemma parser_ok_init: "parser_ok 0 (http_parser_init t)"
  by (cases t) (simp_all add: http_parser_init_def parser_ok_def index_ok_def chunk_states_def)


text \<open>Callbacks that only note what they are given.\<close>

definition noting :: "(mark \<times> string) list http_parser_settings" where
  "noting = \<lparr>on_message_begin = \<lambda>hp s. Inr (0, s), on_data = \<lambda>m hp a n s. Inr (0, s @ [(m, take n a)]),
     on_headers_complete = \<lambda>hp s. Inr (0, s), on_message_complete = \<lambda>hp s. Inr (0, hp, s),
     on_chunk_header = \<lambda>hp s. Inr (0, s), on_chunk_complete = \<lambda>hp s. Inr (0, s)\<rparr>"

lemma noting_ok: "settings_ok (\<lambda>_. False) (\<lambda>_. True) noting"
  by (simp add: settings_ok_def noting_def callback_ok_def)


end
