(* ===== verification/Url_Properties.thy ===== *)
theory Url_Properties
  imports Url_Parser
begin

text \<open>
  What \<open>http_parser_parse_url\<close> guarantees: it never fails and its 16-bit ranges stay inside the
  URL when the URL is shorter than \<open>2\<^sup>1\<^sup>6\<close>; the request target that the encoder writes is split
  back into path, query and fragment.
\<close>

section \<open>Ranges\<close>

text \<open>
  A range that the current parse has set ends at most at \<open>p\<close>; one it has not set is what an
  earlier parse left, of which only the start is bounded (by \<open>N\<close>).
\<close>

definition ranges_ok :: "nat \<Rightarrow> nat \<Rightarrow> http_parser_url \<Rightarrow> bool" where
  "ranges_ok N p u \<longleftrightarrow> (\<forall>f. unat (uf_off (pu_field_data u f)) \<le> N
     \<and> (f \<in> pu_field_set u \<longrightarrow>
          unat (uf_off (pu_field_data u f)) + unat (uf_len (pu_field_data u f)) \<le> p))"

lemma unat_small [simp]: "n < 2 ^ 16 \<Longrightarrow> unat (of_nat n :: 16 word) = n"
  by (simp add: unat_of_nat take_bit_nat_eq_self)

lemma unat_succ_le: "unat (w + 1 :: 'a::len word) \<le> Suc (unat w)"
  by (simp add: unat_word_ariths)

lemma ranges_incr:
  assumes "ranges_ok N p u"
  shows "ranges_ok N (Suc p) (incr_len f u)"
  using assms unat_succ_le [of "uf_len (pu_field_data u f)"]
  by (fastforce simp: ranges_ok_def incr_len_def set_len_def)

lemma ranges_later: "ranges_ok N p u \<Longrightarrow> ranges_ok N (Suc p) u"
  by (fastforce simp: ranges_ok_def)

lemma ranges_new:
  assumes "ranges_ok N p u" "p < 2 ^ 16" "p \<le> N"
  shows "ranges_ok N (Suc p) (set_bit_of f (set_len f 1 (set_off f p u)))"
  using assms by (fastforce simp: ranges_ok_def set_bit_of_def set_len_def set_off_def)

lemma state_field_url: "s \<in> url_states \<Longrightarrow> \<not> is_delimiter_state s \<Longrightarrow> \<exists>uf. state_field s = Some uf"
  by (auto simp: url_states_def is_delimiter_state_def state_field_def)

lemma parse_url_loop_ok:
  assumes "ranges_ok N p u" "p + length cs < 2 ^ 16" "p + length cs \<le> N"
  shows "\<exists>ok at u'. parse_url_loop cs p s old at0 u = Inr (ok, at, u') \<and> ranges_ok N (p + length cs) u'"
  using assms
proof (induction cs p s old at0 u rule: parse_url_loop.induct)
  case (2 c cs p s old at0 u)
  define s' where "s' = parse_url_char s c"
  have all: "ranges_ok N (p + length (c # cs)) u"
    using "2.prems"(1) by (fastforce simp: ranges_ok_def)
  consider (dead) "s' = s_dead" | (delimiter) "s' \<noteq> s_dead" "is_delimiter_state s'"
    | (field) uf where "s' \<noteq> s_dead" "\<not> is_delimiter_state s'" "state_field s' = Some uf"
    using state_field_url parse_url_char_range [of s c] s'_def by blast
  then show ?case
  proof cases
    case dead
    then show ?thesis using all s'_def by simp blast
  next
    case delimiter
    then show ?thesis
      using "2.IH"(1) [OF s'_def delimiter ranges_later [OF "2.prems"(1)]] "2.prems"
      by (simp flip: s'_def)
  next
    case field
    have new: "ranges_ok N (Suc p) (set_bit_of uf (set_len uf 1 (set_off uf p u)))"
      using "2.prems" by (intro ranges_new) simp_all
    show ?thesis
      using "2.IH"(2) [OF s'_def field(1,2) field(3) refl _ ranges_incr [OF "2.prems"(1)]]
        "2.IH"(3) [OF s'_def field(1,2) field(3) refl _ new] "2.prems" field
      by (cases "old = Some uf") (simp_all add: Let_def flip: s'_def)
  qed
qed auto

text \<open>
  While the host is scanned up to \<open>p\<close>, its own ranges end at \<open>p\<close> at most, and the host
  is empty until its first character.
\<close>

definition host_inv :: "nat \<Rightarrow> nat \<Rightarrow> http_host_state \<Rightarrow> nat \<Rightarrow> http_parser_url \<Rightarrow> bool" where
  "host_inv N n s p u \<longleftrightarrow> ranges_ok N n u \<and> UF_HOST \<in> pu_field_set u
    \<and> (\<forall>f\<in>pu_field_set u \<inter> {UF_HOST, UF_PORT, UF_USERINFO}.
         unat (uf_off (pu_field_data u f)) + unat (uf_len (pu_field_data u f)) \<le> p)
    \<and> (s \<in> {s_http_userinfo_start, s_http_userinfo, s_http_host_start, s_http_host_v6_start}
         \<longrightarrow> uf_len (pu_field_data u UF_HOST) = 0)"

lemma host_inv_incr:
  assumes "host_inv N n s p u" "p < n" "f \<in> {UF_HOST, UF_PORT, UF_USERINFO}"
    and "f = UF_HOST \<Longrightarrow> s' \<notin> {s_http_userinfo_start, s_http_userinfo, s_http_host_start, s_http_host_v6_start}"
    and "s' \<in> {s_http_userinfo_start, s_http_userinfo, s_http_host_start, s_http_host_v6_start}
      \<Longrightarrow> uf_len (pu_field_data u UF_HOST) = 0"
  shows "host_inv N n s' (Suc p) (incr_len f u)"
proof -
  have "unat (uf_off (pu_field_data u f)) + unat (uf_len (pu_field_data u f) + 1) \<le> Suc p" if "f \<in> pu_field_set u"
  proof -
    have "unat (uf_off (pu_field_data u f)) + unat (uf_len (pu_field_data u f)) \<le> p"
      using assms(1,3) that unfolding host_inv_def by blast
    then show ?thesis using unat_succ_le [of "uf_len (pu_field_data u f)"] by linarith
  qed
  then show ?thesis using assms
    by (auto simp: host_inv_def ranges_ok_def incr_len_def set_len_def le_SucI intro: le_trans)
qed

lemma host_inv_start:
  assumes "host_inv N n s p u" "p < n" "n < 2 ^ 16" "n \<le> N"
  shows "host_inv N n s p (set_bit_of f (set_len f 0 (set_off f p u)))"
  using assms by (auto simp: host_inv_def ranges_ok_def set_len_def set_off_def set_bit_of_def)

lemma host_inv_offset:
  assumes "host_inv N n s p u" "p < n" "n < 2 ^ 16" "n \<le> N" "uf_len (pu_field_data u UF_HOST) = 0"
  shows "host_inv N n s p (set_off UF_HOST p u)"
  using assms by (auto simp: host_inv_def ranges_ok_def set_off_def)

lemma host_inv_next:
  assumes "host_inv N n s p u"
    and "s' \<in> {s_http_userinfo_start, s_http_userinfo, s_http_host_start, s_http_host_v6_start}
      \<Longrightarrow> uf_len (pu_field_data u UF_HOST) = 0"
  shows "host_inv N n s' (Suc p) u"
  using assms by (auto simp: host_inv_def le_SucI)

lemma host_inv_step:
  assumes "host_inv N n s p u" "p < n" "n < 2 ^ 16" "n \<le> N"
    and "s' = http_parse_host_char s c" "s' \<noteq> s_http_host_dead"
  shows "host_inv N n s' (Suc p) (host_fields s s' p u)"
proof -
  have zero: "uf_len (pu_field_data u UF_HOST) = 0"
    if "s \<in> {s_http_userinfo_start, s_http_userinfo, s_http_host_start, s_http_host_v6_start}"
    using assms(1) that by (auto simp: host_inv_def)
  note start = host_inv_start [OF assms(1-4)]
  have len: "pu_field_data (set_bit_of f (set_len f 0 (set_off f p u))) UF_HOST = pu_field_data u UF_HOST"
    if "f \<noteq> UF_HOST" for f
    using that by (simp add: set_bit_of_def set_len_def set_off_def)
  show ?thesis
    using assms(5,6) zero
    by (cases s)
      (auto simp: http_parse_host_char_def host_fields_def len split: if_splits
        intro!: host_inv_incr [OF _ assms(2)] host_inv_next [OF assms(1)]
        intro: assms(1) start host_inv_offset [OF assms(1-4)])
qed

lemma parse_host_loop_ok:
  assumes "host_inv N n s p u" "p + length cs \<le> n" "n < 2 ^ 16" "n \<le> N"
  shows "ranges_ok N n (snd (parse_host_loop cs p s u))"
  using assms
proof (induction cs p s u rule: parse_host_loop.induct)
  case (1 p s u)
  then show ?case by (simp add: host_inv_def)
next
  case (2 c cs p s u)
  define s' where "s' = http_parse_host_char s c"
  show ?case
  proof (cases "s' = s_http_host_dead")
    case True
    then show ?thesis using "2.prems"(1) by (simp add: host_inv_def flip: s'_def)
  next
    case False
    have "host_inv N n s' (Suc p) (host_fields s s' p u)"
      using "2.prems" s'_def False by (intro host_inv_step) simp_all
    from "2.IH" [OF s'_def False this] show ?thesis
      using "2.prems" False by (simp flip: s'_def)
  qed
qed

lemma state_field_host: "state_field s \<notin> {Some UF_PORT, Some UF_USERINFO}"
  by (simp add: state_field_def)

lemma parse_url_loop_fields:
  "parse_url_loop cs p s old at0 u = Inr (ok, at, u') \<Longrightarrow> pu_field_set u \<inter> {UF_PORT, UF_USERINFO} = {} \<Longrightarrow>
   pu_field_set u' \<inter> {UF_PORT, UF_USERINFO} = {}"
proof (induction cs p s old at0 u rule: parse_url_loop.induct)
  case (2 c cs p s old at0 u)
  then show ?case
    using state_field_host [of "parse_url_char s c"]
    by (auto simp: Let_def set_bit_of_def set_len_def set_off_def incr_len_def
        split: if_splits option.splits)
qed simp

lemma http_parse_host_ok:
  assumes "ranges_ok N n u" "UF_HOST \<in> pu_field_set u" "pu_field_set u \<inter> {UF_PORT, UF_USERINFO} = {}"
    and "n < 2 ^ 16" "n \<le> N"
  shows "\<exists>ok u'. http_parse_host buf at u = Inr (ok, u') \<and> ranges_ok N n u'"
proof -
  let ?off = "unat (uf_off (pu_field_data u UF_HOST))"
  let ?n = "unat (uf_len (pu_field_data u UF_HOST))"
  let ?s = "if at then s_http_userinfo_start else s_http_host_start"
  have le: "?off + ?n \<le> n" using assms(1,2) by (simp add: ranges_ok_def)
  have "host_inv N n ?s ?off (set_len UF_HOST 0 u)"
    using assms le by (auto simp: host_inv_def ranges_ok_def set_len_def)
  moreover have "?off + length (take ?n (drop ?off buf)) \<le> n" using le by simp
  ultimately have "ranges_ok N n (snd (parse_host_loop (take ?n (drop ?off buf)) ?off ?s (set_len UF_HOST 0 u)))"
    using assms(4,5) by (intro parse_host_loop_ok)
  then show ?thesis using assms(2) by (simp add: http_parse_host_def case_prod_beta Let_def)
qed

lemma parse_url_ok:
  assumes "\<And>f. unat (uf_off (pu_field_data u f)) \<le> N" "n \<le> length buf" "n < 2 ^ 16" "n \<le> N"
  shows "\<exists>ok u'. http_parser_parse_url buf n c u = Inr (ok, u') \<and> ranges_ok N n u'"
proof -
  define u0 where "u0 = u\<lparr>pu_port := 0, pu_field_set := {}\<rparr>"
  define s0 where "s0 = (if c then s_req_server_start else s_req_spaces_before_url)"
  have "ranges_ok N 0 u0" using assms(1) by (simp add: u0_def ranges_ok_def)
  then obtain ok at u1 where 1: "parse_url_loop (take n buf) 0 s0 None False u0 = Inr (ok, at, u1)" "ranges_ok N n u1"
    using parse_url_loop_ok [of N 0 u0 "take n buf" s0 None False] assms(2-4) by auto
  have fields: "pu_field_set u1 \<inter> {UF_PORT, UF_USERINFO} = {}"
    using parse_url_loop_fields [OF 1(1)] by (simp add: u0_def)
  obtain ok2 u2 where 2: "(if UF_HOST \<in> pu_field_set u1 then http_parse_host buf at u1 else Inr (True, u1)) = Inr (ok2, u2)"
    "ranges_ok N n u2"
    using http_parse_host_ok [OF 1(2) _ fields assms(3,4), of buf at] 1(2) by (cases "UF_HOST \<in> pu_field_set u1") auto
  have "ranges_ok N n (snd (parse_url_port buf u2))"
    using 2(2) by (simp add: parse_url_port_def ranges_ok_def Let_def)
  then show ?thesis
    using 1 2 by (cases "parse_url_port buf u2")
      (auto simp: http_parser_parse_url_def Let_def simp flip: u0_def s0_def)
qed

section \<open>The request target\<close>

text \<open>The field a URL gets from a run of characters that stays in one state.\<close>

definition new_field :: "url_field \<Rightarrow> nat \<Rightarrow> nat \<Rightarrow> http_parser_url \<Rightarrow> http_parser_url" where
  "new_field f p n u = set_bit_of f (set_len f (of_nat n) (set_off f p u))"

lemma incr_new_field: "incr_len f (new_field f p n u) = new_field f p (Suc n) u"
  by (cases u) (simp add: incr_len_def new_field_def set_bit_of_def set_len_def set_off_def add.commute)

lemma url_run:
  assumes "\<forall>c\<in>set cs. parse_url_char s c = s" "s \<noteq> s_dead" "\<not> is_delimiter_state s" "state_field s = Some f"
    and "s \<noteq> s_req_server_with_at"
  shows "parse_url_loop (cs @ rest) p s (Some f) at (new_field f a n u)
    = parse_url_loop rest (p + length cs) s (Some f) at (new_field f a (n + length cs) u)"
  using assms(1) by (induction cs arbitrary: p n) (simp_all add: assms(2-5) incr_new_field)

lemma url_field_run:
  assumes "parse_url_char s0 c = s" "\<forall>c\<in>set cs. parse_url_char s c = s" "s \<noteq> s_dead" "\<not> is_delimiter_state s"
    and "state_field s = Some f" "s \<noteq> s_req_server_with_at" "old \<noteq> Some f"
  shows "parse_url_loop (c # cs @ rest) p s0 old at u
    = parse_url_loop rest (p + length (c # cs)) s (Some f) at (new_field f p (length (c # cs)) u)"
  using url_run [OF assms(2-6), of rest "Suc p" at p 1 u] assms
  by (simp add: Let_def new_field_def)

definition url_char_ok :: "char \<Rightarrow> bool" where
  "url_char_ok c \<longleftrightarrow> IS_URL_CHAR c \<or> c = CHR ''?''"

text \<open>
  A path, a query and a fragment that can stand in a target: the path is absolute or a star, the
  fragment does not begin with another number sign.
\<close>

definition target_ok :: "string \<Rightarrow> string \<Rightarrow> string \<Rightarrow> bool" where
  "target_ok path query fragment \<longleftrightarrow>
     (path = [] \<or> (hd path = CHR ''/'' \<or> hd path = CHR ''*'') \<and> list_all IS_URL_CHAR path)
     \<and> list_all url_char_ok query
     \<and> list_all (\<lambda>c. url_char_ok c \<or> c = CHR ''#'') fragment \<and> (fragment \<noteq> [] \<longrightarrow> hd fragment \<noteq> CHR ''#'')"

definition target_text :: "string \<Rightarrow> string \<Rightarrow> string \<Rightarrow> string" where
  "target_text path query fragment = path @ (if query \<noteq> [] then CHR ''?'' # query else [])
     @ (if fragment \<noteq> [] then CHR ''#'' # fragment else [])"

lemma url_char_plain:
  assumes "IS_URL_CHAR c"
  shows "c \<notin> {CHR '' '', CR, LF, HT, CHR 0x0C}" "c \<noteq> CHR ''?''" "c \<noteq> CHR ''#''"
  using assms by (auto simp: IS_URL_CHAR_def)

lemma path_char: "IS_URL_CHAR c \<Longrightarrow> parse_url_char s_req_path c = s_req_path"
  using url_char_plain [of c] by (simp add: parse_url_char_def)

lemma query_char:
  "url_char_ok c \<Longrightarrow> s \<in> {s_req_query_string_start, s_req_query_string} \<Longrightarrow> parse_url_char s c = s_req_query_string"
  using url_char_plain(1) [of c] by (elim insertE) (auto simp: parse_url_char_def parse_url_query_def url_char_ok_def)

lemma fragment_char:
  "url_char_ok c \<Longrightarrow> parse_url_char s_req_fragment_start c = s_req_fragment"
  "url_char_ok c \<Longrightarrow> parse_url_char s_req_fragment c = s_req_fragment"
  "parse_url_char s_req_fragment CHR ''#'' = s_req_fragment"
  using url_char_plain(1) [of c] by (auto simp: parse_url_char_def url_char_ok_def)

lemma fragment_loop:
  assumes "list_all (\<lambda>c. url_char_ok c \<or> c = CHR ''#'') frag" "frag \<noteq> []" "hd frag \<noteq> CHR ''#''" "old \<noteq> Some UF_FRAGMENT"
    and "s \<in> {s_req_path, s_req_query_string}"
  shows "parse_url_loop (CHR ''#'' # frag) p s old at u
    = Inr (True, at, new_field UF_FRAGMENT (Suc p) (length frag) u)"
proof -
  obtain c cs where frag: "frag = c # cs" using assms(2) by (cases frag) auto
  have d: "parse_url_char s CHR ''#'' = s_req_fragment_start"
    using assms(5) by (auto simp: parse_url_char_def parse_url_query_def IS_URL_CHAR_def)
  have "\<forall>c\<in>set cs. parse_url_char s_req_fragment c = s_req_fragment"
    using assms(1) frag fragment_char by (auto simp: list_all_iff)
  moreover have "parse_url_char s_req_fragment_start c = s_req_fragment"
    using assms(1,3) frag by (auto intro!: fragment_char)
  ultimately show ?thesis
    using url_field_run [of s_req_fragment_start c s_req_fragment cs UF_FRAGMENT old "[]" "Suc p" at u] assms(4)
    by (simp add: d frag is_delimiter_state_def state_field_def)
qed

lemma query_loop:
  assumes "list_all url_char_ok query" "query \<noteq> []" "old \<noteq> Some UF_QUERY"
  shows "parse_url_loop (CHR ''?'' # query @ rest) p s_req_path old at u
    = parse_url_loop rest (Suc p + length query) s_req_query_string (Some UF_QUERY) at
        (new_field UF_QUERY (Suc p) (length query) u)"
proof -
  obtain c cs where query: "query = c # cs" using assms(2) by (cases query) auto
  have d: "parse_url_char s_req_path CHR ''?'' = s_req_query_string_start"
    by (simp add: parse_url_char_def IS_URL_CHAR_def)
  have "\<forall>c\<in>set cs. parse_url_char s_req_query_string c = s_req_query_string"
    "parse_url_char s_req_query_string_start c = s_req_query_string"
    using assms(1) query query_char by (auto simp: list_all_iff)
  then show ?thesis
    using url_field_run [of s_req_query_string_start c s_req_query_string cs UF_QUERY old rest "Suc p" at u] assms(3)
    by (simp add: d query is_delimiter_state_def state_field_def)
qed

definition target_fields :: "string \<Rightarrow> string \<Rightarrow> string \<Rightarrow> http_parser_url \<Rightarrow> http_parser_url" where
  "target_fields path query fragment u =
    (let u = new_field UF_PATH 0 (length path) u;
         n = length path;
         u = (if query \<noteq> [] then new_field UF_QUERY (Suc n) (length query) u else u);
         n = n + (if query \<noteq> [] then Suc (length query) else 0)
     in if fragment \<noteq> [] then new_field UF_FRAGMENT (Suc n) (length fragment) u else u)"

lemma target_loop:
  assumes "target_ok path query fragment" "path \<noteq> []" "parse_url_char s0 (hd path) = s_req_path"
  shows "parse_url_loop (target_text path query fragment) 0 s0 None at u
    = Inr (True, at, target_fields path query fragment u)"
proof -
  obtain c cs where path: "path = c # cs" using assms(2) by (cases path) auto
  have "parse_url_char s0 c = s_req_path" using assms(3) path by simp
  moreover have "\<forall>c\<in>set cs. parse_url_char s_req_path c = s_req_path"
    using assms(1) path path_char by (auto simp: target_ok_def list_all_iff)
  ultimately have run: "parse_url_loop (path @ rest) 0 s0 None at u
      = parse_url_loop rest (length path) s_req_path (Some UF_PATH) at (new_field UF_PATH 0 (length path) u)" for rest
    using url_field_run [of s0 c s_req_path cs UF_PATH None rest 0 at u]
    by (simp add: path is_delimiter_state_def state_field_def)
  note [simp del] = parse_url_loop.simps(2)
  have q: "list_all url_char_ok query" and f: "list_all (\<lambda>c. url_char_ok c \<or> c = CHR ''#'') fragment"
    "fragment \<noteq> [] \<Longrightarrow> hd fragment \<noteq> CHR ''#''"
    using assms(1) by (simp_all add: target_ok_def)
  show ?thesis
  proof (cases "query = []")
    case True
    then show ?thesis using fragment_loop [OF f(1) _ f(2)] run [of "[]"]
      by (cases "fragment = []") (simp_all add: target_text_def target_fields_def run)
  next
    case False
    note query = query_loop [OF q False, of "Some UF_PATH"]
    from query [of "[]"] query show ?thesis using False fragment_loop [OF f(1) _ f(2)]
      by (cases "fragment = []") (simp_all add: target_text_def target_fields_def run Let_def)
  qed
qed

lemma target_fields_ranges:
  "pu_field_data (target_fields path query fragment u) UF_PATH = \<lparr>uf_off = 0, uf_len = of_nat (length path)\<rparr>"
  "query \<noteq> [] \<Longrightarrow> pu_field_data (target_fields path query fragment u) UF_QUERY
     = \<lparr>uf_off = of_nat (Suc (length path)), uf_len = of_nat (length query)\<rparr>"
  "fragment \<noteq> [] \<Longrightarrow> pu_field_data (target_fields path query fragment u) UF_FRAGMENT
     = \<lparr>uf_off = of_nat (Suc (length path + (if query \<noteq> [] then Suc (length query) else 0))), uf_len = of_nat (length fragment)\<rparr>"
  by (simp_all add: target_fields_def Let_def new_field_def set_bit_of_def set_len_def set_off_def)

lemma target_fields_set:
  "pu_field_set (target_fields path query fragment u) = {UF_PATH} \<union> (if query \<noteq> [] then {UF_QUERY} else {})
     \<union> (if fragment \<noteq> [] then {UF_FRAGMENT} else {}) \<union> pu_field_set u"
  "pu_port (target_fields path query fragment u) = pu_port u"
  by (auto simp: target_fields_def Let_def new_field_def set_bit_of_def set_len_def set_off_def)

text \<open>
  A target read as such, and one read as the address of a \<open>CONNECT\<close>, which fails for want of
  a host and a port.
\<close>

definition cleared_url :: "http_parser_url \<Rightarrow> http_parser_url" where
  "cleared_url u = u\<lparr>pu_port := 0, pu_field_set := {}\<rparr>"

lemma parse_target:
  assumes "target_ok path query fragment" "path \<noteq> []"
  shows "http_parser_parse_url (target_text path query fragment @ rest)
      (length (target_text path query fragment)) False u
    = Inr (True, target_fields path query fragment (cleared_url u))"
    and "hd path = CHR ''/'' \<Longrightarrow> http_parser_parse_url (target_text path query fragment @ rest)
      (length (target_text path query fragment)) True u
    = Inr (False, target_fields path query fragment (cleared_url u))"
proof -
  let ?u = "target_fields path query fragment (cleared_url u)"
  have set: "pu_field_set ?u = {UF_PATH} \<union> (if query \<noteq> [] then {UF_QUERY} else {})
        \<union> (if fragment \<noteq> [] then {UF_FRAGMENT} else {})"
    by (simp add: target_fields_set cleared_url_def)
  then have no: "UF_SCHEMA \<notin> pu_field_set ?u" "UF_HOST \<notin> pu_field_set ?u" "UF_PORT \<notin> pu_field_set ?u"
    "pu_field_set ?u \<noteq> {UF_HOST, UF_PORT}"
    by (auto split: if_splits)
  have "parse_url_char s_req_spaces_before_url (hd path) = s_req_path"
    using assms by (auto simp: target_ok_def parse_url_char_def)
  note loop = target_loop [OF assms this, of False "cleared_url u", unfolded cleared_url_def]
  show "http_parser_parse_url (target_text path query fragment @ rest)
      (length (target_text path query fragment)) False u = Inr (True, ?u)"
    using no by (simp add: http_parser_parse_url_def parse_url_port_def Let_def loop cleared_url_def)
  assume "hd path = CHR ''/''"
  then have "parse_url_char s_req_server_start (hd path) = s_req_path"
    by (simp add: parse_url_char_def parse_url_server_def)
  note loop = target_loop [OF assms this, of False "cleared_url u", unfolded cleared_url_def]
  show "http_parser_parse_url (target_text path query fragment @ rest)
      (length (target_text path query fragment)) True u = Inr (False, ?u)"
    using no by (simp add: http_parser_parse_url_def Let_def loop cleared_url_def)
qed

section \<open>Properties\<close>

text \<open>
  C27: splitting a URL never fails an assertion, whatever the bytes are and whatever an earlier
  call has left in the structure, and it reads no byte outside the URL except for the digits of a
  port: if the URL is shorter than \<open>2\<^sup>1\<^sup>6\<close> bytes, the range of every field it sets lies
  inside the URL, and so does the start of every stale range that did before.
\<close>

theorem parse_url_in_bounds:
  assumes "\<forall>f. unat (uf_off (pu_field_data u f)) \<le> N" "n \<le> length buf" "n < 2 ^ 16" "n \<le> N"
  shows "\<exists>ok u'. http_parser_parse_url buf n is_connect u = Inr (ok, u')
    \<and> pu_field_set u' \<subseteq> {f. unat (uf_off (pu_field_data u' f)) + unat (uf_len (pu_field_data u' f)) \<le> n}
    \<and> (\<forall>f. unat (uf_off (pu_field_data u' f)) \<le> N)"
proof -
  obtain ok u' where "http_parser_parse_url buf n is_connect u = Inr (ok, u')" "ranges_ok N n u'"
    using parse_url_ok [of u N n buf is_connect] assms by blast
  then show ?thesis by (auto simp: ranges_ok_def)
qed

lemma parse_url_in_bounds_witness:
  "\<exists>ok u'. http_parser_parse_url ''http://u@h:81/p?q#f'' 19 False http_parser_url_init = Inr (ok, u')
    \<and> pu_field_set u' \<subseteq> {f. unat (uf_off (pu_field_data u' f)) + unat (uf_len (pu_field_data u' f)) \<le> 19}
    \<and> (\<forall>f. unat (uf_off (pu_field_data u' f)) \<le> 19)"
  by (rule parse_url_in_bounds) (simp_all add: http_parser_url_init_def)

text \<open>
  A request target of path, query and fragment is split into exactly these parts: every
  other field is unset, and no port is found.
\<close>

lemma target_roundtrip:
  assumes "target_ok path query fragment" "path \<noteq> []" "length (target_text path query fragment) < 2 ^ 16"
  shows "\<exists>u'. http_parser_parse_url (target_text path query fragment @ rest)
      (length (target_text path query fragment)) False u = Inr (True, u')
    \<and> pu_port u' = 0
    \<and> pu_field_set u' = {UF_PATH} \<union> (if query \<noteq> [] then {UF_QUERY} else {})
        \<union> (if fragment \<noteq> [] then {UF_FRAGMENT} else {})
    \<and> field_text (target_text path query fragment) u' UF_PATH = path
    \<and> (query = [] \<or> field_text (target_text path query fragment) u' UF_QUERY = query)
    \<and> (fragment = [] \<or> field_text (target_text path query fragment) u' UF_FRAGMENT = fragment)"
proof -
  define t where "t = target_text path query fragment"
  define u' where "u' = target_fields path query fragment (cleared_url u)"
  have set: "pu_field_set u' = {UF_PATH} \<union> (if query \<noteq> [] then {UF_QUERY} else {})
        \<union> (if fragment \<noteq> [] then {UF_FRAGMENT} else {})" "pu_port u' = 0"
    by (simp_all add: u'_def cleared_url_def target_fields_set)
  have "http_parser_parse_url (t @ rest) (length t) False u = Inr (True, u')"
    unfolding t_def u'_def by (rule parse_target [OF assms(1,2)])
  moreover have "field_text t u' UF_PATH = path"
    using assms(3) by (simp add: u'_def t_def field_text_def target_text_def target_fields_ranges)
  moreover have "field_text t u' UF_QUERY = query" if "query \<noteq> []"
    using assms(3) that by (simp add: u'_def t_def field_text_def target_text_def target_fields_ranges
        del: of_nat_Suc of_nat_add)
  moreover have "field_text t u' UF_FRAGMENT = fragment" if "fragment \<noteq> []"
    using assms(3) that by (cases "query = []")
      (simp_all add: u'_def t_def field_text_def target_text_def target_fields_ranges
        del: of_nat_Suc of_nat_add)
  ultimately show ?thesis using set unfolding t_def by blast
qed

lemma target_roundtrip_witness:
  "\<exists>u'. http_parser_parse_url (''/a/b?x=1#top'' @ '' HTTP/1.1'') (length ''/a/b?x=1#top'') False http_parser_url_init = Inr (True, u')
    \<and> field_text ''/a/b?x=1#top'' u' UF_QUERY = ''x=1''"
proof -
  have ok: "target_ok ''/a/b'' ''x=1'' ''top''" by code_simp
  have t: "target_text ''/a/b'' ''x=1'' ''top'' = ''/a/b?x=1#top''" by (simp add: target_text_def)
  show ?thesis
    using target_roundtrip [OF ok, of "'' HTTP/1.1''" http_parser_url_init, unfolded t] by auto
qed

end
