(* ===== verification/Http_Encoder.thy ===== *)
theory Http_Encoder
  imports Http_Message
begin

text \<open>
  The encoding half of \<open>http_codec\<close> (\<open>src/src/http/http_codec.h\<close> and
  \<open>http_codec.cpp\<close>): header, body pieces, trailers and end of message, with the state
  machine its assertions enforce.  The reference is a decoder of the chunked transfer coding:
  what the encoder writes for a sequence of body pieces decodes to their concatenation.
\<close>

section \<open>The encoder\<close>

datatype encoder_state = ZERO | HEADER | BODY | TRAILER

record http_encoder =
  enc_chunked :: bool
  enc_state :: encoder_state

definition http_encoder_new :: http_encoder where
  "http_encoder_new = \<lparr>enc_chunked = False, enc_state = ZERO\<rparr>"

text \<open>
  \<open>encode_header\<close> is a template over the message class, whose \<open>serialize\<close> it calls;
  the member function is an argument.
\<close>

definition encode_header ::
  "('a http_structured_data_scheme \<Rightarrow> string result) \<Rightarrow> 'a http_structured_data_scheme
   \<Rightarrow> http_encoder \<Rightarrow> (string \<times> http_encoder) result" where
  "encode_header serialize msg c =
    assert_that (enc_state c = ZERO)
      (res_bind (serialize msg)
        (\<lambda>s. Inr (s, c\<lparr>enc_state := HEADER, enc_chunked := sd_chunked msg\<rparr>)))"

definition encode_body :: "string \<Rightarrow> http_encoder \<Rightarrow> (string \<times> http_encoder) result" where
  "encode_body data c =
    assert_that (enc_state c = HEADER \<or> enc_state c = BODY)
      (let c = c\<lparr>enc_state := BODY\<rparr> in
       if data = [] then Inr ([], c)
       else Inr (if enc_chunked c
                 then from_size_t (of_nat (length data)) @ crlf @ data @ crlf
                 else data, c))"

definition encode_trailer :: "string \<Rightarrow> string \<Rightarrow> http_encoder \<Rightarrow> (string \<times> http_encoder) result" where
  "encode_trailer key data c =
    assert_that (enc_state c = BODY \<or> enc_state c = TRAILER)
      (Inr (transfer_chunked_termination @ key @ colon_space @ data @ crlf,
            c\<lparr>enc_state := TRAILER\<rparr>))"

definition encode_eom :: "http_encoder \<Rightarrow> (string \<times> http_encoder) result" where
  "encode_eom c =
    assert_that (enc_state c \<noteq> ZERO)
      (Inr (if enc_chunked c
            then (case enc_state c of
                    HEADER \<Rightarrow> transfer_chunked_termination @ crlf
                  | BODY \<Rightarrow> transfer_chunked_termination @ crlf
                  | TRAILER \<Rightarrow> crlf
                  | ZERO \<Rightarrow> [])
            else [],
            c\<lparr>enc_state := ZERO\<rparr>))"

text \<open>The sequences of calls the handlers make: pieces of a body, then trailers.\<close>

fun encode_bodies :: "string list \<Rightarrow> http_encoder \<Rightarrow> (string \<times> http_encoder) result" where
  "encode_bodies [] c = Inr ([], c)"
| "encode_bodies (d # ds) c = res_bind (encode_body d c)
    (\<lambda>(s, c). res_bind (encode_bodies ds c) (\<lambda>(t, c). Inr (s @ t, c)))"

fun encode_trailers :: "(string \<times> string) list \<Rightarrow> http_encoder \<Rightarrow> (string \<times> http_encoder) result" where
  "encode_trailers [] c = Inr ([], c)"
| "encode_trailers (t # ts) c = res_bind (encode_trailer (fst t) (snd t) c)
    (\<lambda>(s, c). res_bind (encode_trailers ts c) (\<lambda>(t, c). Inr (s @ t, c)))"

definition encode_content ::
  "string list \<Rightarrow> (string \<times> string) list \<Rightarrow> http_encoder \<Rightarrow> (string \<times> http_encoder) result" where
  "encode_content ds ts c = res_bind (encode_bodies ds c)
    (\<lambda>(b, c). res_bind (encode_trailers ts c)
      (\<lambda>(t, c). res_bind (encode_eom c) (\<lambda>(e, c). Inr (b @ t @ e, c))))"

section \<open>Reference decoder of the chunked coding\<close>

text \<open>
  A chunk is its length in hexadecimal, CRLF, the bytes, CRLF.  The chunk of length zero is
  followed by trailer fields and an empty line.
\<close>

function dechunk :: "string \<Rightarrow> (string \<times> (string \<times> string) list \<times> string) option" where
  "dechunk s = (case read_line s of
     None \<Rightarrow> None
   | Some (l, rest) \<Rightarrow>
      (case read_base 16 0 l of
         None \<Rightarrow> None
       | Some n \<Rightarrow>
          if l = [] then None
          else if n = 0 then map_option (Pair []) (read_fields rest)
          else if take 2 (drop n rest) = crlf
          then map_option (\<lambda>(d, x). (take n rest @ d, x)) (dechunk (drop (n + 2) rest))
          else None))"
  by pat_completeness auto
termination
  by (relation "measure length") (auto dest: read_line_shorter)

declare dechunk.simps [simp del]

lemma hex_no_cr: "CHR 0x0D \<notin> set (to_hex n)"
proof -
  have "\<not> is_digit_of 16 (CHR 0x0D)" by code_simp
  then show ?thesis using digits_to_hex [of n] by (auto simp: list_all_iff)
qed

lemma from_size_t_length:
  "length d < 2 ^ 64 \<Longrightarrow> from_size_t (of_nat (length d)) = to_hex (length d)"
  by (simp add: from_size_t_def unat_of_nat take_bit_nat_eq_self)

lemma dechunk_chunk:
  assumes "d \<noteq> []" "length d < 2 ^ 64"
  shows "dechunk (from_size_t (of_nat (length d)) @ crlf @ d @ crlf @ rest) =
    map_option (\<lambda>(e, x). (d @ e, x)) (dechunk rest)"
proof -
  have line: "read_line (to_hex (length d) @ crlf @ d @ crlf @ rest) = Some (to_hex (length d), d @ crlf @ rest)"
    by (rule read_line_append) (rule hex_no_cr)
  have after: "take 2 (drop (length d) (d @ crlf @ rest)) = crlf"
    "drop (Suc (Suc (length d))) (d @ crlf @ rest) = rest" "take (length d) (d @ crlf @ rest) = d"
    by (simp_all add: crlf_def)
  show ?thesis
    unfolding from_size_t_length [OF assms(2)]
    by (subst dechunk.simps) (simp add: line after read_to_hex assms(1) del: drop_append take_append)
qed

lemma dechunk_end:
  "dechunk (transfer_chunked_termination @ rest) = map_option (Pair []) (read_fields rest)"
proof -
  have "read_line (''0'' @ crlf @ rest) = Some (''0'', rest)"
    by (rule read_line_append) simp
  moreover have "read_base 16 0 ''0'' = Some 0" by code_simp
  ultimately show ?thesis
    by (subst dechunk.simps) (simp add: transfer_chunked_termination_def crlf_def)
qed

section \<open>Lemmas on the encoder\<close>

lemma encode_body_ok:
  "enc_state c \<in> {HEADER, BODY} \<Longrightarrow>
   encode_body d c = Inr (if d = [] then [] else if enc_chunked c
      then from_size_t (of_nat (length d)) @ crlf @ d @ crlf else d, c\<lparr>enc_state := BODY\<rparr>)"
  by (auto simp: encode_body_def Let_def)

lemma encode_bodies_state:
  "enc_state c \<in> {HEADER, BODY} \<Longrightarrow> \<exists>s. encode_bodies ds c =
    Inr (s, c\<lparr>enc_state := if ds = [] then enc_state c else BODY\<rparr>)"
proof (induction ds arbitrary: c)
  case (Cons d ds)
  then show ?case
    using Cons.IH [of "c\<lparr>enc_state := BODY\<rparr>"] by (auto simp: encode_body_ok)
qed simp

lemma encode_bodies_chunked:
  assumes "enc_state c \<in> {HEADER, BODY}" "enc_chunked c" "\<forall>d\<in>set ds. length d < 2 ^ 64"
    "encode_bodies ds c = Inr (s, c')"
  shows "dechunk (s @ rest) = map_option (\<lambda>(e, x). (concat ds @ e, x)) (dechunk rest)"
  using assms
proof (induction ds arbitrary: c s)
  case (Cons d ds)
  let ?c = "c\<lparr>enc_state := BODY\<rparr>"
  obtain t where t: "encode_bodies ds ?c = Inr (t, c')"
    and s: "s = (if d = [] then [] else from_size_t (of_nat (length d)) @ crlf @ d @ crlf) @ t"
    using Cons.prems by (auto simp: encode_body_ok res_bind_eq_Inr split: if_splits)
  have "dechunk (t @ rest) = map_option (\<lambda>(e, x). (concat ds @ e, x)) (dechunk rest)"
    using Cons.IH [OF _ _ _ t] Cons.prems by simp
  then show ?case
    using s Cons.prems(3) dechunk_chunk [of d "t @ rest"]
    by (auto simp: option.map_comp comp_def case_prod_unfold)
qed (simp add: case_prod_unfold option.map_ident)

lemma encode_bodies_identity:
  assumes "enc_state c \<in> {HEADER, BODY}" "\<not> enc_chunked c" "encode_bodies ds c = Inr (s, c')"
  shows "s = concat ds"
  using assms
proof (induction ds arbitrary: c s)
  case (Cons d ds)
  then show ?case
    using Cons.IH [of "c\<lparr>enc_state := BODY\<rparr>"]
    by (auto simp: encode_body_ok res_bind_eq_Inr split: if_splits)
qed simp

section \<open>Properties\<close>

text \<open>
  C20: a chunked body decodes to what was encoded.  After the header of a chunked message, any
  sequence of body pieces (empty ones included), at most one trailer (with a body before it)
  and the end of message yield, whatever follows on the wire, exactly the concatenated bytes
  and the trailer for a decoder of the chunked coding; the encoder is ready for the next message.
\<close>

theorem chunked_roundtrip:
  assumes "enc_state c = HEADER" "enc_chunked c" "\<forall>d\<in>set ds. length d < 2 ^ 64"
    and "ts = [] \<or> (\<exists>k v. ts = [(k, v)] \<and> ds \<noteq> [] \<and> CHR '':'' \<notin> set k \<and> CHR 0x0D \<notin> set k \<and> CHR 0x0D \<notin> set v)"
  shows "\<exists>out. encode_content ds ts c = Inr (out, c\<lparr>enc_state := ZERO\<rparr>)
    \<and> dechunk (out @ rest) = Some (concat ds, ts, rest)"
proof -
  obtain b where b: "encode_bodies ds c = Inr (b, c\<lparr>enc_state := if ds = [] then HEADER else BODY\<rparr>)"
    using encode_bodies_state [of c ds] assms(1) by auto
  have dec: "dechunk (b @ r) = map_option (\<lambda>(e, x). (concat ds @ e, x)) (dechunk r)" for r
    using encode_bodies_chunked [OF _ assms(2,3) b] assms(1) by simp
  have fields: "read_fields (crlf @ rest) = Some ([], rest)"
    using read_fields_lines [of "[]" rest] by simp
  from assms(4) show ?thesis
  proof
    assume "ts = []"
    then show ?thesis
      using b dec [of "transfer_chunked_termination @ crlf @ rest"] assms(2) fields
      by (auto simp: encode_content_def encode_eom_def dechunk_end)
  next
    assume "\<exists>k v. ts = [(k, v)] \<and> ds \<noteq> [] \<and> CHR '':'' \<notin> set k \<and> CHR 0x0D \<notin> set k \<and> CHR 0x0D \<notin> set v"
    then obtain k v where ts: "ts = [(k, v)]" "ds \<noteq> []"
      "CHR '':'' \<notin> set k" "CHR 0x0D \<notin> set k" "CHR 0x0D \<notin> set v" by blast
    then have "read_fields (k @ colon_space @ v @ crlf @ crlf @ rest) = Some ([(k, v)], rest)"
      using read_fields_lines [of "[(k, v)]" rest] by simp
    then show ?thesis
      using b ts dec [of "transfer_chunked_termination @ k @ colon_space @ v @ crlf @ crlf @ rest"] assms(2)
      by (auto simp: encode_content_def encode_trailer_def encode_eom_def dechunk_end)
  qed
qed

theorem chunked_roundtrip_witness:
  "\<exists>out. encode_content [''ab'', [], ''c''] [(''t'', ''1'')] \<lparr>enc_chunked = True, enc_state = HEADER\<rparr>
      = Inr (out, \<lparr>enc_chunked = True, enc_state = ZERO\<rparr>)
    \<and> dechunk (out @ ''next'') = Some (''abc'', [(''t'', ''1'')], ''next'')"
  using chunked_roundtrip [of "\<lparr>enc_chunked = True, enc_state = HEADER\<rparr>" "[''ab'', [], ''c'']"
      "[(''t'', ''1'')]" "''next''"]
  by simp

text \<open>
  A body that is not chunked is passed through unchanged: the pieces are written one after
  the other, and neither the pieces nor the end of message add a byte.
\<close>

theorem identity_encoding:
  assumes "enc_state c = HEADER" "\<not> enc_chunked c"
  shows "encode_content ds [] c = Inr (concat ds, c\<lparr>enc_state := ZERO\<rparr>)"
proof -
  obtain b where b: "encode_bodies ds c = Inr (b, c\<lparr>enc_state := if ds = [] then HEADER else BODY\<rparr>)"
    using encode_bodies_state [of c ds] assms(1) by auto
  then show ?thesis
    using encode_bodies_identity [OF _ assms(2) b] assms
    by (simp add: encode_content_def encode_eom_def)
qed

theorem identity_encoding_witness:
  "encode_content [''ab'', ''c''] [] \<lparr>enc_chunked = False, enc_state = HEADER\<rparr>
    = Inr (''abc'', \<lparr>enc_chunked = False, enc_state = ZERO\<rparr>)"
  using identity_encoding [of "\<lparr>enc_chunked = False, enc_state = HEADER\<rparr>" "[''ab'', ''c'']"] by simp

text \<open>
  Two trailers corrupt the message.  Every call of \<open>encode_trailer\<close> writes the
  terminating chunk again, so the output for two (or more) trailers is no chunked body at all:
  the decoder rejects it.
\<close>

theorem two_trailers_rejected:
  assumes "enc_state c = HEADER" "enc_chunked c" "\<forall>d\<in>set ds. length d < 2 ^ 64" "ds \<noteq> []"
    and "CHR '':'' \<notin> set k" "CHR 0x0D \<notin> set k" "CHR 0x0D \<notin> set v"
  shows "\<exists>out c'. encode_content ds ((k, v) # t # ts) c = Inr (out, c') \<and> dechunk out = None"
proof -
  obtain b where b: "encode_bodies ds c = Inr (b, c\<lparr>enc_state := BODY\<rparr>)"
    using encode_bodies_state [of c ds] assms(1,4) by auto
  have trailers: "\<exists>u. encode_trailers us (c'\<lparr>enc_state := TRAILER\<rparr>) = Inr (u, c'\<lparr>enc_state := TRAILER\<rparr>)" for us c'
    by (induction us) (auto simp: encode_trailer_def)
  obtain u where u: "encode_trailers ts (c\<lparr>enc_state := TRAILER\<rparr>) = Inr (u, c\<lparr>enc_state := TRAILER\<rparr>)"
    using trailers by blast
  let ?t = "fst t @ colon_space @ snd t @ crlf @ u @ crlf"
  let ?x = "(k @ colon_space @ v) @ crlf @ ''0'' @ crlf @ ?t"
  have out: "encode_content ds ((k, v) # t # ts) c =
      Inr (b @ transfer_chunked_termination @ ?x, c\<lparr>enc_state := ZERO\<rparr>)"
    using b u assms(2)
    by (simp add: encode_content_def encode_trailer_def encode_eom_def
        transfer_chunked_termination_def crlf_def)
  have "CHR 0x0D \<notin> set (k @ colon_space @ v)" using assms(6,7) by (auto simp: colon_space_def)
  then have "read_line ?x = Some (k @ colon_space @ v, ''0'' @ crlf @ ?t)"
    by (rule read_line_append)
  moreover have "read_line (''0'' @ crlf @ ?t) = Some (''0'', ?t)" by (rule read_line_append) simp
  moreover have "read_field ''0'' = None" by code_simp
  ultimately have "read_fields ?x = None"
    using read_field_append [OF assms(5), of v]
    by (subst read_fields.simps, simp only: option.case prod.case, subst read_fields.simps)
      (simp add: colon_space_def)
  then show ?thesis
    using out encode_bodies_chunked [OF _ assms(2,3) b, of "transfer_chunked_termination @ ?x"] assms(1)
    by (simp add: dechunk_end del: append_assoc)
qed

theorem two_trailers_rejected_witness:
  "\<exists>out c'. encode_content [''ab''] [(''a'', ''1''), (''b'', ''2'')] \<lparr>enc_chunked = True, enc_state = HEADER\<rparr>
      = Inr (out, c') \<and> dechunk out = None"
  using two_trailers_rejected [of "\<lparr>enc_chunked = True, enc_state = HEADER\<rparr>" "[''ab'']" "''a''" "''1''"
      "(''b'', ''2'')" "[]"]
  by simp

end
