(* ===== verification/Http_Codec.thy ===== *)
theory Http_Codec
  imports Parser_Safety Url_Properties Http_Encoder
begin

text \<open>
  The decoding half of \<open>http_codec\<close>: the callbacks of \<open>src/src/http/http_codec_impl.h\<close>
  that the parser makes, and \<open>decode\<close> of \<open>src/src/http/http_codec.cpp\<close>, which feeds it.
  The object the codec fills in belongs to its client, the handler: \<open>_data\<close> is a pointer to
  it, of which the codec's state only says whether it is null.
\<close>

section \<open>State\<close>

record codec_impl =
  ci_data :: bool
  ci_version :: proto_version
  ci_ignore :: bool
  ci_connected :: bool
  ci_got_header :: bool
  ci_headers_completed :: bool
  ci_urline :: string
  ci_status :: string
  ci_key :: string
  ci_value :: string
  ci_parser :: http_parser
  ci_url :: http_parser_url

definition max_uri_len :: nat where
  "max_uri_len = 8192"

definition codec_reset :: "codec_impl \<Rightarrow> codec_impl" where
  "codec_reset c = c\<lparr>ci_data := False, ci_ignore := False, ci_connected := False,
     ci_got_header := False, ci_headers_completed := False, ci_urline := [], ci_status := [],
     ci_value := [], ci_key := [], ci_parser := http_parser_init HTTP_BOTH,
     ci_url := http_parser_url_init\<rparr>"

definition codec_impl_new :: codec_impl where
  "codec_impl_new = codec_reset
    \<lparr>ci_data = False, ci_version = UNSET, ci_ignore = False, ci_connected = False,
     ci_got_header = False, ci_headers_completed = False, ci_urline = [], ci_status = [],
     ci_key = [], ci_value = [], ci_parser = http_parser_init HTTP_BOTH, ci_url = http_parser_url_init\<rparr>"

definition codec_set_version :: "proto_version \<Rightarrow> codec_impl \<Rightarrow> codec_impl" where
  "codec_set_version v c = c\<lparr>ci_version := v\<rparr>"

definition headers_done :: "codec_impl \<Rightarrow> bool" where
  "headers_done c = ci_headers_completed c"

definition ignore_content_len :: "codec_impl \<Rightarrow> codec_impl" where
  "ignore_content_len c =
    (if F_CHUNKED \<in> hp_flags (ci_parser c)
     then c\<lparr>ci_parser := (ci_parser c)\<lparr>hp_flags := hp_flags (ci_parser c) - {F_CONTENTLENGTH},
                                        hp_content_length := 0\<rparr>\<rparr>
     else c)"

section \<open>The client and its object\<close>

datatype decoded_message = Decoded_request http_request | Decoded_response http_response

fun decoded_type :: "decoded_message \<Rightarrow> type_index" where
  "decoded_type (Decoded_request r) = Type_request"
| "decoded_type (Decoded_response r) = Type_response"

text \<open>The members of the base class that the codec calls.\<close>

fun decoded_header :: "string \<Rightarrow> string \<Rightarrow> decoded_message \<Rightarrow> decoded_message result" where
  "decoded_header k v (Decoded_request r) = res_bind (header k v r) (\<lambda>r. Inr (Decoded_request r))"
| "decoded_header k v (Decoded_response r) = res_bind (header k v r) (\<lambda>r. Inr (Decoded_response r))"

fun decoded_protocol :: "proto_version \<Rightarrow> decoded_message \<Rightarrow> decoded_message result" where
  "decoded_protocol v (Decoded_request r) = res_bind (set_protocol v r) (\<lambda>r. Inr (Decoded_request r))"
| "decoded_protocol v (Decoded_response r) = res_bind (set_protocol v r) (\<lambda>r. Inr (Decoded_response r))"

fun decoded_keepalive :: "bool \<Rightarrow> decoded_message \<Rightarrow> decoded_message result" where
  "decoded_keepalive b (Decoded_request r) = res_bind (set_keepalive b r) (\<lambda>r. Inr (Decoded_request r))"
| "decoded_keepalive b (Decoded_response r) = res_bind (set_keepalive b r) (\<lambda>r. Inr (Decoded_response r))"

text \<open>
  The callbacks that the client registers; the one for the beginning says whether it has set the
  pointer, the one for errors whether the error is fatal.
\<close>

record 'w codec_client =
  cc_get :: "'w \<Rightarrow> decoded_message"
  cc_put :: "decoded_message \<Rightarrow> 'w \<Rightarrow> 'w"
  cc_begin :: "'w \<Rightarrow> (bool \<times> 'w) result"
  cc_headers :: "'w \<Rightarrow> 'w result"
  cc_body :: "string \<Rightarrow> 'w \<Rightarrow> 'w result"
  cc_trailer :: "string \<Rightarrow> string \<Rightarrow> 'w \<Rightarrow> 'w result"
  cc_complete :: "'w \<Rightarrow> 'w result"
  cc_error :: "http_errno \<Rightarrow> 'w \<Rightarrow> (bool \<times> 'w) result"

type_synonym 'w codec_state = "codec_impl \<times> 'w"

definition on_message :: "'w codec_client \<Rightarrow> (decoded_message \<Rightarrow> decoded_message result) \<Rightarrow> codec_impl \<Rightarrow> 'w \<Rightarrow> 'w result" where
  "on_message C f c w = (if ci_data c then res_bind (f (cc_get C w)) (\<lambda>m. Inr (cc_put C m w))
     else Inl Undefined_behaviour)"

definition process_current_header :: "'w codec_client \<Rightarrow> 'w codec_state \<Rightarrow> 'w codec_state result" where
  "process_current_header C = (\<lambda>(c, w).
    if \<not> ci_got_header c then Inr (c, w)
    else res_bind (on_message C (decoded_header (ci_key c) (ci_value c)) c w)
      (\<lambda>w. Inr (c\<lparr>ci_got_header := False, ci_key := [], ci_value := []\<rparr>, w)))"

section \<open>Callbacks of the parser\<close>

definition codec_on_message_begin ::
  "'w codec_client \<Rightarrow> http_parser \<Rightarrow> 'w codec_state \<Rightarrow> (int \<times> 'w codec_state) result" where
  "codec_on_message_begin C hp = (\<lambda>(c, w).
    res_bind (cc_begin C w) (\<lambda>(b, w).
      let c = c\<lparr>ci_data := ci_data c \<or> b\<rparr> in assert_that (ci_data c) (Inr (0, (c, w)))))"

text \<open>\<open>std::string::substr\<close> throws for a start beyond the end; the callback is \<open>noexcept\<close>.\<close>

definition substr :: "string \<Rightarrow> nat \<Rightarrow> nat \<Rightarrow> string result" where
  "substr s pos n = (if pos > length s then Inl (Terminated Out_of_range) else Inr (take n (drop pos s)))"

definition url_part :: "string \<Rightarrow> http_parser_url \<Rightarrow> url_field \<Rightarrow> string result" where
  "url_part s u f = substr s (unat (uf_off (pu_field_data u f))) (unat (uf_len (pu_field_data u f)))"

definition set_url :: "string \<Rightarrow> http_parser_url \<Rightarrow> http_request \<Rightarrow> http_request result" where
  "set_url s u r =
    res_bind (url_part s u UF_SCHEMA) (\<lambda>schema.
    res_bind (url_part s u UF_HOST) (\<lambda>host.
    res_bind (url_part s u UF_PORT) (\<lambda>port.
    res_bind (url_part s u UF_PATH) (\<lambda>path.
    res_bind (url_part s u UF_QUERY) (\<lambda>query.
    res_bind (url_part s u UF_FRAGMENT) (\<lambda>fragment.
    res_bind (url_part s u UF_USERINFO) (\<lambda>userinfo.
      Inr (r\<lparr>rq_schema := schema, rq_urihost := host, rq_port := port, rq_path := path,
             rq_query := query, rq_fragment := fragment, rq_userinfo := userinfo\<rparr>))))))))"

text \<open>The object is cast to a request, which is undefined behaviour for a response.\<close>

definition codec_on_url ::
  "'w codec_client \<Rightarrow> string \<Rightarrow> nat \<Rightarrow> 'w codec_state \<Rightarrow> (int \<times> 'w codec_state) result" where
  "codec_on_url C at n = (\<lambda>(c, w).
    let c = c\<lparr>ci_urline := ci_urline c @ take n at\<rparr> in
    if length (ci_urline c) > max_uri_len then Inr (1, (c, w))
    else if ci_data c \<and> decoded_type (cc_get C w) = Type_response then Inl Undefined_behaviour
    else res_bind (http_parser_parse_url at n (ci_connected c) (ci_url c)) (\<lambda>(ok, u).
      let c = c\<lparr>ci_url := u\<rparr> in
      res_bind (if ok then on_message C (\<lambda>m. case m of
                   Decoded_request r \<Rightarrow> res_bind (set_url (ci_urline c) u r) (\<lambda>r. Inr (Decoded_request r))
                 | Decoded_response _ \<Rightarrow> Inl Undefined_behaviour) c w
               else Inr w)
        (\<lambda>w. Inr (0, (c\<lparr>ci_connected := True\<rparr>, w)))))"

definition codec_on_status ::
  "'w codec_client \<Rightarrow> http_parser \<Rightarrow> string \<Rightarrow> nat \<Rightarrow> 'w codec_state \<Rightarrow> (int \<times> 'w codec_state) result" where
  "codec_on_status C hp at n = (\<lambda>(c, w).
    let c' = c\<lparr>ci_status := ci_status c @ take n at\<rparr> in
    res_bind (on_message C (\<lambda>m. case m of
        Decoded_request _ \<Rightarrow> Inl Assert_failed
      | Decoded_response r \<Rightarrow> Inr (Decoded_response (set_status_msg (hp_status_code hp) (ci_status c') r))) c' w)
    (\<lambda>w. Inr (0, (c', w))))"

definition on_header_field ::
  "'w codec_client \<Rightarrow> string \<Rightarrow> nat \<Rightarrow> 'w codec_state \<Rightarrow> (int \<times> 'w codec_state) result" where
  "on_header_field C at n = (\<lambda>(c, w). assert_that (\<not> ci_headers_completed c)
    (res_bind (process_current_header C (c, w)) (\<lambda>(c, w).
       Inr (0, (c\<lparr>ci_key := ci_key c @ take n at\<rparr>, w)))))"

definition on_header_value ::
  "string \<Rightarrow> nat \<Rightarrow> 'w codec_state \<Rightarrow> (int \<times> 'w codec_state) result" where
  "on_header_value at n = (\<lambda>(c, w). assert_that (\<not> ci_headers_completed c)
    (Inr (0, (c\<lparr>ci_got_header := True, ci_value := ci_value c @ take n at\<rparr>, w))))"

text \<open>A trailer is handed over when the next one begins or the message ends.\<close>

definition process_current_trailer :: "'w codec_client \<Rightarrow> 'w codec_state \<Rightarrow> 'w codec_state result" where
  "process_current_trailer C = (\<lambda>(c, w).
    if ci_got_header c
    then res_bind (cc_trailer C (ci_key c) (ci_value c) w)
      (\<lambda>w. Inr (c\<lparr>ci_got_header := False, ci_key := [], ci_value := []\<rparr>, w))
    else Inr (c, w))"

definition on_trailer_field ::
  "'w codec_client \<Rightarrow> string \<Rightarrow> nat \<Rightarrow> 'w codec_state \<Rightarrow> (int \<times> 'w codec_state) result" where
  "on_trailer_field C at n s = res_bind (process_current_trailer C s) (\<lambda>(c, w).
     Inr (0, (c\<lparr>ci_key := ci_key c @ take n at\<rparr>, w)))"

definition on_trailer_value ::
  "string \<Rightarrow> nat \<Rightarrow> 'w codec_state \<Rightarrow> (int \<times> 'w codec_state) result" where
  "on_trailer_value at n = (\<lambda>(c, w).
     Inr (0, (c\<lparr>ci_got_header := True, ci_value := ci_value c @ take n at\<rparr>, w)))"

definition codec_on_header_field ::
  "'w codec_client \<Rightarrow> string \<Rightarrow> nat \<Rightarrow> 'w codec_state \<Rightarrow> (int \<times> 'w codec_state) result" where
  "codec_on_header_field C at n s =
    (if \<not> headers_done (fst s) then on_header_field C at n s else on_trailer_field C at n s)"

definition codec_on_header_value ::
  "string \<Rightarrow> nat \<Rightarrow> 'w codec_state \<Rightarrow> (int \<times> 'w codec_state) result" where
  "codec_on_header_value at n s =
    (if \<not> headers_done (fst s) then on_header_value at n s else on_trailer_value at n s)"

text \<open>A request without a host in its URL takes it from the header, split at the first colon.\<close>

definition host_from_header :: "http_request \<Rightarrow> http_request" where
  "host_from_header r =
    (if rq_urihost r \<noteq> [] then r
     else (let host = get_header ''host'' r in
       if CHR '':'' \<notin> set host then r\<lparr>rq_urihost := host\<rparr>
       else r\<lparr>rq_urihost := takeWhile (\<lambda>c. c \<noteq> CHR '':'') host,
              rq_port := tl (dropWhile (\<lambda>c. c \<noteq> CHR '':'') host)\<rparr>))"

definition codec_on_headers_complete ::
  "'w codec_client \<Rightarrow> http_parser \<Rightarrow> 'w codec_state \<Rightarrow> (int \<times> 'w codec_state) result" where
  "codec_on_headers_complete C hp = (\<lambda>(c, w). assert_that (hp_http_major hp = 1)
    (let c = (if ci_version c = UNSET
              then c\<lparr>ci_version := (if hp_http_minor hp = 1 then HTTP11 else HTTP10)\<rparr> else c) in
     res_bind (on_message C (decoded_protocol (ci_version c)) c w) (\<lambda>w.
     res_bind (process_current_header C (c, w)) (\<lambda>(c, w).
     res_bind (on_message C (\<lambda>m. Inr (case m of
         Decoded_request r \<Rightarrow> Decoded_request (host_from_header (r\<lparr>rq_method := hp_method hp\<rparr>))
       | Decoded_response r \<Rightarrow> Decoded_response r)) c w) (\<lambda>w.
     res_bind (on_message C (decoded_keepalive (http_should_keep_alive hp)) c w) (\<lambda>w.
     res_bind (cc_headers C w) (\<lambda>w.
       Inr (0, (c\<lparr>ci_headers_completed := True\<rparr>, w)))))))))"

definition codec_on_body ::
  "'w codec_client \<Rightarrow> string \<Rightarrow> nat \<Rightarrow> 'w codec_state \<Rightarrow> (int \<times> 'w codec_state) result" where
  "codec_on_body C at n = (\<lambda>(c, w).
    if \<not> ci_ignore c then res_bind (cc_body C (take n at) w) (\<lambda>w. Inr (0, (c, w)))
    else Inr (0, (c, w)))"

text \<open>\<open>on_chunk_header\<close> and \<open>on_chunk_complete\<close> are the same function.\<close>

definition codec_on_chunk :: "http_parser \<Rightarrow> 'w codec_state \<Rightarrow> (int \<times> 'w codec_state) result" where
  "codec_on_chunk hp = (\<lambda>(c, w).
    Inr (0, (if http_body_is_final hp then c\<lparr>ci_ignore := True\<rparr> else c, w)))"

text \<open>The end of a message starts the parser afresh, as for either kind of message.\<close>

definition codec_on_message_complete ::
  "'w codec_client \<Rightarrow> http_parser \<Rightarrow> 'w codec_state \<Rightarrow> (int \<times> http_parser \<times> 'w codec_state) result" where
  "codec_on_message_complete C hp s = res_bind (process_current_trailer C s) (\<lambda>(c, w).
     res_bind (cc_complete C w) (\<lambda>w.
       let c = codec_reset c in Inr (0, ci_parser c, (c, w))))"

definition codec_settings :: "'w codec_client \<Rightarrow> 'w codec_state http_parser_settings" where
  "codec_settings C = \<lparr>on_message_begin = codec_on_message_begin C,
     on_data = (\<lambda>m hp at n. case m of
        M_header_field \<Rightarrow> codec_on_header_field C at n
      | M_header_value \<Rightarrow> codec_on_header_value at n
      | M_url \<Rightarrow> codec_on_url C at n
      | M_body \<Rightarrow> codec_on_body C at n
      | M_status \<Rightarrow> codec_on_status C hp at n),
     on_headers_complete = codec_on_headers_complete C,
     on_message_complete = codec_on_message_complete C,
     on_chunk_header = codec_on_chunk, on_chunk_complete = codec_on_chunk\<rparr>"

section \<open>Decoding\<close>

definition impl_decode :: "'w codec_client \<Rightarrow> string \<Rightarrow> 'w codec_state \<Rightarrow> (nat \<times> 'w codec_state) result" where
  "impl_decode C d = (\<lambda>(c, w).
    res_bind (http_parser_execute (codec_settings C) d (ci_parser c) (c, w))
      (\<lambda>(n, hp, (c, w)). Inr (n, (c\<lparr>ci_parser := hp\<rparr>, w))))"

text \<open>The error that is returned is cleared only if the client calls it not fatal.\<close>

definition on_parser_error :: "'w codec_client \<Rightarrow> 'w codec_state \<Rightarrow> (http_errno \<times> 'w codec_state) result" where
  "on_parser_error C = (\<lambda>(c, w).
    let err = hp_errno (ci_parser c) in
    if err = HPE_OK then Inr (HPE_OK, (c, w))
    else res_bind (cc_error C err w) (\<lambda>(fatal, w).
      if fatal then Inr (err, (codec_reset c, w))
      else Inr (HPE_OK, (c\<lparr>ci_parser := (ci_parser c)\<lparr>hp_errno := HPE_OK\<rparr>\<rparr>, w))))"

record http_decoder =
  de_impl :: codec_impl
  de_skip_next_header :: bool
  de_ignore_content_len :: bool

definition http_decoder_new :: http_decoder where
  "http_decoder_new = \<lparr>de_impl = codec_impl_new, de_skip_next_header = False, de_ignore_content_len = False\<rparr>"

definition ingnore_content_len :: "http_decoder \<Rightarrow> http_decoder" where
  "ingnore_content_len d = d\<lparr>de_ignore_content_len := True\<rparr>"

text \<open>
  The loop over the bytes not yet consumed.  The search for a line end compares addresses, of the
  data and of a literal, which are never equal: it runs to the end of the data.  A turn without
  error consumes a byte, so the turns are bounded by the length (\<open>decode_enough_turns\<close>).
\<close>

fun decode_loop ::
  "nat \<Rightarrow> 'w codec_client \<Rightarrow> string \<Rightarrow> nat \<Rightarrow> http_decoder \<Rightarrow> 'w \<Rightarrow> (bool \<times> http_decoder \<times> 'w) result" where
  "decode_loop turns C data b d w =
    (if \<not> length data > b then Inr (True, d, w)
     else case turns of 0 \<Rightarrow> Inl Out_of_turns
     | Suc turns \<Rightarrow>
        res_bind (impl_decode C (drop b data) (de_impl d, w)) (\<lambda>(n, s).
        res_bind (on_parser_error C s) (\<lambda>(err, (c, w)).
          let b = b + n;
              d = d\<lparr>de_impl := c\<rparr>
          in if err \<noteq> HPE_OK then Inr (False, d, w)
             else (let skip = de_skip_next_header d;
                       d = (if skip then d\<lparr>de_skip_next_header := False\<rparr> else d);
                       b = (if skip \<and> \<not> headers_done (de_impl d) then length data + 1 else b);
                       d = (if de_ignore_content_len d
                            then d\<lparr>de_ignore_content_len := False, de_impl := ignore_content_len (de_impl d)\<rparr>
                            else d)
                   in decode_loop turns C data b d w))))"

declare decode_loop.simps [simp del]

definition codec_decode ::
  "'w codec_client \<Rightarrow> string \<Rightarrow> http_decoder \<Rightarrow> 'w \<Rightarrow> (bool \<times> http_decoder \<times> 'w) result" where
  "codec_decode C data d w = decode_loop (length data) C data 0 d w"

section \<open>What decoding preserves\<close>

text \<open>A result that, unless it is a fault, has a property.\<close>

definition yields :: "('a \<Rightarrow> bool) \<Rightarrow> 'a result \<Rightarrow> bool" where
  "yields P r = (case r of Inl f \<Rightarrow> True | Inr x \<Rightarrow> P x)"

lemma yields_simps [simp]: "yields P (Inl f)" "yields P (Inr x) = P x"
  by (simp_all add: yields_def)

lemma yields_bind: "yields P r \<Longrightarrow> (\<And>x. P x \<Longrightarrow> yields Q (f x)) \<Longrightarrow> yields Q (res_bind r f)"
  by (cases r) simp_all

lemma yields_assert: "(b \<Longrightarrow> yields P r) \<Longrightarrow> yields P (assert_that b r)"
  by (cases b) simp_all

lemma yields_if: "(b \<Longrightarrow> yields P r) \<Longrightarrow> (\<not> b \<Longrightarrow> yields P r') \<Longrightarrow> yields P (if b then r else r')"
  by simp

lemma callback_ok_yields: "callback_ok (\<lambda>_. True) U r = yields (\<lambda>(i, s). U s) r"
  by (simp add: callback_ok_def yields_def)

text \<open>An invariant of the client's state that every callback keeps; the ones for errors are fatal.\<close>

definition client_ok :: "('w \<Rightarrow> bool) \<Rightarrow> 'w codec_client \<Rightarrow> bool" where
  "client_ok U C \<longleftrightarrow>
     (\<forall>w. U w \<longrightarrow> yields (\<lambda>(b, w). U w) (cc_begin C w))
   \<and> (\<forall>m w. U w \<longrightarrow> U (cc_put C m w))
   \<and> (\<forall>w. U w \<longrightarrow> yields U (cc_headers C w))
   \<and> (\<forall>b w. U w \<longrightarrow> yields U (cc_body C b w))
   \<and> (\<forall>k v w. U w \<longrightarrow> yields U (cc_trailer C k v w))
   \<and> (\<forall>w. U w \<longrightarrow> yields U (cc_complete C w))
   \<and> (\<forall>e w. U w \<longrightarrow> yields (\<lambda>(b, w). U w \<and> b) (cc_error C e w))"

lemma client_okD:
  assumes "client_ok U C" "U w"
  shows "yields (\<lambda>(b, w). U w) (cc_begin C w)" "U (cc_put C m w)" "yields U (cc_headers C w)"
    "yields U (cc_body C b w)" "yields U (cc_trailer C k v w)" "yields U (cc_complete C w)"
    "yields (\<lambda>(b, w). U w \<and> b) (cc_error C e w)"
  using assms by (simp_all add: client_ok_def)

text \<open>Every range of the URL, stale ones included, starts inside the text read so far.\<close>

definition url_inv :: "codec_impl \<Rightarrow> bool" where
  "url_inv c \<longleftrightarrow> (\<forall>f. unat (uf_off (pu_field_data (ci_url c) f)) \<le> length (ci_urline c))"

definition codec_inv :: "('w \<Rightarrow> bool) \<Rightarrow> 'w codec_state \<Rightarrow> bool" where
  "codec_inv U s \<longleftrightarrow> url_inv (fst s) \<and> U (snd s)"

lemma codec_inv_pair [simp]: "codec_inv U (c, w) \<longleftrightarrow> url_inv c \<and> U w"
  by (simp add: codec_inv_def)

lemma url_inv_reset [simp]: "url_inv (codec_reset c)"
  by (simp add: url_inv_def codec_reset_def http_parser_url_init_def)

lemma url_inv_update [simp]:
  "url_inv (c\<lparr>ci_data := b\<rparr>) = url_inv c" "url_inv (c\<lparr>ci_version := v\<rparr>) = url_inv c"
  "url_inv (c\<lparr>ci_ignore := b\<rparr>) = url_inv c" "url_inv (c\<lparr>ci_connected := b\<rparr>) = url_inv c"
  "url_inv (c\<lparr>ci_got_header := b\<rparr>) = url_inv c" "url_inv (c\<lparr>ci_headers_completed := b\<rparr>) = url_inv c"
  "url_inv (c\<lparr>ci_status := s\<rparr>) = url_inv c" "url_inv (c\<lparr>ci_key := s\<rparr>) = url_inv c"
  "url_inv (c\<lparr>ci_value := s\<rparr>) = url_inv c" "url_inv (c\<lparr>ci_parser := hp\<rparr>) = url_inv c"
  by (simp_all add: url_inv_def)

lemma on_message_yields: "client_ok U C \<Longrightarrow> U w \<Longrightarrow> yields U (on_message C f c w)"
  by (cases "f (cc_get C w)") (simp_all add: on_message_def client_okD)

lemma process_current_header_yields:
  "client_ok U C \<Longrightarrow> codec_inv U s \<Longrightarrow> yields (codec_inv U) (process_current_header C s)"
  by (cases s) (auto simp: process_current_header_def intro: yields_bind on_message_yields)

lemma process_current_trailer_yields:
  "client_ok U C \<Longrightarrow> codec_inv U s \<Longrightarrow> yields (codec_inv U) (process_current_trailer C s)"
  by (cases s) (auto simp: process_current_trailer_def intro: yields_bind client_okD)

lemma parse_url_min: "http_parser_parse_url at n b u = http_parser_parse_url at (min n (length at)) b u"
proof -
  have "take n at = take (min n (length at)) at" by (cases "n \<le> length at") (simp_all add: min_def)
  then show ?thesis by (simp add: http_parser_parse_url_def)
qed

text \<open>Within the limit on its length a URL is always split, and every part of it can be taken.\<close>

lemma url_inv_parse:
  assumes "url_inv c" "length (ci_urline c @ take n at) \<le> max_uri_len"
  shows "\<exists>ok u. http_parser_parse_url at n b (ci_url c) = Inr (ok, u)
    \<and> (\<forall>f. unat (uf_off (pu_field_data u f)) \<le> length (ci_urline c @ take n at))"
proof -
  let ?N = "length (ci_urline c @ take n at)" and ?n = "min n (length at)"
  have "\<exists>ok u'. http_parser_parse_url at ?n b (ci_url c) = Inr (ok, u') \<and> ranges_ok ?N ?n u'"
    using assms by (intro parse_url_ok) (auto simp: url_inv_def max_uri_len_def intro: le_trans)
  then show ?thesis using parse_url_min [of at n b] by (auto simp: ranges_ok_def)
qed

lemma set_url_ok:
  assumes "\<And>f. unat (uf_off (pu_field_data u f)) \<le> length s"
  shows "\<exists>r'. set_url s u r = Inr r'"
  using assms by (simp add: set_url_def url_part_def substr_def flip: not_le)

lemma on_url_yields:
  assumes "client_ok U C" "url_inv c" "U w"
  shows "yields (\<lambda>(i, s). codec_inv U s) (codec_on_url C at n (c, w))"
proof (cases "length (ci_urline c @ take n at) > max_uri_len")
  case True
  then show ?thesis using assms(2,3) by (auto simp: codec_on_url_def url_inv_def intro: trans_le_add1)
next
  case False
  obtain ok u where u: "http_parser_parse_url at n (ci_connected c) (ci_url c) = Inr (ok, u)"
    "\<forall>f. unat (uf_off (pu_field_data u f)) \<le> length (ci_urline c @ take n at)"
    using url_inv_parse [OF assms(2), of n at "ci_connected c"] False by (auto simp: not_less)
  then show ?thesis using False assms
    by (auto simp: codec_on_url_def Let_def url_inv_def intro!: yields_bind on_message_yields)
qed

lemma on_data_yields:
  assumes "client_ok U C" "codec_inv U s"
  shows "yields (\<lambda>(i, s). codec_inv U s) (on_data (codec_settings C) m hp at n s)"
proof -
  obtain c w where s: "s = (c, w)" by (cases s)
  have c: "url_inv c" "U w" using assms(2) s by auto
  note header = process_current_header_yields [OF assms] and trailer = process_current_trailer_yields [OF assms]
  show ?thesis
  proof (cases m)
    case M_url
    then show ?thesis using on_url_yields [OF assms(1) c] by (simp add: codec_settings_def s)
  next
    case M_header_field
    then show ?thesis using header trailer unfolding s
      by (auto simp: codec_settings_def codec_on_header_field_def on_header_field_def on_trailer_field_def
          intro!: yields_assert elim!: yields_bind)
  next
    case M_header_value
    then show ?thesis using c unfolding s
      by (auto simp: codec_settings_def codec_on_header_value_def on_header_value_def on_trailer_value_def
          intro!: yields_assert)
  next
    case M_body
    then show ?thesis using c unfolding s
      by (auto simp: codec_settings_def codec_on_body_def intro!: yields_bind [OF client_okD(4) [OF assms(1)]])
  next
    case M_status
    then show ?thesis using c unfolding s
      by (auto simp: codec_settings_def codec_on_status_def Let_def intro!: yields_bind on_message_yields assms(1))
  qed
qed

lemma headers_complete_yields:
  assumes "client_ok U C" "codec_inv U s"
  shows "yields (\<lambda>(i, s). codec_inv U s) (codec_on_headers_complete C hp s)"
proof -
  obtain c w where s: "s = (c, w)" by (cases s)
  define c1 where "c1 = (if ci_version c = UNSET
      then c\<lparr>ci_version := (if hp_http_minor hp = 1 then HTTP11 else HTTP10)\<rparr> else c)"
  have c: "url_inv c1" "U w" using assms(2) by (simp_all add: s c1_def)
  have msg: "yields U (on_message C f c w)" if "U w" for f c w using on_message_yields [OF assms(1) that] .
  have last: "yields (\<lambda>(i, s). codec_inv U s) (res_bind (on_message C f c w) (\<lambda>w.
      res_bind (on_message C g c w) (\<lambda>w. res_bind (cc_headers C w) (\<lambda>w.
        Inr (0, (c\<lparr>ci_headers_completed := True\<rparr>, w))))))" if "codec_inv U (c, w)" for f g c w
    using that by (intro yields_bind [OF msg] yields_bind [OF client_okD(3) [OF assms(1)]]) auto
  have header: "yields (codec_inv U) (process_current_header C (c1, w))" if "U w" for w
    using process_current_header_yields [OF assms(1)] c(1) that by simp
  show ?thesis
    unfolding s codec_on_headers_complete_def Let_def prod.case c1_def [symmetric]
    by (intro yields_assert yields_bind [OF msg] yields_bind [OF header] c(2)) (auto intro!: last)
qed

lemma codec_settings_ok:
  assumes "client_ok U C"
  shows "settings_ok (\<lambda>_. True) (codec_inv U) (codec_settings C)"
proof -
  have "yields (\<lambda>(i, s). codec_inv U s) (codec_on_message_begin C hp s)" if "codec_inv U s" for hp s
    using that by (cases s)
      (auto simp: codec_on_message_begin_def Let_def intro!: yields_assert yields_bind [OF client_okD(1) [OF assms]])
  moreover have "yields (\<lambda>(i, s). codec_inv U s) (codec_on_chunk hp s)" if "codec_inv U s" for hp s
    using that by (cases s) (simp add: codec_on_chunk_def)
  moreover have "yields (\<lambda>(r, hp', s'). codec_inv U s' \<and> (hp' = hp \<or> starting hp')) (codec_on_message_complete C hp s)"
    if "codec_inv U s" for hp s
  proof -
    have "starting (ci_parser (codec_reset c))" for c by (simp add: codec_reset_def starting_def http_parser_init_def)
    then show ?thesis unfolding codec_on_message_complete_def
      by (intro yields_bind [OF process_current_trailer_yields [OF assms that]])
        (auto simp: Let_def intro!: yields_bind [OF client_okD(6) [OF assms]])
  qed
  ultimately show ?thesis
    using on_data_yields [OF assms] headers_complete_yields [OF assms]
    by (simp add: settings_ok_def callback_ok_yields) (simp add: codec_settings_def yields_def)
qed

text \<open>
  Between reads the parser has no error, and nobody has asked to skip a header or to ignore a
  content length: in the repository nobody does.
\<close>

definition decoder_ok :: "http_decoder \<Rightarrow> bool" where
  "decoder_ok d \<longleftrightarrow> url_inv (de_impl d) \<and> hp_errno (ci_parser (de_impl d)) = HPE_OK
     \<and> parser_ok 0 (ci_parser (de_impl d)) \<and> \<not> de_skip_next_header d \<and> \<not> de_ignore_content_len d"

lemma parser_after_reset: "ci_parser (codec_reset c) = http_parser_init HTTP_BOTH"
  by (simp add: codec_reset_def)

lemma decoder_new_ok: "decoder_ok http_decoder_new"
  using parser_ok_init [of HTTP_BOTH]
  by (simp add: decoder_ok_def http_decoder_new_def codec_impl_new_def parser_after_reset http_parser_init_def)

lemma impl_decode_yields:
  assumes "client_ok U C" "url_inv c" "parser_ok 0 (ci_parser c)" "U w" "data \<noteq> []"
  shows "yields (\<lambda>(n, c, w). codec_inv U (c, w)
      \<and> (hp_errno (ci_parser c) = HPE_OK \<longrightarrow> parser_ok 0 (ci_parser c) \<and> 1 \<le> n)) (impl_decode C data (c, w))"
proof -
  have "yields (\<lambda>(n, hp, s). codec_inv U s \<and> (hp_errno hp = HPE_OK \<longrightarrow> parser_ok 0 hp)
      \<and> (hp_errno hp = HPE_OK \<longrightarrow> 1 \<le> n)) (http_parser_execute (codec_settings C) data (ci_parser c) (c, w))"
    using execute_safe [OF codec_settings_ok [OF assms(1)], of "ci_parser c" "(c, w)" data] assms(2-5)
    by (auto simp: yields_def split: sum.splits)
  then show ?thesis by (auto simp: impl_decode_def elim!: yields_bind)
qed

lemma on_parser_error_yields:
  assumes "client_ok U C" "codec_inv U (c, w)" "hp_errno (ci_parser c) = HPE_OK \<longrightarrow> parser_ok 0 (ci_parser c)"
  shows "yields (\<lambda>(err, c', w'). codec_inv U (c', w') \<and> hp_errno (ci_parser c') = HPE_OK \<and> parser_ok 0 (ci_parser c')
      \<and> (err = HPE_OK \<longrightarrow> hp_errno (ci_parser c) = HPE_OK)) (on_parser_error C (c, w))"
proof -
  have "hp_errno (http_parser_init HTTP_BOTH) = HPE_OK" by (simp add: http_parser_init_def)
  then show ?thesis using assms(2,3) parser_ok_init [of HTTP_BOTH]
    by (auto simp: on_parser_error_def Let_def parser_after_reset intro!: yields_bind [OF client_okD(7) [OF assms(1)]])
qed

text \<open>One turn of the loop: an error ends it; without one it has consumed a byte.\<close>

definition decode_turn :: "'w codec_client \<Rightarrow> string \<Rightarrow> http_decoder \<Rightarrow> 'w \<Rightarrow> (bool \<times> nat \<times> http_decoder \<times> 'w) result" where
  "decode_turn C data d w = res_bind (impl_decode C data (de_impl d, w)) (\<lambda>(n, s).
     res_bind (on_parser_error C s) (\<lambda>(err, (c, w)). Inr (err = HPE_OK, n, d\<lparr>de_impl := c\<rparr>, w)))"

lemma decode_turn_yields:
  assumes "client_ok U C" "decoder_ok d" "U w" "data \<noteq> []"
  shows "yields (\<lambda>(ok, n, d, w). decoder_ok d \<and> U w \<and> (ok \<longrightarrow> 1 \<le> n)) (decode_turn C data d w)"
proof -
  have "yields (\<lambda>(ok, n, d, w). decoder_ok d \<and> U w \<and> (ok \<longrightarrow> 1 \<le> n))
      (res_bind (on_parser_error C (c, w)) (\<lambda>(err, (c, w)). Inr (err = HPE_OK, n, d\<lparr>de_impl := c\<rparr>, w)))"
    if "codec_inv U (c, w)" "hp_errno (ci_parser c) = HPE_OK \<longrightarrow> parser_ok 0 (ci_parser c) \<and> 1 \<le> n" for n c w
    using that assms(2)
    by (auto simp: decoder_ok_def intro!: yields_bind [OF on_parser_error_yields [OF assms(1)]])
  note turn = this
  show ?thesis unfolding decode_turn_def
  proof (rule yields_bind [OF impl_decode_yields [OF assms(1)]])
    fix x :: "nat \<times> codec_impl \<times> 'a"
    obtain n c w where x: "x = (n, c, w)" by (cases x)
    assume "case x of (n, c, w) \<Rightarrow> codec_inv U (c, w)
      \<and> (hp_errno (ci_parser c) = HPE_OK \<longrightarrow> parser_ok 0 (ci_parser c) \<and> 1 \<le> n)"
    then show "yields (\<lambda>(ok, n, d, w). decoder_ok d \<and> U w \<and> (ok \<longrightarrow> 1 \<le> n)) (case x of (n, s) \<Rightarrow>
        res_bind (on_parser_error C s) (\<lambda>(err, (c, w)). Inr (err = HPE_OK, n, d\<lparr>de_impl := c\<rparr>, w)))"
      unfolding x prod.case using turn by blast
  qed (use assms(2-4) in \<open>simp_all add: decoder_ok_def\<close>)
qed

lemma decode_loop_turn:
  assumes "decoder_ok d"
  shows "decode_loop 0 C data b d w = (if length data > b then Inl Out_of_turns else Inr (True, d, w))"
    "decode_loop (Suc t) C data b d w =
      (if \<not> length data > b then Inr (True, d, w)
       else res_bind (decode_turn C (drop b data) d w) (\<lambda>(ok, n, d, w).
         if ok then decode_loop t C data (b + n) d w else Inr (False, d, w)))"
  using assms
  by (simp_all add: decode_loop.simps [of 0] decode_loop.simps [of "Suc t"] decode_turn_def res_bind_def Let_def
      decoder_ok_def split: sum.split prod.split)

lemma decode_loop_yields:
  assumes "client_ok U C" "decoder_ok d" "U w"
  shows "yields (\<lambda>(ok, d, w). decoder_ok d \<and> U w) (decode_loop t C data b d w)"
  using assms(2,3)
proof (induction t arbitrary: b d w)
  case 0
  then show ?case by (simp add: decode_loop_turn)
next
  case (Suc t)
  then show ?case
    by (auto simp: decode_loop_turn intro!: yields_bind [OF decode_turn_yields [OF assms(1)]])
qed

lemma decode_enough_turns:
  assumes "client_ok U C" "decoder_ok d" "U w" "length data \<le> b + t"
  shows "decode_loop (t + k) C data b d w = decode_loop t C data b d w"
  using assms(2-4)
proof (induction t arbitrary: b d w)
  case 0
  then show ?case by (cases k) (simp_all add: decode_loop_turn)
next
  case (Suc t)
  show ?case
  proof (cases "length data > b")
    case True
    have "yields (\<lambda>(ok, n, d, w). decoder_ok d \<and> U w \<and> (ok \<longrightarrow> 1 \<le> n)) (decode_turn C (drop b data) d w)"
      using Suc.prems(1,2) True by (intro decode_turn_yields [OF assms(1)]) simp_all
    then show ?thesis using Suc True
      by (cases "decode_turn C (drop b data) d w") (auto simp: decode_loop_turn)
  qed (use Suc.prems in \<open>simp add: decode_loop_turn\<close>)
qed

lemma codec_decode_yields:
  assumes "client_ok U C" "decoder_ok d" "U w"
  shows "yields (\<lambda>(ok, d, w). decoder_ok d \<and> U w) (codec_decode C data d w)"
  unfolding codec_decode_def by (rule decode_loop_yields [OF assms])

end
