(* ===== verification/Handler_Http1.thy ===== *)
theory Handler_Http1
  imports Exchange Connector Http_Codec
begin

text \<open>
  \<open>src/src/protocol/handler_http1.h\<close>: the HTTP/1 handler of a connection, a template over the
  classes of the server or of the client (\<open>server_traits.h\<close>, \<open>client_traits.h\<close>).  The
  traits are a record of the member functions the template calls; the handler's state extends
  that of its connector, whose \<open>do_write\<close> it runs.  Objects shared with the user live in
  heaps; a \<open>weak_ptr\<close> whose object is gone is an identifier without an entry.  User
  callbacks and tasks posted to the loop are a trace.
\<close>

section \<open>State\<close>

datatype hd_event = Local_task nat local_task | Remote_task nat remote_task
  | Connection_event connection_event | Timeout_posted | Request_sent
  | User_feedback "nat option"

record ('l, 'r, 'm) handler_http1 = "nat connector" +
  hd_conn :: connection
  hd_connector :: bool
  hd_request_cb :: bool
  hd_locals :: "nat \<rightharpoonup> 'l local_object"
  hd_remotes :: "nat \<rightharpoonup> 'r"
  hd_next :: nat
  hd_local_objects :: "nat list"
  hd_remote_objects :: "nat list"
  hd_encoder :: http_encoder
  hd_decoder :: http_decoder
  hd_current_decoded :: 'm
  hd_serialization :: string
  hd_user_close :: bool
  hd_decoding_error :: bool
  hd_pending_clear :: "nat list"
  hd_managing_continue :: bool
  hd_events :: "hd_event list"

record ('x, 'r, 'y) handler_traits =
  tr_server :: bool
  tr_serialize :: "'x http_structured_data_scheme \<Rightarrow> string result"
  tr_local_error :: "'x http_structured_data_scheme local_object
     \<Rightarrow> 'x http_structured_data_scheme local_object \<times> local_task list"
  tr_local_cleared :: "'x http_structured_data_scheme local_object
     \<Rightarrow> 'x http_structured_data_scheme local_object \<times> local_task list"
  tr_new_remote :: 'r
  tr_remote_headers :: "'y http_structured_data_scheme \<Rightarrow> 'r \<Rightarrow> 'r \<times> remote_task list"
  tr_remote_body :: "string \<Rightarrow> 'r \<Rightarrow> 'r \<times> remote_task list"
  tr_remote_trailer :: "string \<Rightarrow> string \<Rightarrow> 'r \<Rightarrow> 'r \<times> remote_task list"
  tr_remote_finished :: "'r \<Rightarrow> 'r \<times> remote_task list"
  tr_remote_error :: "error_code \<Rightarrow> 'r \<Rightarrow> 'r \<times> remote_task list"
  tr_remote_continue :: "'r \<Rightarrow> 'r \<times> remote_task list"
  tr_remote_ended :: "'r \<Rightarrow> bool"
  tr_empty_message :: "'y http_structured_data_scheme result"
  tr_status_code :: "'y http_structured_data_scheme \<Rightarrow> 16 word"
  tr_continue_message :: "'x http_structured_data_scheme result"
  tr_object :: "'y http_structured_data_scheme \<Rightarrow> decoded_message"
  tr_of_object :: "decoded_message \<Rightarrow> 'y http_structured_data_scheme option"

section \<open>What the connector calls\<close>

definition hd_on_write ::
  "('l, 'r, 'm, 'z) handler_http1_scheme \<Rightarrow> bool \<times> string \<times> ('l, 'r, 'm, 'z) handler_http1_scheme" where
  "hd_on_write w =
    (if hd_connector w then
       (if hd_serialization w \<noteq> [] then (True, hd_serialization w, w\<lparr>hd_serialization := []\<rparr>)
        else (False, [], w))
     else (False, [], w))"

definition hd_should_stop :: "('l, 'r, 'm, 'z) handler_http1_scheme \<Rightarrow> bool" where
  "hd_should_stop w \<longleftrightarrow> hd_local_objects w = [] \<and> \<not> co_persistent (hd_conn w)"

definition hd_write_feedbacks ::
  "('l, 'r, 'm, 'z) handler_http1_scheme \<Rightarrow> nat list \<times> ('l, 'r, 'm, 'z) handler_http1_scheme" where
  "hd_write_feedbacks w = (hd_pending_clear w, w\<lparr>hd_pending_clear := []\<rparr>)"

definition hd_do_write ::
  "('l, 'r, 'm, 'z) handler_http1_scheme \<Rightarrow> ('l, 'r, 'm, 'z) handler_http1_scheme" where
  "hd_do_write w = (if hd_connector w then do_write hd_on_write hd_should_stop hd_write_feedbacks w else w)"

definition log_event :: "hd_event list \<Rightarrow> ('l, 'r, 'm, 'z) handler_http1_scheme \<Rightarrow> ('l, 'r, 'm, 'z) handler_http1_scheme" where
  "log_event es w = w\<lparr>hd_events := hd_events w @ es\<rparr>"

definition trigger_timeout_event ::
  "('l, 'r, 'm, 'z) handler_http1_scheme \<Rightarrow> ('l, 'r, 'm, 'z) handler_http1_scheme" where
  "trigger_timeout_event w = log_event [Timeout_posted] w"

definition hd_set_timeout :: "int \<Rightarrow> ('l, 'r, 'm, 'z) handler_http1_scheme \<Rightarrow> ('l, 'r, 'm, 'z) handler_http1_scheme" where
  "hd_set_timeout ms w = (if hd_connector w then connector_set_timeout ms w else w)"

definition hd_start ::
  "('l, 'r, 'm, 'z) handler_http1_scheme \<Rightarrow> bool \<times> ('l, 'r, 'm, 'z) handler_http1_scheme" where
  "hd_start w = (True, w\<lparr>hd_conn := connection_init (hd_conn w)\<rparr>)"

definition raise_error :: "error_code \<Rightarrow> ('l, 'r, 'm, 'z) handler_http1_scheme \<Rightarrow> ('l, 'r, 'm, 'z) handler_http1_scheme" where
  "raise_error e w = (let (c, evs) = connection_raise e (hd_conn w)
     in log_event (map Connection_event evs) (w\<lparr>hd_conn := c\<rparr>))"

definition deinit :: "('l, 'r, 'm, 'z) handler_http1_scheme \<Rightarrow> ('l, 'r, 'm, 'z) handler_http1_scheme" where
  "deinit w = w\<lparr>hd_conn := connection_deinit (hd_conn w)\<rparr>"

text \<open>
  \<open>cleared\<close> of the connection: nothing on a server, the \<open>on_request_sent\<close> callback on a
  client.
\<close>

definition hd_cleared ::
  "('x, 'r, 'y) handler_traits \<Rightarrow> ('l, 'r, 'm, 'z) handler_http1_scheme \<Rightarrow> ('l, 'r, 'm, 'z) handler_http1_scheme" where
  "hd_cleared T w = (if tr_server T then w else if hd_request_cb w then log_event [Request_sent] w else w)"

section \<open>Calls on the shared objects\<close>

definition on_local ::
  "('l local_object \<Rightarrow> 'l local_object \<times> local_task list) \<Rightarrow> nat
   \<Rightarrow> ('l, 'r, 'm, 'z) handler_http1_scheme \<Rightarrow> ('l, 'r, 'm, 'z) handler_http1_scheme" where
  "on_local f i w = (case hd_locals w i of
     None \<Rightarrow> w
   | Some l \<Rightarrow> (let (l, ts) = f l in
       log_event (map (Local_task i) ts) (w\<lparr>hd_locals := (hd_locals w)(i \<mapsto> l)\<rparr>)))"

definition on_remote ::
  "('r \<Rightarrow> 'r \<times> remote_task list) \<Rightarrow> nat
   \<Rightarrow> ('l, 'r, 'm, 'z) handler_http1_scheme \<Rightarrow> ('l, 'r, 'm, 'z) handler_http1_scheme" where
  "on_remote f i w = (case hd_remotes w i of
     None \<Rightarrow> w
   | Some r \<Rightarrow> (let (r, ts) = f r in
       log_event (map (Remote_task i) ts) (w\<lparr>hd_remotes := (hd_remotes w)(i \<mapsto> r)\<rparr>)))"

definition notify_all ::
  "('x, 'r, 'y) handler_traits \<Rightarrow> error_code
   \<Rightarrow> ('x http_structured_data_scheme, 'r, 'm, 'z) handler_http1_scheme
   \<Rightarrow> ('x http_structured_data_scheme, 'r, 'm, 'z) handler_http1_scheme" where
  "notify_all T err w =
    (let w = fold (on_remote (tr_remote_error T err)) (hd_remote_objects w) w;
         w = fold (on_local (tr_local_error T)) (hd_local_objects w) w
     in w\<lparr>hd_remote_objects := [], hd_local_objects := []\<rparr>)"

section \<open>Sending\<close>

definition notify_local_headers ::
  "('x, 'r, 'y) handler_traits \<Rightarrow> 'x http_structured_data_scheme
   \<Rightarrow> ('l, 'r, 'm, 'z) handler_http1_scheme \<Rightarrow> ('l, 'r, 'm, 'z) handler_http1_scheme result" where
  "notify_local_headers T loc w =
    (let w = (if has hf_connection loc
              then w\<lparr>hd_conn := (hd_conn w)\<lparr>co_persistent := get_header hf_connection loc = hv_keepalive\<rparr>\<rparr>
              else w)
     in res_bind (encode_header (tr_serialize T) loc (hd_encoder w))
          (\<lambda>(s, e). Inr (hd_do_write (w\<lparr>hd_serialization := hd_serialization w @ s, hd_encoder := e\<rparr>))))"

definition notify_local_body ::
  "string \<Rightarrow> ('l, 'r, 'm, 'z) handler_http1_scheme \<Rightarrow> ('l, 'r, 'm, 'z) handler_http1_scheme result" where
  "notify_local_body body w = res_bind (encode_body body (hd_encoder w))
     (\<lambda>(s, e). Inr (hd_do_write (w\<lparr>hd_serialization := hd_serialization w @ s, hd_encoder := e\<rparr>)))"

definition notify_local_trailer ::
  "string \<Rightarrow> string \<Rightarrow> ('l, 'r, 'm, 'z) handler_http1_scheme \<Rightarrow> ('l, 'r, 'm, 'z) handler_http1_scheme result" where
  "notify_local_trailer k v w = res_bind (encode_trailer k v (hd_encoder w))
     (\<lambda>(s, e). Inr (hd_do_write (w\<lparr>hd_serialization := hd_serialization w @ s, hd_encoder := e\<rparr>)))"

definition notify_local_end ::
  "('l, 'r, 'm, 'z) handler_http1_scheme \<Rightarrow> ('l, 'r, 'm, 'z) handler_http1_scheme result" where
  "notify_local_end w = res_bind (encode_eom (hd_encoder w))
     (\<lambda>(s, e). Inr (hd_do_write (w\<lparr>hd_serialization := hd_serialization w @ s, hd_encoder := e\<rparr>)))"

text \<open>
  \<open>poll_local\<close> takes from an object until it has nothing to announce.  The object is passed
  beside the state (the loop holds it through a \<open>shared_ptr\<close>) and returned with the verdict
  whether it has ended.
\<close>

definition local_size :: "'h local_object \<Rightarrow> nat" where
  "local_size r = (if lo_continue_required r then 1 else 0) + (if lo_headers r = None then 0 else 1)
     + (if lo_content r = [] then 0 else 1) + length (lo_trailers r)"

lemma res_bind_cong [fundef_cong]:
  "r = r' \<Longrightarrow> (\<And>x. r' = Inr x \<Longrightarrow> f x = f' x) \<Longrightarrow> res_bind r f = res_bind r' f'"
  by (cases r') simp_all

function poll_local ::
  "('x, 'r, 'y) handler_traits \<Rightarrow> nat \<Rightarrow> 'x http_structured_data_scheme local_object
   \<Rightarrow> ('l, 'r, 'm, 'z) handler_http1_scheme
   \<Rightarrow> (bool \<times> 'x http_structured_data_scheme local_object \<times> ('l, 'r, 'm, 'z) handler_http1_scheme) result" where
  "poll_local T i loc w = (case client_request_get_state loc of
     Pending \<Rightarrow> Inr (False, loc, w)
   | Headers_received \<Rightarrow> res_bind (local_preamble loc) (\<lambda>(h, loc).
       res_bind (notify_local_headers T h w) (\<lambda>w. poll_local T i loc w))
   | Body_received \<Rightarrow>
       res_bind (notify_local_body (fst (local_get_body loc)) w)
         (\<lambda>w. poll_local T i (snd (local_get_body loc)) w)
   | Trailer_received \<Rightarrow> res_bind (local_get_trailer loc) (\<lambda>(t, loc).
       res_bind (notify_local_trailer (fst t) (snd t) w) (\<lambda>w. poll_local T i loc w))
   | Ended \<Rightarrow> res_bind (notify_local_end (w\<lparr>hd_pending_clear := hd_pending_clear w @ [i]\<rparr>))
       (\<lambda>w. Inr (True, loc, hd_cleared T w))
   | Send_continue \<Rightarrow> Inl Assert_failed)"
  by pat_completeness auto
termination
  by (relation "measure (\<lambda>(T, i, loc, w). local_size loc)")
    (auto simp: local_size_def local_take client_request_get_state_def split: if_splits list.splits option.splits)

declare poll_local.simps [simp del]

function poll_local_server ::
  "('x, 'r, 'y) handler_traits \<Rightarrow> nat \<Rightarrow> 'x http_structured_data_scheme local_object
   \<Rightarrow> ('l, 'r, 'm, 'z) handler_http1_scheme
   \<Rightarrow> (bool \<times> 'x http_structured_data_scheme local_object \<times> ('l, 'r, 'm, 'z) handler_http1_scheme) result" where
  "poll_local_server T i loc0 w = (let (state, loc) = response_get_state loc0 in case state of
     Pending \<Rightarrow> Inr (False, loc, w)
   | Headers_received \<Rightarrow> res_bind (local_preamble loc) (\<lambda>(h, loc).
       res_bind (notify_local_headers T h w) (\<lambda>w. poll_local_server T i loc w))
   | Body_received \<Rightarrow>
       res_bind (notify_local_body (fst (local_get_body loc)) w)
         (\<lambda>w. poll_local_server T i (snd (local_get_body loc)) w)
   | Trailer_received \<Rightarrow> res_bind (local_get_trailer loc) (\<lambda>(t, loc).
       res_bind (notify_local_trailer (fst t) (snd t) w) (\<lambda>w. poll_local_server T i loc w))
   | Ended \<Rightarrow> res_bind (notify_local_end (w\<lparr>hd_pending_clear := hd_pending_clear w @ [i]\<rparr>))
       (\<lambda>w. Inr (True, loc, hd_cleared T w))
   | Send_continue \<Rightarrow>
       res_bind (tr_continue_message T) (\<lambda>r.
       res_bind (encode_header (tr_serialize T) r (hd_encoder w)) (\<lambda>(s, e).
       res_bind (encode_eom e) (\<lambda>(t, e).
         Inr (False, loc, hd_do_write (w\<lparr>hd_serialization := hd_serialization w @ s @ t, hd_encoder := e\<rparr>))))))"
  by pat_completeness auto
termination
  by (relation "measure (\<lambda>(T, i, loc, w). local_size loc)")
    (auto simp: local_size_def local_take response_get_state_def split: if_splits list.splits option.splits)

declare poll_local_server.simps [simp del]


definition poll ::
  "('x, 'r, 'y) handler_traits \<Rightarrow> nat \<Rightarrow> 'x http_structured_data_scheme local_object
   \<Rightarrow> ('l, 'r, 'm, 'z) handler_http1_scheme
   \<Rightarrow> (bool \<times> 'x http_structured_data_scheme local_object \<times> ('l, 'r, 'm, 'z) handler_http1_scheme) result" where
  "poll T = (if tr_server T then poll_local_server T else poll_local T)"

lemma hd_do_write_fields [simp]:
  "hd_local_objects (hd_do_write w) = hd_local_objects w" "hd_locals (hd_do_write w) = hd_locals w"
  "hd_encoder (hd_do_write w) = hd_encoder w" "hd_connector (hd_do_write w) = hd_connector w"
  "hd_remote_objects (hd_do_write w) = hd_remote_objects w" "hd_remotes (hd_do_write w) = hd_remotes w"
  "hd_conn (hd_do_write w) = hd_conn w" "hd_next (hd_do_write w) = hd_next w"
  "hd_request_cb (hd_do_write w) = hd_request_cb w" "hd_decoder (hd_do_write w) = hd_decoder w"
  by (simp_all add: hd_do_write_def do_write_def hd_on_write_def hd_write_feedbacks_def conn_ops Let_def)

lemma hd_cleared_fields [simp]:
  "hd_local_objects (hd_cleared T w) = hd_local_objects w" "hd_locals (hd_cleared T w) = hd_locals w"
  "hd_connector (hd_cleared T w) = hd_connector w" "hd_encoder (hd_cleared T w) = hd_encoder w"
  "hd_decoder (hd_cleared T w) = hd_decoder w"
  by (simp_all add: hd_cleared_def log_event_def)

subsection \<open>Polling sends the items of the object\<close>

definition send_item ::
  "('x, 'r, 'y) handler_traits \<Rightarrow> nat \<Rightarrow> 'x http_structured_data_scheme item
   \<Rightarrow> ('l, 'r, 'm, 'z) handler_http1_scheme \<Rightarrow> ('l, 'r, 'm, 'z) handler_http1_scheme result" where
  "send_item T i it w = (case it of
     I_headers h \<Rightarrow> notify_local_headers T h w
   | I_body b \<Rightarrow> notify_local_body b w
   | I_trailer k v \<Rightarrow> notify_local_trailer k v w
   | I_end \<Rightarrow> res_bind (notify_local_end (w\<lparr>hd_pending_clear := hd_pending_clear w @ [i]\<rparr>))
       (\<lambda>w. Inr (hd_cleared T w)))"

fun send_items ::
  "('x, 'r, 'y) handler_traits \<Rightarrow> nat \<Rightarrow> 'x http_structured_data_scheme item list
   \<Rightarrow> ('l, 'r, 'm, 'z) handler_http1_scheme \<Rightarrow> ('l, 'r, 'm, 'z) handler_http1_scheme result" where
  "send_items T i [] w = Inr w"
| "send_items T i (it # its) w = res_bind (send_item T i it w) (send_items T i its)"

definition emptied :: "'h local_object \<Rightarrow> 'h local_object" where
  "emptied l = l\<lparr>lo_headers := None, lo_content := [], lo_trailers := []\<rparr>"

lemma emptied_step [simp]:
  "emptied (l\<lparr>lo_headers := None\<rparr>) = emptied l" "emptied (l\<lparr>lo_content := []\<rparr>) = emptied l"
  "emptied (l\<lparr>lo_trailers := ts\<rparr>) = emptied l"
  by (simp_all add: emptied_def)

lemma emptied_already:
  "lo_headers l = None \<Longrightarrow> lo_content l = [] \<Longrightarrow> lo_trailers l = [] \<Longrightarrow> emptied l = l"
  by (simp add: emptied_def)

lemma res_bind_assoc: "res_bind (res_bind r f) g = res_bind r (\<lambda>x. res_bind (f x) g)"
  by (cases r) simp_all

lemma poll_local_items:
  "poll_local T i loc w = res_bind (send_items T i (items loc) w) (\<lambda>w. Inr (lo_ended loc, emptied loc, w))"
proof (induction T i loc w rule: poll_local.induct)
  case (1 T i loc w)
  consider (headers) h where "lo_headers loc = Some h"
    | (body) "lo_headers loc = None" "lo_content loc \<noteq> []"
    | (trailer) k v ts where "lo_headers loc = None" "lo_content loc = []" "lo_trailers loc = (k, v) # ts"
    | (rest) "lo_headers loc = None" "lo_content loc = []" "lo_trailers loc = []"
    by (cases "lo_headers loc"; cases "lo_trailers loc"; cases "lo_content loc = []") auto
  then show ?case
  proof cases
    case headers
    then show ?thesis
      using items_headers [OF headers] "1.IH"(1)
      by (subst poll_local.simps)
        (auto simp: client_request_get_state_def local_take send_item_def res_bind_assoc
          intro!: res_bind_cong)
  next
    case body
    then show ?thesis
      using items_body [OF body] "1.IH"(2)
      by (subst poll_local.simps)
        (auto simp: client_request_get_state_def local_take send_item_def res_bind_assoc
          intro!: res_bind_cong)
  next
    case trailer
    then show ?thesis
      using items_trailer [OF trailer] "1.IH"(3)
      by (subst poll_local.simps)
        (auto simp: client_request_get_state_def local_take send_item_def res_bind_assoc
          intro!: res_bind_cong)
  next
    case rest
    then show ?thesis
      by (subst poll_local.simps)
        (simp add: client_request_get_state_def items_def send_item_def res_bind_assoc
          emptied_already [OF rest])
  qed
qed

lemma poll_local_server_items:
  "\<not> lo_continue_required loc \<Longrightarrow>
   poll_local_server T i loc w = res_bind (send_items T i (items loc) w) (\<lambda>w. Inr (lo_ended loc, emptied loc, w))"
proof (induction T i loc w rule: poll_local_server.induct)
  case (1 T i loc w)
  note st = response_get_state_client [OF "1.prems"]
  consider (headers) h where "lo_headers loc = Some h"
    | (body) "lo_headers loc = None" "lo_content loc \<noteq> []"
    | (trailer) k v ts where "lo_headers loc = None" "lo_content loc = []" "lo_trailers loc = (k, v) # ts"
    | (rest) "lo_headers loc = None" "lo_content loc = []" "lo_trailers loc = []"
    by (cases "lo_headers loc"; cases "lo_trailers loc"; cases "lo_content loc = []") auto
  then show ?case
  proof cases
    case headers
    then show ?thesis
      using items_headers [OF headers] "1.IH"(1) [OF st [symmetric] refl] "1.prems"
      by (subst poll_local_server.simps)
        (auto simp: st client_request_get_state_def local_take send_item_def res_bind_assoc
          intro!: res_bind_cong)
  next
    case body
    then show ?thesis
      using items_body [OF body] "1.IH"(2) [OF st [symmetric] refl] "1.prems"
      by (subst poll_local_server.simps)
        (auto simp: st client_request_get_state_def local_take send_item_def res_bind_assoc
          intro!: res_bind_cong)
  next
    case trailer
    then show ?thesis
      using items_trailer [OF trailer] "1.IH"(3) [OF st [symmetric] refl] "1.prems"
      by (subst poll_local_server.simps)
        (auto simp: st client_request_get_state_def local_take send_item_def res_bind_assoc
          intro!: res_bind_cong)
  next
    case rest
    then show ?thesis
      by (subst poll_local_server.simps)
        (simp add: st client_request_get_state_def items_def send_item_def res_bind_assoc
          emptied_already [OF rest])
  qed
qed


lemma send_item_fields:
  assumes "send_item T i it w = Inr w'"
  shows "hd_local_objects w' = hd_local_objects w \<and> hd_locals w' = hd_locals w
    \<and> hd_connector w' = hd_connector w"
  using assms
  by (cases it)
    (auto simp: send_item_def notify_local_headers_def notify_local_body_def notify_local_trailer_def
      notify_local_end_def Let_def res_bind_eq_Inr split: if_splits)

lemma send_items_fields:
  "send_items T i its w = Inr w' \<Longrightarrow> hd_local_objects w' = hd_local_objects w
    \<and> hd_locals w' = hd_locals w \<and> hd_connector w' = hd_connector w"
  by (induction its arbitrary: w) (auto simp: res_bind_eq_Inr dest!: send_item_fields)

text \<open>A request to continue is answered first, and ends the round of polling.\<close>

lemma poll_local_server_continue:
  "lo_continue_required loc \<Longrightarrow> poll_local_server T i loc w =
    res_bind (tr_continue_message T) (\<lambda>r.
    res_bind (encode_header (tr_serialize T) r (hd_encoder w)) (\<lambda>(s, e).
    res_bind (encode_eom e) (\<lambda>(t, e).
      Inr (False, loc\<lparr>lo_continue_required := False\<rparr>,
           hd_do_write (w\<lparr>hd_serialization := hd_serialization w @ s @ t, hd_encoder := e\<rparr>)))))"
  by (subst poll_local_server.simps) (simp add: response_get_state_def)

lemma poll_items:
  "(tr_server T \<Longrightarrow> \<not> lo_continue_required loc) \<Longrightarrow>
   poll T i loc w = res_bind (send_items T i (items loc) w) (\<lambda>w. Inr (lo_ended loc, emptied loc, w))"
  by (simp add: poll_def poll_local_items poll_local_server_items)

lemma poll_fields:
  assumes "poll T i loc w = Inr (b, loc', w')"
  shows "hd_local_objects w' = hd_local_objects w \<and> hd_locals w' = hd_locals w
    \<and> hd_connector w' = hd_connector w"
proof (cases "tr_server T \<and> lo_continue_required loc")
  case True
  then show ?thesis
    using assms by (auto simp: poll_def poll_local_server_continue res_bind_eq_Inr)
next
  case False
  then show ?thesis
    using assms poll_items [of T loc i w] by (auto simp: res_bind_eq_Inr dest: send_items_fields)
qed

text \<open>
  The loop over the outgoing objects: the first is polled and popped once it has ended; one that
  the user has dropped is an error for the whole connection.
\<close>

function notify_local_content ::
  "('x, 'r, 'y) handler_traits \<Rightarrow> ('x http_structured_data_scheme, 'r, 'm, 'z) handler_http1_scheme
   \<Rightarrow> ('x http_structured_data_scheme, 'r, 'm, 'z) handler_http1_scheme result" where
  "notify_local_content T w = (case hd_local_objects w of
     [] \<Rightarrow> Inr w
   | c # rest \<Rightarrow>
      (case hd_locals w c of
         None \<Rightarrow> Inr (deinit (notify_all T Missing_stream_element (raise_error Missing_stream_element w)))
       | Some s \<Rightarrow> res_bind (poll T c s w) (\<lambda>(finished, s, w).
           let w = w\<lparr>hd_locals := (hd_locals w)(c \<mapsto> s)\<rparr> in
           if finished then notify_local_content T (w\<lparr>hd_local_objects := tl (hd_local_objects w)\<rparr>)
           else Inr w)))"
  by pat_completeness auto
termination
  by (relation "measure (\<lambda>(T, w). length (hd_local_objects w))") (auto dest: poll_fields)

declare notify_local_content.simps [simp del]

section \<open>Receiving\<close>

definition get_user_handlers ::
  "('x, 'r, 'y) handler_traits \<Rightarrow> ('l, 'r, 'm, 'z) handler_http1_scheme
   \<Rightarrow> nat option \<times> ('l, 'r, 'm, 'z) handler_http1_scheme" where
  "get_user_handlers T w =
    (if \<not> hd_connector w then (None, w)
     else (let n = hd_next w in
       (Some n, w\<lparr>hd_next := Suc n, hd_remotes := (hd_remotes w)(n \<mapsto> tr_new_remote T),
          hd_locals := (hd_locals w)(n \<mapsto> local_new),
          hd_remote_objects := hd_remote_objects w @ [n],
          hd_local_objects := hd_local_objects w @ [n]\<rparr>)))"

definition get_current ::
  "('x, 'r, 'y) handler_traits \<Rightarrow> ('l, 'r, 'm, 'z) handler_http1_scheme
   \<Rightarrow> nat option \<times> ('l, 'r, 'm, 'z) handler_http1_scheme" where
  "get_current T w =
    (if hd_decoding_error w then (None, w)
     else (case hd_remote_objects w of
             [] \<Rightarrow> (None, raise_error Invalid_read (w\<lparr>hd_decoding_error := True\<rparr>))
           | c # _ \<Rightarrow>
              (if (case hd_remotes w c of Some r \<Rightarrow> tr_remote_ended T r | None \<Rightarrow> False)
               then (None, raise_error Invalid_read w)
               else (Some c, w))))"

definition decoding_failure ::
  "('x, 'r, 'y) handler_traits \<Rightarrow> ('x http_structured_data_scheme, 'r, 'm, 'z) handler_http1_scheme
   \<Rightarrow> ('x http_structured_data_scheme, 'r, 'm, 'z) handler_http1_scheme result" where
  "decoding_failure T w = (case get_current T w of
     (None, w) \<Rightarrow> Inr w
   | (Some c, w) \<Rightarrow>
      (let w = on_remote (tr_remote_error T Decoding) c w;
           w = w\<lparr>hd_remote_objects := tl (hd_remote_objects w)\<rparr>
       in if hd_local_objects w = [] then Inl Undefined_behaviour
          else (let w = on_local (tr_local_error T) (last (hd_local_objects w)) w
                in Inr (w\<lparr>hd_local_objects := tl (hd_local_objects w)\<rparr>))))"

definition decoding_end_server ::
  "('x, 'r, 'y) handler_traits \<Rightarrow> ('l, 'r, 'm, 'z) handler_http1_scheme \<Rightarrow> ('l, 'r, 'm, 'z) handler_http1_scheme" where
  "decoding_end_server T w = (case get_current T w of
     (None, w) \<Rightarrow> w
   | (Some c, w) \<Rightarrow>
      (let w = on_remote (tr_remote_finished T) c w
       in w\<lparr>hd_remote_objects := tl (hd_remote_objects w)\<rparr>))"

definition decoding_end_client ::
  "('x, 'r, 'y) handler_traits \<Rightarrow> ('l, 'r, 'm, 'z) handler_http1_scheme \<Rightarrow> ('l, 'r, 'm, 'z) handler_http1_scheme" where
  "decoding_end_client T w = (case get_current T w of
     (None, w) \<Rightarrow> w
   | (Some c, w) \<Rightarrow>
      (let w = w\<lparr>hd_remote_objects := tl (hd_remote_objects w)\<rparr>
       in if hd_managing_continue w then on_remote (tr_remote_continue T) c w
          else on_remote (tr_remote_finished T) c w))"

definition decoded_trailer ::
  "('x, 'r, 'y) handler_traits \<Rightarrow> string \<Rightarrow> string
   \<Rightarrow> ('l, 'r, 'm, 'z) handler_http1_scheme \<Rightarrow> ('l, 'r, 'm, 'z) handler_http1_scheme" where
  "decoded_trailer T k v w = (case get_current T w of
     (None, w) \<Rightarrow> w
   | (Some c, w) \<Rightarrow> if hd_managing_continue w then w else on_remote (tr_remote_trailer T k v) c w)"

definition decoded_body ::
  "('x, 'r, 'y) handler_traits \<Rightarrow> string
   \<Rightarrow> ('l, 'r, 'm, 'z) handler_http1_scheme \<Rightarrow> ('l, 'r, 'm, 'z) handler_http1_scheme" where
  "decoded_body T b w = (case get_current T w of
     (None, w) \<Rightarrow> w
   | (Some c, w) \<Rightarrow> on_remote (tr_remote_body T b) c w)"

definition update_persistent ::
  "('l, 'r, 'y http_structured_data_scheme, 'z) handler_http1_scheme
   \<Rightarrow> ('l, 'r, 'y http_structured_data_scheme, 'z) handler_http1_scheme result" where
  "update_persistent w =
    (let m = hd_current_decoded w;
         p = co_persistent (hd_conn w);
         p = (if sd_protocol m = HTTP10
              then p \<and> (has hf_connection m \<and> get_header hf_connection m = hv_keepalive)
              else p \<and> (\<not> has hf_connection m \<or> get_header hf_connection m = hv_keepalive));
         w = w\<lparr>hd_conn := (hd_conn w)\<lparr>co_persistent := p\<rparr>\<rparr>
     in res_bind (set_keepalive p m) (\<lambda>m. Inr (w\<lparr>hd_current_decoded := m\<rparr>)))"

definition decoded_headers_server ::
  "('x, 'r, 'y) handler_traits \<Rightarrow> ('l, 'r, 'y http_structured_data_scheme, 'z) handler_http1_scheme
   \<Rightarrow> ('l, 'r, 'y http_structured_data_scheme, 'z) handler_http1_scheme result" where
  "decoded_headers_server T w = (case get_current T w of
     (None, w) \<Rightarrow> Inr w
   | (Some c, w) \<Rightarrow>
      res_bind (update_persistent w) (\<lambda>w.
        let w = on_remote (tr_remote_headers T (hd_current_decoded w)) c w
        in res_bind (tr_empty_message T) (\<lambda>m. Inr (w\<lparr>hd_current_decoded := m\<rparr>))))"

definition decoded_headers_client ::
  "('x, 'r, 'y) handler_traits \<Rightarrow> ('l, 'r, 'y http_structured_data_scheme, 'z) handler_http1_scheme
   \<Rightarrow> ('l, 'r, 'y http_structured_data_scheme, 'z) handler_http1_scheme result" where
  "decoded_headers_client T w = (case get_current T w of
     (None, w) \<Rightarrow> Inr w
   | (Some c, w) \<Rightarrow>
      res_bind (update_persistent w) (\<lambda>w.
        let w = w\<lparr>hd_managing_continue := (tr_status_code T (hd_current_decoded w) = 100)\<rparr>;
            w = (if \<not> hd_managing_continue w
                 then on_remote (tr_remote_headers T (hd_current_decoded w)) c w else w)
        in res_bind (tr_empty_message T) (\<lambda>m. Inr (w\<lparr>hd_current_decoded := m\<rparr>))))"

text \<open>On a server a new message creates the pair of objects and hands it to the user.\<close>

definition decoder_begin ::
  "('x, 'r, 'y) handler_traits \<Rightarrow> ('l, 'r, 'm, 'z) handler_http1_scheme \<Rightarrow> ('l, 'r, 'm, 'z) handler_http1_scheme" where
  "decoder_begin T w =
    (if tr_server T
     then (let (f, w) = get_user_handlers T w in if hd_request_cb w then log_event [User_feedback f] w else w)
     else w)"

definition decoding_start ::
  "('x, 'r, 'y) handler_traits \<Rightarrow> ('l, 'r, 'm, 'z) handler_http1_scheme \<Rightarrow> ('l, 'r, 'm, 'z) handler_http1_scheme" where
  "decoding_start T w = decoder_begin T (w\<lparr>hd_decoding_error := False, hd_managing_continue := False\<rparr>)"

text \<open>
  The callbacks the decoder makes while it reads; \<open>D_headers\<close> comes with the message object
  as the decoder has filled it in.
\<close>

datatype 'm codec_event = D_start | D_headers 'm | D_body string | D_trailer string string
  | D_complete | D_failure

fun handle_codec_event ::
  "('x, 'r, 'y) handler_traits \<Rightarrow> 'y http_structured_data_scheme codec_event
   \<Rightarrow> ('x http_structured_data_scheme, 'r, 'y http_structured_data_scheme, 'z) handler_http1_scheme
   \<Rightarrow> ('x http_structured_data_scheme, 'r, 'y http_structured_data_scheme, 'z) handler_http1_scheme result" where
  "handle_codec_event T D_start w = Inr (decoding_start T w)"
| "handle_codec_event T (D_headers m) w =
    (if tr_server T then decoded_headers_server T (w\<lparr>hd_current_decoded := m\<rparr>)
     else decoded_headers_client T (w\<lparr>hd_current_decoded := m\<rparr>))"
| "handle_codec_event T (D_body b) w = Inr (decoded_body T b w)"
| "handle_codec_event T (D_trailer k v) w = Inr (decoded_trailer T k v w)"
| "handle_codec_event T D_complete w =
    Inr (if tr_server T then decoding_end_server T w else decoding_end_client T w)"
| "handle_codec_event T D_failure w = decoding_failure T w"

fun handle_codec_events ::
  "('x, 'r, 'y) handler_traits \<Rightarrow> 'y http_structured_data_scheme codec_event list
   \<Rightarrow> ('x http_structured_data_scheme, 'r, 'y http_structured_data_scheme, 'z) handler_http1_scheme
   \<Rightarrow> ('x http_structured_data_scheme, 'r, 'y http_structured_data_scheme, 'z) handler_http1_scheme result" where
  "handle_codec_events T [] w = Inr w"
| "handle_codec_events T (ev # evs) w = res_bind (handle_codec_event T ev w) (handle_codec_events T evs)"

text \<open>
  The handler as the client of its codec: the object the codec fills in is the handler's
  \<open>current_decoded_object\<close>, a request on a server and a response on a client; the error
  callback leaves the error fatal.
\<close>

definition handler_client ::
  "('x, 'r, 'y) handler_traits
   \<Rightarrow> ('x http_structured_data_scheme, 'r, 'y http_structured_data_scheme, 'z) handler_http1_scheme codec_client" where
  "handler_client T = \<lparr>cc_get = (\<lambda>w. tr_object T (hd_current_decoded w)),
     cc_put = (\<lambda>m w. case tr_of_object T m of Some d \<Rightarrow> w\<lparr>hd_current_decoded := d\<rparr> | None \<Rightarrow> w),
     cc_begin = (\<lambda>w. res_bind (handle_codec_event T D_start w) (\<lambda>w. Inr (True, w))),
     cc_headers = (\<lambda>w. handle_codec_event T (D_headers (hd_current_decoded w)) w),
     cc_body = (\<lambda>b. handle_codec_event T (D_body b)),
     cc_trailer = (\<lambda>k v. handle_codec_event T (D_trailer k v)),
     cc_complete = handle_codec_event T D_complete,
     cc_error = (\<lambda>e w. res_bind (handle_codec_event T D_failure w) (\<lambda>w. Inr (True, w)))\<rparr>"

definition hd_on_read ::
  "('x, 'r, 'y) handler_traits \<Rightarrow> string
   \<Rightarrow> ('x http_structured_data_scheme, 'r, 'y http_structured_data_scheme, 'z) handler_http1_scheme
   \<Rightarrow> (bool \<times> ('x http_structured_data_scheme, 'r, 'y http_structured_data_scheme, 'z) handler_http1_scheme) result" where
  "hd_on_read T data w = res_bind (codec_decode (handler_client T) data (hd_decoder w) w)
     (\<lambda>(rv, d, w). Inr (rv, w\<lparr>hd_decoder := d\<rparr>))"

section \<open>Closing\<close>

definition hd_close ::
  "('x, 'r, 'y) handler_traits \<Rightarrow> ('x http_structured_data_scheme, 'r, 'm, 'z) handler_http1_scheme
   \<Rightarrow> ('x http_structured_data_scheme, 'r, 'm, 'z) handler_http1_scheme" where
  "hd_close T w =
    (let w = w\<lparr>hd_user_close := True\<rparr>;
         w = (if hd_connector w then connector_close w else w)
     in deinit (notify_all T Connection_closed w))"

text \<open>The feedbacks the connector posts: success or error of a completed outgoing object.\<close>

definition feedback_success ::
  "('x, 'r, 'y) handler_traits \<Rightarrow> nat \<Rightarrow> ('x http_structured_data_scheme, 'r, 'm, 'z) handler_http1_scheme
   \<Rightarrow> ('x http_structured_data_scheme, 'r, 'm, 'z) handler_http1_scheme" where
  "feedback_success T i w = on_local (tr_local_cleared T) i w"

definition feedback_error ::
  "('x, 'r, 'y) handler_traits \<Rightarrow> nat \<Rightarrow> ('x http_structured_data_scheme, 'r, 'm, 'z) handler_http1_scheme
   \<Rightarrow> ('x http_structured_data_scheme, 'r, 'm, 'z) handler_http1_scheme" where
  "feedback_error T i w = on_local (tr_local_error T) i w"

definition on_connector_nulled ::
  "('x, 'r, 'y) handler_traits \<Rightarrow> ('x http_structured_data_scheme, 'r, 'm, 'z) handler_http1_scheme
   \<Rightarrow> ('x http_structured_data_scheme, 'r, 'm, 'z) handler_http1_scheme" where
  "on_connector_nulled T w =
    (if hd_user_close w then w
     else (let w = notify_all T Closed_by_client w;
               w = deinit (raise_error Closed_by_client w);
               w = fold (feedback_error T) (hd_pending_clear w) w
           in w\<lparr>hd_pending_clear := []\<rparr>))"

text \<open>\<open>http_handler::connector\<close>: the weak pointer is set; a null one is the end of the socket.\<close>

definition set_connector ::
  "('x, 'r, 'y) handler_traits \<Rightarrow> bool \<Rightarrow> ('x http_structured_data_scheme, 'r, 'm, 'z) handler_http1_scheme
   \<Rightarrow> ('x http_structured_data_scheme, 'r, 'm, 'z) handler_http1_scheme" where
  "set_connector T conn w =
    (let w = w\<lparr>hd_connector := conn\<rparr> in if \<not> hd_connector w then on_connector_nulled T w else w)"

section \<open>What the user does with an outgoing object\<close>

definition user_write ::
  "('x, 'r, 'y) handler_traits \<Rightarrow> nat
   \<Rightarrow> ('x http_structured_data_scheme local_object \<Rightarrow> 'x http_structured_data_scheme local_object)
   \<Rightarrow> ('x http_structured_data_scheme, 'r, 'm, 'z) handler_http1_scheme
   \<Rightarrow> ('x http_structured_data_scheme, 'r, 'm, 'z) handler_http1_scheme result" where
  "user_write T i f w = (case hd_locals w i of
     None \<Rightarrow> Inl Undefined_behaviour
   | Some l \<Rightarrow> notify_local_content T (w\<lparr>hd_locals := (hd_locals w)(i \<mapsto> f l)\<rparr>))"

definition user_end ::
  "('x, 'r, 'y) handler_traits \<Rightarrow> nat \<Rightarrow> ('x http_structured_data_scheme, 'r, 'm, 'z) handler_http1_scheme
   \<Rightarrow> ('x http_structured_data_scheme, 'r, 'm, 'z) handler_http1_scheme result" where
  "user_end T i w = res_bind (user_write T i local_ccb w) (\<lambda>w.
     case hd_locals w i of
       None \<Rightarrow> Inl Undefined_behaviour
     | Some l \<Rightarrow> Inr (w\<lparr>hd_locals := (hd_locals w)(i \<mapsto>
         (if tr_server T then response_end_retain l else client_request_end_retain l))\<rparr>))"

end
