(* ===== verification/Http1_Properties.thy ===== *)
theory Http1_Properties
  imports Handler_Http1
begin

text \<open>
  What the HTTP/1 handler and its connector guarantee together: the instances of the template
  for servers and clients, the handler as the write source of its connector, and the
  properties of sending, receiving and closing.
\<close>

section \<open>The instances of the template\<close>

definition default_request :: http_request where
  "default_request = projr (http_request_new False HTTP_GET)"

definition default_response :: "16 word \<Rightarrow> http_response" where
  "default_response junk = projr (http_response_new junk)"

text \<open>The answer to \<open>Expect: 100-continue\<close> that \<open>poll_local\<close> builds on a server.\<close>

definition continue_response :: "16 word \<Rightarrow> http_response result" where
  "continue_response junk = res_bind (http_response_new junk)
     (\<lambda>r. res_bind (set_protocol HTTP11 r) (\<lambda>r. Inr (set_status 100 r)))"

definition server_traits :: "16 word \<Rightarrow> (unit http_response_ext, request, unit http_request_ext) handler_traits" where
  "server_traits junk = \<lparr>tr_server = True, tr_serialize = response_serialize,
     tr_local_error = response_error, tr_local_cleared = response_cleared,
     tr_new_remote = request_new default_request, tr_remote_headers = request_headers,
     tr_remote_body = request_body, tr_remote_trailer = request_trailer,
     tr_remote_finished = request_finished, tr_remote_error = request_error,
     tr_remote_continue = (\<lambda>r. (r, [])), tr_remote_ended = request_ended,
     tr_empty_message = http_request_new False HTTP_GET, tr_status_code = (\<lambda>m. 0),
     tr_continue_message = continue_response junk, tr_object = Decoded_request,
     tr_of_object = (\<lambda>m. case m of Decoded_request r \<Rightarrow> Some r | Decoded_response _ \<Rightarrow> None)\<rparr>"

definition client_traits :: "16 word \<Rightarrow> (unit http_request_ext, client_response, unit http_response_ext) handler_traits" where
  "client_traits junk = \<lparr>tr_server = False, tr_serialize = request_serialize,
     tr_local_error = client_request_error, tr_local_cleared = client_request_cleared,
     tr_new_remote = client_response_new (default_response junk), tr_remote_headers = client_response_headers,
     tr_remote_body = client_response_body, tr_remote_trailer = client_response_trailer,
     tr_remote_finished = client_response_finished, tr_remote_error = client_response_error,
     tr_remote_continue = client_response_continue, tr_remote_ended = cr_ended,
     tr_empty_message = http_response_new junk, tr_status_code = rs_status_code,
     tr_continue_message = Inl Assert_failed, tr_object = Decoded_response,
     tr_of_object = (\<lambda>m. case m of Decoded_request _ \<Rightarrow> None | Decoded_response r \<Rightarrow> Some r)\<rparr>"

section \<open>The handler as the write source of its connector\<close>

lemma handler_of_more [simp]:
  "hd_serialization (connector.extend c (connector.more w)) = hd_serialization w"
  "hd_pending_clear (connector.extend c (connector.more w)) = hd_pending_clear w"
  "hd_connector (connector.extend c (connector.more w)) = hd_connector w"
  by (cases w; simp add: connector.extend_def)+

lemma truncate_updates [simp]:
  "connector.truncate (w\<lparr>hd_serialization := s\<rparr>) = connector.truncate w"
  "connector.truncate (w\<lparr>hd_pending_clear := p\<rparr>) = connector.truncate w"
  by (simp_all add: connector.truncate_def)

interpretation http1: write_source hd_on_write hd_should_stop hd_write_feedbacks
  "\<lambda>m. hd_serialization (connector.extend connector_new m)"
  "\<lambda>m. hd_pending_clear (connector.extend connector_new m)"
  "\<lambda>m. hd_connector (connector.extend connector_new m)"
  by unfold_locales (auto simp: hd_on_write_def hd_write_feedbacks_def split: if_splits)

text \<open>All bytes the handler has serialised: those given to the socket, then those still held.\<close>

definition wire :: "('l, 'r, 'm, 'z) handler_http1_scheme \<Rightarrow> string" where
  "wire w = written w @ hd_serialization w"

text \<open>All completed outgoing objects: reported, waiting for their write, or about to be.\<close>

definition completions :: "('l, 'r, 'm, 'z) handler_http1_scheme \<Rightarrow> nat list" where
  "completions w = delivered w @ concat (cn_inflight w) @ hd_pending_clear w"

definition no_stuck_bytes :: "('l, 'r, 'm, 'z) handler_http1_scheme \<Rightarrow> bool" where
  "no_stuck_bytes w \<longleftrightarrow> (hd_connector w \<and> \<not> cn_stopped w \<and> \<not> cn_writing w \<longrightarrow> hd_serialization w = [])"

lemma http1_stream [simp]: "http1.stream w = wire w"
  by (simp add: http1.stream_def wire_def)

lemma http1_feedback_stream [simp]: "http1.feedback_stream w = completions w"
  by (simp add: http1.feedback_stream_def completions_def)

lemma http1_drained [simp]: "http1.drained w = no_stuck_bytes w"
  by (simp add: http1.drained_def no_stuck_bytes_def)

lemma hd_do_write_preserves:
  assumes "conn_inv w"
  shows "conn_inv (hd_do_write w)" "wire (hd_do_write w) = wire w" "completions (hd_do_write w) = completions w"
    "no_stuck_bytes (hd_do_write w)" "cn_stopped (hd_do_write w) = cn_stopped w" "cn_rb (hd_do_write w) = cn_rb w"
  using http1.flush_preserves [OF assms] assms
  by (simp_all add: hd_do_write_def no_stuck_bytes_def)

section \<open>What is sent\<close>

fun enc_item ::
  "('x http_structured_data_scheme \<Rightarrow> string result) \<Rightarrow> 'x http_structured_data_scheme item
   \<Rightarrow> http_encoder \<Rightarrow> (string \<times> http_encoder) result" where
  "enc_item ser (I_headers h) e = encode_header ser h e"
| "enc_item ser (I_body b) e = encode_body b e"
| "enc_item ser (I_trailer k v) e = encode_trailer k v e"
| "enc_item ser I_end e = encode_eom e"

fun enc_items ::
  "('x http_structured_data_scheme \<Rightarrow> string result) \<Rightarrow> 'x http_structured_data_scheme item list
   \<Rightarrow> http_encoder \<Rightarrow> (string \<times> http_encoder) result" where
  "enc_items ser [] e = Inr ([], e)"
| "enc_items ser (it # its) e = res_bind (enc_item ser it e)
    (\<lambda>(s, e). res_bind (enc_items ser its e) (\<lambda>(t, e). Inr (s @ t, e)))"

text \<open>
  The items that may go out: those of the first object, and as long as objects have ended those
  of the next one.
\<close>

fun ready_items :: "'h local_object list \<Rightarrow> 'h item list" where
  "ready_items [] = []"
| "ready_items (l # ls) = items l @ (if lo_ended l then ready_items ls else [])"

text \<open>The parts of the state that sending keeps.\<close>

definition same_objects :: "('l, 'r, 'm, 'z) handler_http1_scheme \<Rightarrow> ('l, 'r, 'm, 'z) handler_http1_scheme \<Rightarrow> bool" where
  "same_objects w w' \<longleftrightarrow> hd_local_objects w' = hd_local_objects w \<and> hd_locals w' = hd_locals w
    \<and> hd_connector w' = hd_connector w \<and> cn_stopped w' = cn_stopped w \<and> hd_decoder w' = hd_decoder w"

lemma same_objects_refl [simp]: "same_objects w w"
  by (simp add: same_objects_def)

lemma same_objects_trans: "same_objects u v \<Longrightarrow> same_objects v w \<Longrightarrow> same_objects u w"
  by (simp add: same_objects_def)

lemma wire_update [simp]:
  "wire (w\<lparr>hd_serialization := s, hd_encoder := e\<rparr>) = written w @ s"
  "wire (w\<lparr>hd_conn := c\<rparr>) = wire w" "wire (w\<lparr>hd_pending_clear := p\<rparr>) = wire w"
  "wire (w\<lparr>hd_locals := h\<rparr>) = wire w" "wire (w\<lparr>hd_local_objects := o'\<rparr>) = wire w"
  "wire (hd_cleared T w) = wire w"
  by (simp_all add: wire_def written_def hd_cleared_def log_event_def)

lemma conn_inv_update [simp]:
  "conn_inv (w\<lparr>hd_serialization := s, hd_encoder := e\<rparr>) = conn_inv w"
  "conn_inv (w\<lparr>hd_conn := c\<rparr>) = conn_inv w" "conn_inv (w\<lparr>hd_pending_clear := p\<rparr>) = conn_inv w"
  "conn_inv (w\<lparr>hd_locals := h\<rparr>) = conn_inv w" "conn_inv (w\<lparr>hd_local_objects := o'\<rparr>) = conn_inv w"
  "conn_inv (hd_cleared T w) = conn_inv w"
  by (simp_all add: conn_inv_def hd_cleared_def log_event_def)

lemma hd_cleared_state [simp]:
  "no_stuck_bytes (hd_cleared T w) = no_stuck_bytes w" "cn_stopped (hd_cleared T w) = cn_stopped w"
  by (simp_all add: no_stuck_bytes_def hd_cleared_def log_event_def)

lemma send_out:
  assumes "conn_inv w"
  shows "\<exists>w'. hd_do_write (w\<lparr>hd_serialization := hd_serialization w @ s, hd_encoder := e\<rparr>) = w'
    \<and> wire w' = wire w @ s \<and> hd_encoder w' = e \<and> conn_inv w' \<and> no_stuck_bytes w' \<and> same_objects w w'"
  using hd_do_write_preserves [of "w\<lparr>hd_serialization := hd_serialization w @ s, hd_encoder := e\<rparr>"] assms
  by (simp add: same_objects_def) (simp add: wire_def)

lemma send_item_enc:
  assumes "conn_inv w"
  shows "case enc_item (tr_serialize T) it (hd_encoder w) of
     Inl f \<Rightarrow> send_item T i it w = Inl f
   | Inr (s, e) \<Rightarrow> \<exists>w'. send_item T i it w = Inr w' \<and> wire w' = wire w @ s \<and> hd_encoder w' = e
        \<and> conn_inv w' \<and> no_stuck_bytes w' \<and> same_objects w w'"
proof (cases "enc_item (tr_serialize T) it (hd_encoder w)")
  case (Inl f)
  then show ?thesis
    by (cases it)
      (simp_all add: send_item_def notify_local_headers_def notify_local_body_def
        notify_local_trailer_def notify_local_end_def Let_def)
next
  case (Inr se)
  obtain s e where se: "se = (s, e)" by (cases se)
  show ?thesis
  proof (cases it)
    case (I_headers h)
    then show ?thesis
      using Inr se send_out [of "if has hf_connection h then w\<lparr>hd_conn := (hd_conn w)
          \<lparr>co_persistent := get_header hf_connection h = hv_keepalive\<rparr>\<rparr> else w" e s] assms
      by (auto simp: send_item_def notify_local_headers_def Let_def same_objects_def)
  next
    case (I_body b)
    then show ?thesis
      using Inr se send_out [OF assms, of e s] by (simp add: send_item_def notify_local_body_def)
  next
    case (I_trailer k v)
    then show ?thesis
      using Inr se send_out [OF assms, of e s] by (simp add: send_item_def notify_local_trailer_def)
  next
    case I_end
    then show ?thesis
      using Inr se send_out [of "w\<lparr>hd_pending_clear := hd_pending_clear w @ [i]\<rparr>" e s] assms
      by (simp add: send_item_def notify_local_end_def same_objects_def)
  qed
qed


lemma send_items_enc:
  assumes "conn_inv w"
  shows "case enc_items (tr_serialize T) its (hd_encoder w) of
     Inl f \<Rightarrow> send_items T i its w = Inl f
   | Inr (s, e) \<Rightarrow> \<exists>w'. send_items T i its w = Inr w' \<and> wire w' = wire w @ s \<and> hd_encoder w' = e
        \<and> conn_inv w' \<and> (no_stuck_bytes w \<longrightarrow> no_stuck_bytes w') \<and> same_objects w w'"
  using assms
proof (induction its arbitrary: w)
  case (Cons it its)
  note step = send_item_enc [OF Cons.prems, where T = T and it = it and i = i]
  show ?case
  proof (cases "enc_item (tr_serialize T) it (hd_encoder w)")
    case (Inl f)
    then show ?thesis using step by simp
  next
    case (Inr se)
    obtain s e where se: "se = (s, e)" by (cases se)
    obtain w1 where w1: "send_item T i it w = Inr w1" "wire w1 = wire w @ s" "hd_encoder w1 = e"
      "conn_inv w1" "no_stuck_bytes w1" "same_objects w w1"
      using step Inr se by auto
    show ?thesis
    proof (cases "enc_items (tr_serialize T) its e")
      case (Inl f)
      then show ?thesis using Cons.IH [OF w1(4)] w1 Inr se by simp
    next
      case (Inr te)
      obtain t e' where te: "te = (t, e')" by (cases te)
      obtain w2 where "send_items T i its w1 = Inr w2" "wire w2 = wire w1 @ t" "hd_encoder w2 = e'"
        "conn_inv w2" "no_stuck_bytes w2" "same_objects w1 w2"
        using Cons.IH [OF w1(4)] w1 Inr te by auto
      then show ?thesis
        using w1 \<open>enc_item (tr_serialize T) it (hd_encoder w) = Inr se\<close> se Inr te
        by (auto intro: same_objects_trans)
    qed
  qed
qed simp

lemma enc_items_append:
  "enc_items ser (xs @ ys) e = res_bind (enc_items ser xs e)
    (\<lambda>(s, e). res_bind (enc_items ser ys e) (\<lambda>(t, e). Inr (s @ t, e)))"
  by (induction xs arbitrary: e) (auto simp: res_bind_def split: sum.splits)

text \<open>All objects in the queue are alive, distinct, and none asks for a provisional answer.\<close>

definition queue_alive ::
  "('x, 'r, 'y) handler_traits \<Rightarrow> ('l, 'r, 'm, 'z) handler_http1_scheme \<Rightarrow> bool" where
  "queue_alive T w \<longleftrightarrow> distinct (hd_local_objects w)
    \<and> (\<forall>i\<in>set (hd_local_objects w). \<exists>l. hd_locals w i = Some l \<and> (tr_server T \<longrightarrow> \<not> lo_continue_required l))"

definition queue_objects :: "('l, 'r, 'm, 'z) handler_http1_scheme \<Rightarrow> 'l local_object list" where
  "queue_objects w = map (\<lambda>i. the (hd_locals w i)) (hd_local_objects w)"

lemma notify_local_content_enc:
  assumes "conn_inv w" "queue_alive T w" "hd_local_objects w = ids"
  shows "case enc_items (tr_serialize T) (ready_items (queue_objects w)) (hd_encoder w) of
     Inl f \<Rightarrow> notify_local_content T w = Inl f
   | Inr (s, e) \<Rightarrow> \<exists>w'. notify_local_content T w = Inr w' \<and> wire w' = wire w @ s \<and> hd_encoder w' = e
        \<and> hd_local_objects w' = dropWhile (\<lambda>i. lo_ended (the (hd_locals w i))) ids
        \<and> conn_inv w' \<and> (no_stuck_bytes w \<longrightarrow> no_stuck_bytes w')"
  using assms
proof (induction ids arbitrary: w)
  case Nil
  then show ?case by (subst notify_local_content.simps) (simp add: queue_objects_def)
next
  case (Cons i ids)
  obtain l where l: "hd_locals w i = Some l" "tr_server T \<longrightarrow> \<not> lo_continue_required l"
    using Cons.prems(2,3) by (auto simp: queue_alive_def)
  let ?ser = "tr_serialize T"
  let ?rest = "map (\<lambda>i. the (hd_locals w i)) ids"
  have ready: "ready_items (queue_objects w) = items l @ (if lo_ended l then ready_items ?rest else [])"
    using Cons.prems(3) l by (simp add: queue_objects_def)
  have poll: "poll T i l w = res_bind (send_items T i (items l) w) (\<lambda>w. Inr (lo_ended l, emptied l, w))"
    using l(2) by (intro poll_items) auto
  note step = send_items_enc [OF Cons.prems(1), where T = T and its = "items l" and i = i]
  have unfold: "notify_local_content T w = res_bind (poll T i l w) (\<lambda>(finished, s, w).
           let w = w\<lparr>hd_locals := (hd_locals w)(i \<mapsto> s)\<rparr> in
           if finished then notify_local_content T (w\<lparr>hd_local_objects := tl (hd_local_objects w)\<rparr>)
           else Inr w)"
    using Cons.prems(3) l by (subst notify_local_content.simps) simp
  show ?case
  proof (cases "enc_items ?ser (items l) (hd_encoder w)")
    case (Inl f)
    then show ?thesis using step unfold poll ready by (simp add: enc_items_append)
  next
    case (Inr se)
    obtain s e where se: "se = (s, e)" by (cases se)
    obtain w1 where w1: "send_items T i (items l) w = Inr w1" "wire w1 = wire w @ s" "hd_encoder w1 = e"
      "conn_inv w1" "no_stuck_bytes w \<longrightarrow> no_stuck_bytes w1" "same_objects w w1"
      using step Inr se by auto
    let ?w2 = "w1\<lparr>hd_locals := (hd_locals w1)(i \<mapsto> emptied l)\<rparr>"
    let ?w3 = "?w2\<lparr>hd_local_objects := tl (hd_local_objects ?w2)\<rparr>"
    have objs: "hd_local_objects w1 = i # ids" "hd_locals w1 = hd_locals w" "i \<notin> set ids" "distinct ids"
      using w1(6) Cons.prems(2,3) by (auto simp: same_objects_def queue_alive_def)
    show ?thesis
    proof (cases "lo_ended l")
      case False
      then show ?thesis
        using unfold poll w1 Inr se ready objs l Cons.prems(3) by (simp add: no_stuck_bytes_def)
    next
      case True
      have alive: "queue_alive T ?w3"
        using Cons.prems(2,3) objs by (auto simp: queue_alive_def)
      have rest: "queue_objects ?w3 = ?rest"
        using objs by (auto simp: queue_objects_def intro!: map_cong)
      have same: "dropWhile (\<lambda>j. lo_ended (the (hd_locals ?w3 j))) ids
          = dropWhile (\<lambda>j. lo_ended (the (hd_locals w j))) ids"
        using objs by (intro dropWhile_cong) auto
      have unfold3: "notify_local_content T w = notify_local_content T ?w3"
        using unfold poll w1(1) True by (simp add: Let_def)
      have "conn_inv ?w3" "hd_local_objects ?w3 = ids" using w1(4) objs by simp_all
      note IH = Cons.IH [OF this(1) alive this(2)]
      have wire3: "wire ?w3 = wire w @ s" using w1(2) by simp
      have stuck3: "no_stuck_bytes ?w3 = no_stuck_bytes w1" by (simp add: no_stuck_bytes_def)
      show ?thesis
      proof (cases "enc_items ?ser (ready_items ?rest) e")
        case (Inl f)
        then show ?thesis
          using IH unfold3 ready True \<open>enc_items ?ser (items l) (hd_encoder w) = Inr se\<close> se w1(3)
          unfolding rest by (simp add: enc_items_append)
      next
        case (Inr te)
        obtain t e' where te: "te = (t, e')" by (cases te)
        obtain w' where "notify_local_content T ?w3 = Inr w'" "wire w' = wire ?w3 @ t" "hd_encoder w' = e'"
          "hd_local_objects w' = dropWhile (\<lambda>j. lo_ended (the (hd_locals ?w3 j))) ids"
          "conn_inv w'" "no_stuck_bytes ?w3 \<longrightarrow> no_stuck_bytes w'"
          using IH Inr te w1(3) unfolding rest by auto
        then show ?thesis
          using unfold3 ready True \<open>enc_items ?ser (items l) (hd_encoder w) = Inr se\<close> se w1(5) Inr te
            wire3 same stuck3 l Cons.prems(3)
          by (auto simp: enc_items_append)
      qed
    qed
  qed
qed


section \<open>How a connection evolves\<close>

text \<open>
  Between two states of a connection the bytes on the wire only grow, a stopped connector stays
  stopped, one write at most is outstanding, no serialised byte gets stuck and the decoder stays
  well-formed.
\<close>

definition evolves :: "('l, 'r, 'm, 'z) handler_http1_scheme \<Rightarrow> ('l, 'r, 'm, 'z) handler_http1_scheme \<Rightarrow> bool" where
  "evolves w w' \<longleftrightarrow> (conn_inv w \<and> decoder_ok (hd_decoder w) \<longrightarrow> conn_inv w' \<and> decoder_ok (hd_decoder w')
     \<and> prefix (wire w) (wire w')
     \<and> (cn_stopped w \<longrightarrow> cn_stopped w') \<and> (no_stuck_bytes w \<longrightarrow> no_stuck_bytes w'))"

lemma evolves_refl [simp]: "evolves w w"
  by (simp add: evolves_def)

lemma evolves_trans: "evolves u v \<Longrightarrow> evolves v w \<Longrightarrow> evolves u w"
  by (auto simp: evolves_def intro: prefix_order.trans)

text \<open>What an operation that leaves the connector and the serialised bytes alone does not change.\<close>

definition conn_part ::
  "('l, 'r, 'm, 'z) handler_http1_scheme \<Rightarrow> nat connector \<times> string \<times> bool \<times> http_decoder" where
  "conn_part w = (connector.truncate w, hd_serialization w, hd_connector w, hd_decoder w)"

lemma conn_part_evolves: "conn_part w' = conn_part w \<Longrightarrow> evolves w w'"
  by (auto simp: conn_part_def evolves_def conn_inv_def wire_def written_def no_stuck_bytes_def
      connector.truncate_def)

lemma conn_part_updates [simp]:
  "conn_part (w\<lparr>hd_locals := h\<rparr>) = conn_part w" "conn_part (w\<lparr>hd_local_objects := l\<rparr>) = conn_part w"
  "conn_part (w\<lparr>hd_remotes := r\<rparr>) = conn_part w" "conn_part (w\<lparr>hd_next := n\<rparr>) = conn_part w"
  "conn_part (w\<lparr>hd_remote_objects := l\<rparr>) = conn_part w" "conn_part (w\<lparr>hd_current_decoded := m\<rparr>) = conn_part w"
  "conn_part (w\<lparr>hd_conn := c\<rparr>) = conn_part w" "conn_part (w\<lparr>hd_pending_clear := p\<rparr>) = conn_part w"
  "conn_part (w\<lparr>hd_managing_continue := b\<rparr>) = conn_part w" "conn_part (w\<lparr>hd_decoding_error := b\<rparr>) = conn_part w"
  "conn_part (w\<lparr>hd_user_close := b\<rparr>) = conn_part w" "conn_part (w\<lparr>hd_events := es\<rparr>) = conn_part w"
  by (simp_all add: conn_part_def connector.truncate_def)

lemma conn_part_ops [simp]:
  "conn_part (log_event es w) = conn_part w" "conn_part (raise_error e w) = conn_part w"
  "conn_part (deinit w) = conn_part w" "conn_part (hd_cleared T w) = conn_part w"
  "conn_part (on_local f i w) = conn_part w" "conn_part (on_remote g j w) = conn_part w"
  by (auto simp: log_event_def raise_error_def deinit_def hd_cleared_def on_local_def on_remote_def
      Let_def case_prod_beta split: option.splits)

lemma conn_part_fold: "(\<And>i v. conn_part (f i v) = conn_part v) \<Longrightarrow> conn_part (fold f is w) = conn_part w"
  by (induction "is" arbitrary: w) auto

lemma conn_part_notify_all [simp]: "conn_part (notify_all T e w) = conn_part w"
  by (simp add: notify_all_def Let_def conn_part_fold)

lemma conn_part_get_current: "get_current T w = (c, w') \<Longrightarrow> conn_part w' = conn_part w"
  by (auto simp: get_current_def split: if_splits list.splits option.splits)

lemma send_items_evolves:
  assumes "send_items T i its w = Inr w'"
  shows "evolves w w'"
  unfolding evolves_def
proof (intro impI)
  assume inv: "conn_inv w \<and> decoder_ok (hd_decoder w)"
  then have "conn_inv w" by simp
  from send_items_enc [OF this, where T = T and its = its and i = i] assms inv
  show "conn_inv w' \<and> decoder_ok (hd_decoder w') \<and> prefix (wire w) (wire w') \<and> (cn_stopped w \<longrightarrow> cn_stopped w')
    \<and> (no_stuck_bytes w \<longrightarrow> no_stuck_bytes w')"
    by (auto simp: same_objects_def split: sum.splits prod.splits)
qed

lemma poll_evolves:
  assumes "poll T i loc w = Inr (b, loc', w')"
  shows "evolves w w'"
proof (cases "tr_server T \<and> lo_continue_required loc")
  case True
  then obtain r s e t e' where "tr_continue_message T = Inr r"
    "w' = hd_do_write (w\<lparr>hd_serialization := hd_serialization w @ s @ t, hd_encoder := e'\<rparr>)"
    using assms by (auto simp: poll_def poll_local_server_continue res_bind_eq_Inr)
  then show ?thesis
    using send_out [of w e' "s @ t"] by (auto simp: evolves_def same_objects_def)
next
  case False
  then show ?thesis
    using assms poll_items [of T loc i w] by (auto simp: res_bind_eq_Inr dest: send_items_evolves)
qed

lemma notify_local_content_evolves: "notify_local_content T w = Inr w' \<Longrightarrow> evolves w w'"
proof (induction T w rule: notify_local_content.induct)
  case (1 T w)
  show ?case
  proof (cases "hd_local_objects w")
    case Nil
    then show ?thesis using "1.prems" by (subst (asm) notify_local_content.simps) simp
  next
    case (Cons c rest)
    show ?thesis
    proof (cases "hd_locals w c")
      case None
      then have "w' = deinit (notify_all T Missing_stream_element (raise_error Missing_stream_element w))"
        using "1.prems" Cons by (subst (asm) notify_local_content.simps) simp
      then show ?thesis
        by (simp add: conn_part_evolves)
    next
      case (Some s)
      obtain fin s' w1 where p: "poll T c s w = Inr (fin, s', w1)"
        using "1.prems" Cons Some
        by (subst (asm) notify_local_content.simps) (auto simp: res_bind_eq_Inr)
      let ?w2 = "w1\<lparr>hd_locals := (hd_locals w1)(c \<mapsto> s')\<rparr>"
      have e2: "evolves w ?w2"
        by (rule evolves_trans [OF poll_evolves [OF p]]) (simp add: conn_part_evolves)
      show ?thesis
      proof (cases fin)
        case False
        then show ?thesis
          using "1.prems" Cons Some p e2 by (subst (asm) notify_local_content.simps) simp
      next
        case True
        let ?w3 = "?w2\<lparr>hd_local_objects := tl (hd_local_objects ?w2)\<rparr>"
        have "notify_local_content T ?w3 = Inr w'"
          using "1.prems" Cons Some p True by (subst (asm) notify_local_content.simps) simp
        then have "evolves ?w3 w'"
          using "1.IH" [OF Cons Some p refl refl refl True] by simp
        moreover have "evolves ?w2 ?w3" by (simp add: conn_part_evolves)
        ultimately show ?thesis using e2 evolves_trans by blast
      qed
    qed
  qed
qed


subsection \<open>Every step of a connection\<close>

lemma conn_part_decoding [simp]:
  "conn_part (decoded_body T b w) = conn_part w" "conn_part (decoded_trailer T k v w) = conn_part w"
  "conn_part (decoding_end_server T w) = conn_part w" "conn_part (decoding_end_client T w) = conn_part w"
  by (auto simp: decoded_body_def decoded_trailer_def decoding_end_server_def decoding_end_client_def
      Let_def split: option.splits prod.splits dest: conn_part_get_current)

lemma conn_part_failure: "decoding_failure T w = Inr w' \<Longrightarrow> conn_part w' = conn_part w"
  by (auto simp: decoding_failure_def Let_def split: option.splits prod.splits if_splits
      dest: conn_part_get_current)

lemma conn_part_update_persistent: "update_persistent w = Inr w' \<Longrightarrow> conn_part w' = conn_part w"
  by (auto simp: update_persistent_def Let_def res_bind_eq_Inr)

lemma conn_part_headers:
  "decoded_headers_server T w = Inr w' \<Longrightarrow> conn_part w' = conn_part w"
  "decoded_headers_client T w = Inr w' \<Longrightarrow> conn_part w' = conn_part w"
  by (auto simp: decoded_headers_server_def decoded_headers_client_def Let_def res_bind_eq_Inr
      split: option.splits prod.splits if_splits
      dest!: conn_part_get_current conn_part_update_persistent)

lemma conn_part_start [simp]: "conn_part (decoding_start T w) = conn_part w"
  by (simp add: decoding_start_def decoder_begin_def get_user_handlers_def Let_def)

lemma conn_part_codec_event: "handle_codec_event T ev w = Inr w' \<Longrightarrow> conn_part w' = conn_part w"
  by (cases ev) (auto dest!: conn_part_failure conn_part_headers split: if_splits)

lemma yields_codec_event: "conn_part w = x \<Longrightarrow> yields (\<lambda>w. conn_part w = x) (handle_codec_event T ev w)"
  by (cases "handle_codec_event T ev w") (simp_all add: conn_part_codec_event)

lemma handler_client_ok: "client_ok (\<lambda>w. conn_part w = x) (handler_client T)"
  by (auto simp: client_ok_def handler_client_def simp del: handle_codec_event.simps
      intro!: yields_codec_event yields_bind [OF yields_codec_event] split: option.split)

text \<open>Reading changes the decoder, and nothing else of the connector's part.\<close>

lemma hd_on_read_evolves:
  assumes "hd_on_read T data w = Inr (ok, w')"
  shows "evolves w w'"
proof -
  obtain d v where d: "codec_decode (handler_client T) data (hd_decoder w) w = Inr (ok, d, v)" "w' = v\<lparr>hd_decoder := d\<rparr>"
    using assms by (auto simp: hd_on_read_def res_bind_eq_Inr)
  have "decoder_ok d \<and> conn_part v = conn_part w" if "decoder_ok (hd_decoder w)"
    using codec_decode_yields [OF handler_client_ok [where T = T] that refl, of w data] d(1) by simp
  then show ?thesis using d(2)
    by (auto simp: evolves_def conn_part_def conn_inv_def wire_def written_def no_stuck_bytes_def
        connector.truncate_def)
qed

lemma user_write_evolves:
  assumes "user_write T i f w = Inr w'"
  shows "evolves w w'"
proof -
  obtain l where n: "notify_local_content T (w\<lparr>hd_locals := (hd_locals w)(i \<mapsto> f l)\<rparr>) = Inr w'"
    using assms by (auto simp: user_write_def split: option.splits)
  have "evolves w (w\<lparr>hd_locals := (hd_locals w)(i \<mapsto> f l)\<rparr>)" by (simp add: conn_part_evolves)
  then show ?thesis using notify_local_content_evolves [OF n] by (rule evolves_trans)
qed

lemma user_end_evolves:
  assumes "user_end T i w = Inr w'"
  shows "evolves w w'"
proof -
  obtain v h where v: "user_write T i local_ccb w = Inr v" "w' = v\<lparr>hd_locals := h\<rparr>"
    using assms by (auto simp: user_end_def res_bind_eq_Inr split: option.splits)
  have "evolves v w'" using v(2) by (simp add: conn_part_evolves)
  then show ?thesis using evolves_trans [OF user_write_evolves [OF v(1)]] by blast
qed

lemma connector_evolves [simp]:
  "evolves w (stop w)" "evolves w (renew_ttl w)" "evolves w (cancel_deadline w)" "evolves w (do_read w)"
  "evolves w (w\<lparr>cn_rb := rb\<rparr>)" "evolves w (w\<lparr>cn_ttl := t\<rparr>)"
  by (auto simp: evolves_def conn_inv_def wire_def no_stuck_bytes_def conn_ops do_read_def written_def
      Let_def case_prod_beta)

lemma read_complete_evolves:
  assumes "read_complete (hd_on_read T) ec w = Inr w'"
  shows "evolves w w'"
proof (cases ec)
  case (Done xs)
  let ?p = "produce (store (cn_rb w) (wr (cn_rb w)) xs) (length xs)"
  obtain rb p where p: "?p = (rb, Some p)"
    using assms Done by (cases ?p; cases "snd ?p") (auto simp: read_complete_def Let_def)
  let ?v = "(cancel_deadline w)\<lparr>cn_rb := rb\<rparr>"
  obtain ok u where u: "hd_on_read T (take (length xs) (drop p (mem rb))) ?v = Inr (ok, u)"
    and w': "w' = (if ok then do_read (u\<lparr>cn_rb := fst (consume (cn_rb u) (p + length xs))\<rparr>) else stop u)"
    using assms Done p by (auto simp: read_complete_def Let_def res_bind_eq_Inr split: if_splits)
  have "evolves w ?v" by (rule evolves_trans [OF connector_evolves(3) connector_evolves(5)])
  moreover have "evolves ?v u"
    by (rule hd_on_read_evolves [OF u])
  moreover have "evolves u (do_read (u\<lparr>cn_rb := rb\<rparr>))" for rb
    by (rule evolves_trans [OF connector_evolves(5) connector_evolves(4)])
  ultimately show ?thesis using evolves_trans w' by (metis connector_evolves(1))
next
  case Operation_canceled
  then show ?thesis using assms by (auto simp: read_complete_def)
next
  case Failed
  then show ?thesis
    using assms evolves_trans [OF connector_evolves(3) connector_evolves(1)]
    by (auto simp: read_complete_def)
qed

lemma conn_part_nulled [simp]: "conn_part (on_connector_nulled T w) = conn_part w"
  by (simp add: on_connector_nulled_def feedback_error_def Let_def conn_part_fold)


text \<open>
  The steps of a connection: what the socket completes, what the user does with outgoing
  objects, the posted feedbacks, dropped objects and the ways it ends.  A write is only
  cancelled by \<open>stop\<close>, which closes the socket.
\<close>

inductive http1_step ::
  "('x, 'r, 'y) handler_traits
   \<Rightarrow> ('x http_structured_data_scheme, 'r, 'y http_structured_data_scheme, 'z) handler_http1_scheme
   \<Rightarrow> ('x http_structured_data_scheme, 'r, 'y http_structured_data_scheme, 'z) handler_http1_scheme \<Rightarrow> bool"
  for T where
  read_done: "read_complete (hd_on_read T) ec w = Inr w' \<Longrightarrow> http1_step T w w'"
| write_done: "cn_writing w \<Longrightarrow> (ec = Operation_canceled \<Longrightarrow> cn_stopped w) \<Longrightarrow>
    http1_step T w (write_complete hd_on_write hd_should_stop hd_write_feedbacks ec w)"
| timer: "http1_step T w (timer_expired trigger_timeout_event canceled w)"
| set_timeout: "http1_step T w (hd_set_timeout ms w)"
| user_writes: "user_write T i f w = Inr w' \<Longrightarrow> http1_step T w w'"
| user_ends: "user_end T i w = Inr w' \<Longrightarrow> http1_step T w w'"
| user_drops: "http1_step T w (w\<lparr>hd_locals := (hd_locals w)(i := None)\<rparr>)"
| new_exchange: "http1_step T w (snd (get_user_handlers T w))"
| feedback_ok: "http1_step T w (feedback_success T i w)"
| feedback_failed: "http1_step T w (feedback_error T i w)"
| user_closes: "http1_step T w (hd_close T w)"
| nulled: "http1_step T w (set_connector T False w)"

inductive http1_reachable ::
  "('x, 'r, 'y) handler_traits
   \<Rightarrow> ('x http_structured_data_scheme, 'r, 'y http_structured_data_scheme, 'z) handler_http1_scheme
   \<Rightarrow> ('x http_structured_data_scheme, 'r, 'y http_structured_data_scheme, 'z) handler_http1_scheme \<Rightarrow> bool"
  for T w0 where
  initial: "http1_reachable T w0 w0"
| step: "http1_reachable T w0 w \<Longrightarrow> http1_step T w w' \<Longrightarrow> http1_reachable T w0 w'"

lemma write_complete_decoder [simp]:
  "hd_decoder (write_complete hd_on_write hd_should_stop hd_write_feedbacks ec w) = hd_decoder w"
  by (simp add: write_complete_def do_write_def hd_on_write_def hd_write_feedbacks_def conn_ops Let_def
      split: list.split completion.split)

lemma write_done_evolves:
  assumes "cn_writing w" "ec = Operation_canceled \<Longrightarrow> cn_stopped w"
  shows "evolves w (write_complete hd_on_write hd_should_stop hd_write_feedbacks ec w)"
proof -
  let ?w' = "write_complete hd_on_write hd_should_stop hd_write_feedbacks ec w"
  have "cn_stopped ?w'" if c: "ec = Operation_canceled" and inv: "conn_inv w"
  proof -
    obtain cbs where "cn_inflight w = [cbs]"
      using assms(1) inv by (auto simp: conn_inv_def length_Suc_conv)
    then show ?thesis using assms(2) c by (simp add: write_complete_def)
  qed
  moreover have "ec = Done () \<or> ec = Operation_canceled \<or> ec = Failed" by (cases ec) auto
  ultimately show ?thesis
    using http1.complete_preserves [of w ec] assms
    by (auto simp: evolves_def no_stuck_bytes_def)
qed

lemma step_evolves: "http1_step T w w' \<Longrightarrow> evolves w w'"
proof (induction rule: http1_step.induct)
  case (timer w canceled)
  have "evolves w (trigger_timeout_event w)"
    by (simp add: trigger_timeout_event_def conn_part_evolves)
  from evolves_trans [OF this connector_evolves(2)] show ?case by (simp add: timer_expired_def)
next
  case (set_timeout w ms)
  have "evolves w (renew_ttl (w\<lparr>cn_ttl := ms\<rparr>))"
    by (rule evolves_trans [OF connector_evolves(6) connector_evolves(2)])
  then show ?case by (simp add: hd_set_timeout_def connector_set_timeout_def)
next
  case (user_closes w)
  let ?a = "w\<lparr>hd_user_close := True\<rparr>"
  let ?b = "if hd_connector ?a then connector_close ?a else ?a"
  have "evolves w ?a" "evolves ?a ?b" "evolves ?b (hd_close T w)"
    by (simp_all add: conn_part_evolves connector_close_def hd_close_def Let_def)
  then show ?case using evolves_trans by blast
next
  case (nulled w)
  have "evolves w (w\<lparr>hd_connector := False\<rparr>)"
    by (auto simp: evolves_def conn_inv_def wire_def no_stuck_bytes_def written_def)
  then show ?case
    by (rule evolves_trans) (simp add: set_connector_def conn_part_evolves)
qed (auto simp: feedback_success_def feedback_error_def get_user_handlers_def Let_def
       intro: read_complete_evolves write_done_evolves user_write_evolves user_end_evolves conn_part_evolves)

lemma reachable_evolves: "http1_reachable T w0 w \<Longrightarrow> evolves w0 w"
  by (induction rule: http1_reachable.induct) (auto dest: step_evolves intro: evolves_trans)

text \<open>A fresh connection, as the factory builds it.\<close>

definition handler_http1_new :: "'m \<Rightarrow> ('l, 'r, 'm) handler_http1" where
  "handler_http1_new m = connector.extend connector_new
     (handler_http1.fields connection_new True False Map.empty Map.empty 0 [] [] http_encoder_new
        http_decoder_new m
        [] False False [] False [])"

lemma new_ok [simp]:
  "conn_inv (handler_http1_new m)" "no_stuck_bytes (handler_http1_new m)" "wire (handler_http1_new m) = []"
  "decoder_ok (hd_decoder (handler_http1_new m))"
  by (simp_all add: decoder_new_ok handler_http1_new_def conn_inv_def no_stuck_bytes_def wire_def written_def
      connector.defs handler_http1.defs connector_new_def)

section \<open>Receiving on a server\<close>

text \<open>A server that is reading the message of exchange \<open>n\<close>.\<close>

definition receiving ::
  "nat \<Rightarrow> request \<Rightarrow> ('l, request, 'm, 'z) handler_http1_scheme \<Rightarrow> bool" where
  "receiving n r w \<longleftrightarrow> \<not> hd_decoding_error w \<and> \<not> hd_managing_continue w \<and> hd_remote_objects w = [n]
     \<and> hd_remotes w n = Some r \<and> \<not> request_ended r"

lemma server_traits_simps [simp]:
  "tr_server (server_traits j)" "tr_remote_body (server_traits j) = request_body"
  "tr_remote_trailer (server_traits j) = request_trailer"
  "tr_remote_finished (server_traits j) = request_finished"
  "tr_remote_headers (server_traits j) = request_headers"
  "tr_remote_error (server_traits j) = request_error"
  "tr_remote_ended (server_traits j) = request_ended"
  "tr_local_error (server_traits j) = response_error"
  "tr_new_remote (server_traits j) = request_new default_request"
  "tr_empty_message (server_traits j) = http_request_new False HTTP_GET"
  "tr_serialize (server_traits j) = response_serialize"
  by (simp_all add: server_traits_def)

lemma receiving_current: "receiving n r w \<Longrightarrow> get_current (server_traits j) w = (Some n, w)"
  by (simp add: receiving_def get_current_def)

lemma receiving_log [simp]: "receiving n r (log_event es w) = receiving n r w"
  by (simp add: receiving_def log_event_def)

lemma log_event_append [simp]: "log_event es' (log_event es w) = log_event (es @ es') w"
  by (simp add: log_event_def)

lemma receiving_bodies:
  "receiving n r w \<Longrightarrow> handle_codec_events (server_traits j) (map D_body bs @ evs) w
    = handle_codec_events (server_traits j) evs (log_event (map (\<lambda>b. Remote_task n (T_body b)) bs) w)"
proof (induction bs arbitrary: w)
  case Nil
  then show ?case by (simp add: log_event_def)
next
  case (Cons b bs)
  have "decoded_body (server_traits j) b w = log_event [Remote_task n (T_body b)] w"
    using Cons.prems receiving_current [OF Cons.prems, of j]
    by (simp add: decoded_body_def on_remote_def request_body_def receiving_def map_upd_triv)
  then show ?case using Cons by simp
qed

lemma receiving_trailers:
  "receiving n r w \<Longrightarrow> handle_codec_events (server_traits j) (map (\<lambda>(k, v). D_trailer k v) ts @ evs) w
    = handle_codec_events (server_traits j) evs
        (log_event (map (\<lambda>(k, v). Remote_task n (T_trailer k v)) ts) w)"
proof (induction ts arbitrary: w)
  case Nil
  then show ?case by (simp add: log_event_def)
next
  case (Cons t ts)
  obtain k v where t: "t = (k, v)" by (cases t)
  have "decoded_trailer (server_traits j) k v w = log_event [Remote_task n (T_trailer k v)] w"
    using Cons.prems receiving_current [OF Cons.prems, of j]
    by (simp add: decoded_trailer_def on_remote_def request_trailer_def receiving_def map_upd_triv)
  then show ?case using Cons t by simp
qed

text \<open>The persistence the code derives from a received message.\<close>

definition message_persistent :: "'y http_structured_data_scheme \<Rightarrow> bool" where
  "message_persistent m \<longleftrightarrow>
    (if sd_protocol m = HTTP10 then get_header hf_connection m = hv_keepalive
     else get_header hf_connection m = [] \<or> get_header hf_connection m = hv_keepalive)"

lemma set_keepalive_ok: "\<exists>m'. set_keepalive p m = Inr m'"
  by (simp add: set_keepalive_def header_connection)

lemma update_persistent_eq:
  "update_persistent w = (case set_keepalive (co_persistent (hd_conn w) \<and> message_persistent (hd_current_decoded w))
       (hd_current_decoded w) of
     Inl f \<Rightarrow> Inl f
   | Inr m \<Rightarrow> Inr (w\<lparr>hd_conn := (hd_conn w)\<lparr>co_persistent :=
         co_persistent (hd_conn w) \<and> message_persistent (hd_current_decoded w)\<rparr>, hd_current_decoded := m\<rparr>))"
proof -
  have p: "(if sd_protocol m = HTTP10
      then q \<and> (has hf_connection m \<and> get_header hf_connection m = hv_keepalive)
      else q \<and> (\<not> has hf_connection m \<or> get_header hf_connection m = hv_keepalive))
    = (q \<and> message_persistent m)" for q and m :: "'c http_structured_data_scheme"
    by (auto simp: message_persistent_def has_def hv_keepalive_def)
  show ?thesis
    unfolding update_persistent_def Let_def p
    by (cases "set_keepalive (co_persistent (hd_conn w) \<and> message_persistent (hd_current_decoded w))
          (hd_current_decoded w)") simp_all
qed

section \<open>Notifying everybody\<close>

lemma hd_remotes_on_remote: "hd_remotes (on_remote f k v) =
    (case hd_remotes v k of None \<Rightarrow> hd_remotes v | Some q \<Rightarrow> (hd_remotes v)(k \<mapsto> fst (f q)))"
  by (simp add: on_remote_def log_event_def Let_def case_prod_beta split: option.splits)

lemma hd_locals_on_local: "hd_locals (on_local f k v) =
    (case hd_locals v k of None \<Rightarrow> hd_locals v | Some q \<Rightarrow> (hd_locals v)(k \<mapsto> fst (f q)))"
  by (simp add: on_local_def log_event_def Let_def case_prod_beta split: option.splits)

lemma fold_on_remote:
  assumes "\<And>r. P (fst (f r))" "i \<in> set is" "hd_remotes (fold (on_remote f) is w) i = Some r"
  shows "P r"
  using assms(2,3)
  by (induction "is" arbitrary: r rule: rev_induct)
    (auto simp: hd_remotes_on_remote assms(1) split: option.splits if_splits)

lemma fold_on_local:
  assumes "\<And>l. P (fst (f l))" "i \<in> set is" "hd_locals (fold (on_local f) is w) i = Some l"
  shows "P l"
  using assms(2,3)
  by (induction "is" arbitrary: l rule: rev_induct)
    (auto simp: hd_locals_on_local assms(1) split: option.splits if_splits)

lemma on_objects_frame [simp]:
  "hd_locals (on_remote f i w) = hd_locals w" "hd_remotes (on_local g i w) = hd_remotes w"
  "hd_local_objects (on_remote f i w) = hd_local_objects w"
  "hd_remote_objects (on_remote f i w) = hd_remote_objects w"
  "hd_local_objects (on_local g i w) = hd_local_objects w"
  "hd_remote_objects (on_local g i w) = hd_remote_objects w"
  by (auto simp: on_remote_def on_local_def log_event_def Let_def case_prod_beta split: option.splits)

lemma fold_frame [simp]:
  "hd_locals (fold (on_remote f) is w) = hd_locals w" "hd_remotes (fold (on_local g) is w) = hd_remotes w"
  "hd_local_objects (fold (on_remote f) is w) = hd_local_objects w"
  by (induction "is" arbitrary: w) simp_all

lemma fold_conn:
  "hd_conn (fold (on_remote f) is w) = hd_conn w" "hd_conn (fold (on_local g) is w) = hd_conn w"
  by (induction "is" arbitrary: w)
    (auto simp: on_remote_def on_local_def log_event_def Let_def case_prod_beta split: option.splits)

lemma events_on:
  "set (hd_events w) \<subseteq> set (hd_events (on_remote f i w))"
  "set (hd_events w) \<subseteq> set (hd_events (on_local g i w))"
  by (auto simp: on_remote_def on_local_def log_event_def Let_def case_prod_beta split: option.splits)

lemma fold_events:
  "set (hd_events w) \<subseteq> set (hd_events (fold (on_remote f) is w))"
  "set (hd_events w) \<subseteq> set (hd_events (fold (on_local g) is w))"
  by (induction "is" arbitrary: w) (use events_on in fastforce)+

lemma request_error_ends: "request_ended (fst (request_error e r))"
  by (simp add: request_error_def request_ended_def)

lemma response_error_ends: "lo_ended (fst (response_error l)) \<and> \<not> lo_myself (fst (response_error l))"
  by (simp add: response_error_def)

section \<open>Properties\<close>

text \<open>
  C4: every reachable state of an HTTP/1 connection, server or client, has at most one write
  outstanding, exactly when the connector says it is writing; no byte is stuck, that is, while
  the connector is attached, not stopped and idle, everything serialised has been handed to the
  socket; the bytes on the wire are never retracted or reordered, they only grow; and the parser
  behind the decoder is in a well-formed state without a pending error, whatever has been read.
\<close>

theorem http1_connection_invariant:
  assumes "http1_reachable T (handler_http1_new m) w" "http1_reachable T w w'"
  shows "length (cn_inflight w) = (if cn_writing w then 1 else 0)
    \<and> (hd_connector w \<and> \<not> cn_stopped w \<and> \<not> cn_writing w \<longrightarrow> hd_serialization w = [])
    \<and> prefix (wire w) (wire w') \<and> decoder_ok (hd_decoder w)"
proof -
  have w: "conn_inv w" "no_stuck_bytes w" "decoder_ok (hd_decoder w)"
    using reachable_evolves [OF assms(1)] by (simp_all add: evolves_def)
  then show ?thesis
    using reachable_evolves [OF assms(2)] by (auto simp: evolves_def conn_inv_def no_stuck_bytes_def)
qed

definition sample_connection :: "(http_response, request, http_request) handler_http1" where
  "sample_connection = handler_http1_new default_request"

theorem http1_connection_invariant_witness:
  "length (cn_inflight sample_connection) = (if cn_writing sample_connection then 1 else 0)
    \<and> prefix (wire sample_connection) (wire (hd_set_timeout 5 sample_connection))"
proof -
  have "http1_reachable (server_traits 0) sample_connection sample_connection" by (rule initial)
  moreover have "http1_reachable (server_traits 0) sample_connection (hd_set_timeout 5 sample_connection)"
    by (rule http1_reachable.step [OF initial set_timeout])
  ultimately show ?thesis
    using http1_connection_invariant unfolding sample_connection_def by blast
qed

text \<open>
  C3: responses leave in the order of their requests.  When the user writes to any outgoing
  object, what goes on the wire is exactly the encoding of the items of the first objects in the
  queue, up to and including the first that has not ended; the ended ones leave the queue.  An
  object later in the queue contributes nothing before those in front of it are complete,
  however the user interleaves them; the call fails only where the encoder asserts.
\<close>

theorem outgoing_in_order:
  assumes "conn_inv w" "queue_alive T w"
  shows "case enc_items (tr_serialize T) (ready_items (queue_objects w)) (hd_encoder w) of
     Inl f \<Rightarrow> notify_local_content T w = Inl f
   | Inr (s, e) \<Rightarrow> \<exists>w'. notify_local_content T w = Inr w' \<and> wire w' = wire w @ s \<and> hd_encoder w' = e
        \<and> hd_local_objects w' = dropWhile (\<lambda>i. lo_ended (the (hd_locals w i))) (hd_local_objects w)"
  using notify_local_content_enc [OF assms refl] by (auto split: sum.splits)

text \<open>Two pipelined exchanges: the first response is complete, the second not begun.\<close>

definition pipelined_connection :: "(http_response, request, http_request) handler_http1" where
  "pipelined_connection = sample_connection\<lparr>hd_local_objects := [0, 1], hd_locals :=
     [0 \<mapsto> local_ccb (local_bcb ''hi'' (local_hcb sample_response local_new)), 1 \<mapsto> local_new]\<rparr>"

theorem outgoing_in_order_witness:
  "case enc_items response_serialize (ready_items (queue_objects pipelined_connection)) http_encoder_new of
     Inl f \<Rightarrow> False
   | Inr (s, e) \<Rightarrow> \<exists>w'. notify_local_content (server_traits 0) pipelined_connection = Inr w' \<and> wire w' = s
        \<and> hd_local_objects w' = [1]"
proof -
  have inv: "conn_inv pipelined_connection" "wire pipelined_connection = []"
    "hd_encoder pipelined_connection = http_encoder_new"
    by (simp_all add: pipelined_connection_def sample_connection_def)
      (simp add: handler_http1_new_def connector.defs handler_http1.defs)
  have alive: "queue_alive (server_traits 0) pipelined_connection"
    by (simp add: queue_alive_def pipelined_connection_def local_new_def local_ccb_def local_bcb_def
        local_hcb_def)
  have ok: "\<not> isl (enc_items response_serialize (ready_items (queue_objects pipelined_connection)) http_encoder_new)"
    by code_simp
  have "dropWhile (\<lambda>i. lo_ended (the (hd_locals pipelined_connection i))) (hd_local_objects pipelined_connection) = [1]"
    by (simp add: pipelined_connection_def local_ccb_def local_new_def)
  then show ?thesis
    using outgoing_in_order [OF inv(1) alive] ok inv
    by (auto simp: server_traits_def split: sum.splits)
qed


text \<open>
  C5: the completion of a write, however it ends, loses and repeats nothing: the bytes on the
  wire or still held are the same as before, every completed response is still reported, waiting
  or pending exactly once and in order, and after a successful write the bytes that were
  serialised meanwhile go out at once.
\<close>

theorem write_completion:
  assumes "conn_inv w" "cn_writing w"
    and "w' = write_complete hd_on_write hd_should_stop hd_write_feedbacks ec w"
  shows "wire w' = wire w \<and> completions w' = completions w \<and> conn_inv w'
    \<and> (ec = Done () \<longrightarrow> no_stuck_bytes w' \<and> cn_stopped w' = cn_stopped w)
    \<and> (ec = Failed \<longrightarrow> cn_stopped w')"
  using http1.complete_preserves [OF assms(1,2), of ec] assms(3) by simp

definition writing_connection :: "(http_response, request, http_request) handler_http1" where
  "writing_connection = hd_do_write (sample_connection\<lparr>hd_serialization := ''abc'', hd_pending_clear := [0]\<rparr>)"

theorem write_completion_witness:
  "let w' = write_complete hd_on_write hd_should_stop hd_write_feedbacks (Done ())
       (writing_connection\<lparr>hd_serialization := ''de''\<rparr>)
   in wire w' = ''abcde'' \<and> completions w' = [0] \<and> no_stuck_bytes w'"
proof -
  let ?w = "writing_connection\<lparr>hd_serialization := ''de''\<rparr>"
  have w: "conn_inv ?w" "cn_writing ?w" "wire ?w = ''abcde''" "completions ?w = [0]"
    by (simp_all add: writing_connection_def sample_connection_def handler_http1_new_def connector_new_def
        connector.defs handler_http1.defs hd_do_write_def do_write_def hd_on_write_def
        hd_write_feedbacks_def conn_ops conn_inv_def wire_def completions_def written_def delivered_def)
  show ?thesis using write_completion [OF w(1,2) refl, of "Done ()"] w(3,4) by (simp add: Let_def)
qed

text \<open>
  The HTTP/1 handler never has its connector stopped from the writing side.  The test
  \<open>should_stop\<close> in \<open>do_write\<close> is only reached with an empty output after
  \<open>on_write\<close> returned true, and this handler returns true only with output: whatever the
  persistence of the connection, neither a write request nor a completed write closes it.
\<close>

theorem writing_never_stops:
  "cn_stopped (hd_do_write w) = cn_stopped w
   \<and> cn_stopped (write_complete hd_on_write hd_should_stop hd_write_feedbacks (Done ()) w) = cn_stopped w"
proof -
  have d: "cn_stopped (do_write hd_on_write hd_should_stop hd_write_feedbacks v) = cn_stopped v"
    for v :: "('l, 'r, 'm, 'z) handler_http1_scheme"
    by (auto simp: do_write_def hd_on_write_def hd_write_feedbacks_def Let_def log_io_def)
  show ?thesis
    by (auto simp: hd_do_write_def d write_complete_def Let_def split: list.splits)
qed


text \<open>What one message does to the connection, from its first callback to its last.\<close>

lemma exchange_state:
  assumes "hd_connector w" "hd_request_cb w" "hd_remote_objects w = []"
    and "set_keepalive (co_persistent (hd_conn w) \<and> message_persistent m) m = Inr m'"
  shows "\<exists>w'. handle_codec_events (server_traits j)
        (D_start # D_headers m # map D_body bs @ map (\<lambda>(k, v). D_trailer k v) ts @ [D_complete]) w = Inr w'
    \<and> hd_events w' = hd_events w @ User_feedback (Some (hd_next w)) # map (Remote_task (hd_next w))
        (T_headers # map T_body bs @ map (\<lambda>(k, v). T_trailer k v) ts @ [T_finished])
    \<and> hd_local_objects w' = hd_local_objects w @ [hd_next w] \<and> hd_remote_objects w' = []
    \<and> map_option sr_preamble (hd_remotes w' (hd_next w)) = Some m'
    \<and> co_persistent (hd_conn w') = (co_persistent (hd_conn w) \<and> message_persistent m)
    \<and> hd_connector w' = hd_connector w \<and> hd_request_cb w' = hd_request_cb w \<and> hd_current_decoded w' = default_request
    \<and> hd_next w' = Suc (hd_next w)
    \<and> hd_remotes w' = (hd_remotes w)(hd_next w \<mapsto> request_new default_request\<lparr>sr_preamble := m', sr_terminated := True\<rparr>)"
proof -
  let ?n = "hd_next w" and ?T = "server_traits j"
  let ?r = "request_new default_request"
  let ?w1 = "decoding_start ?T w"
  obtain m0 where m0: "http_request_new False HTTP_GET = Inr m0" using http_request_new_wf by blast
  have default: "default_request = m0" by (simp add: default_request_def m0)
  have ended: "\<not> request_ended ?r" by (simp add: request_new_def request_ended_def remote_callbacks.defs request.defs)
  have w1: "receiving ?n ?r (?w1\<lparr>hd_current_decoded := m\<rparr>)" "hd_local_objects ?w1 = hd_local_objects w @ [?n]"
    "hd_events ?w1 = hd_events w @ [User_feedback (Some ?n)]" "hd_conn ?w1 = hd_conn w"
    "hd_connector ?w1 = hd_connector w" "hd_request_cb ?w1 = hd_request_cb w"
    "hd_next ?w1 = Suc ?n" "hd_remotes ?w1 = (hd_remotes w)(?n \<mapsto> ?r)"
    using assms(1-3) ended
    by (simp_all add: receiving_def decoding_start_def decoder_begin_def get_user_handlers_def log_event_def Let_def)
  let ?r2 = "?r\<lparr>sr_preamble := m'\<rparr>"
  obtain w2 where w2: "handle_codec_event ?T (D_headers m) ?w1 = Inr w2" "receiving ?n ?r2 w2"
    "hd_local_objects w2 = hd_local_objects ?w1" "hd_events w2 = hd_events ?w1 @ [Remote_task ?n T_headers]"
    "co_persistent (hd_conn w2) = (co_persistent (hd_conn w) \<and> message_persistent m)"
    "hd_connector w2 = hd_connector w" "hd_request_cb w2 = hd_request_cb w" "hd_current_decoded w2 = m0"
    "hd_next w2 = Suc ?n" "hd_remotes w2 = (hd_remotes w)(?n \<mapsto> ?r2)"
    using receiving_current [OF w1(1), of j] w1 m0 assms(4)
    by (auto simp: decoded_headers_server_def update_persistent_eq on_remote_def request_headers_def
        log_event_def receiving_def request_ended_def Let_def)
  let ?es = "map (\<lambda>b. Remote_task ?n (T_body b)) bs @ map (\<lambda>(k, v). Remote_task ?n (T_trailer k v)) ts"
  let ?w3 = "log_event ?es w2"
  have run: "handle_codec_events ?T (map D_body bs @ map (\<lambda>(k, v). D_trailer k v) ts @ [D_complete]) w2
      = Inr (decoding_end_server ?T ?w3)"
    using w2(2) by (simp add: receiving_bodies receiving_trailers [of ?n ?r2])
  have r3: "receiving ?n ?r2 ?w3" using w2(2) by simp
  have "decoding_end_server ?T ?w3 =
      (log_event [Remote_task ?n T_finished]
        (?w3\<lparr>hd_remotes := (hd_remotes ?w3)(?n \<mapsto> ?r2\<lparr>sr_terminated := True\<rparr>)\<rparr>))\<lparr>hd_remote_objects := []\<rparr>"
    using receiving_current [OF r3, of j] r3
    by (simp add: decoding_end_server_def on_remote_def request_finished_def receiving_def
        request_ended_def log_event_def)
  then show ?thesis
    using run w2 w1 default
    by (simp add: log_event_def comp_def case_prod_unfold)
qed

text \<open>
  C6: one request on a server connection.  When the decoder reads a whole message, the user is
  given one new exchange; its callbacks are posted in the order of the wire (headers, the pieces
  of the body, the trailers, the end); its response is queued after those of the earlier
  requests; and the connection stays persistent only if it was and the message allows it.
\<close>

theorem server_exchange:
  assumes "hd_connector w" "hd_request_cb w" "hd_remote_objects w = []"
    and "set_keepalive (co_persistent (hd_conn w) \<and> message_persistent m) m = Inr m'"
  shows "\<exists>w'. handle_codec_events (server_traits j)
        (D_start # D_headers m # map D_body bs @ map (\<lambda>(k, v). D_trailer k v) ts @ [D_complete]) w = Inr w'
    \<and> hd_events w' = hd_events w @ User_feedback (Some (hd_next w)) # map (Remote_task (hd_next w))
        (T_headers # map T_body bs @ map (\<lambda>(k, v). T_trailer k v) ts @ [T_finished])
    \<and> hd_local_objects w' = hd_local_objects w @ [hd_next w] \<and> hd_remote_objects w' = []
    \<and> map_option sr_preamble (hd_remotes w' (hd_next w)) = Some m'
    \<and> co_persistent (hd_conn w') = (co_persistent (hd_conn w) \<and> message_persistent m)"
  using exchange_state [OF assms] by blast

theorem server_exchange_witness:
  "let w = sample_connection\<lparr>hd_request_cb := True\<rparr> in
   \<exists>w'. handle_codec_events (server_traits 0)
        (D_start # D_headers sample_request # map D_body [''ab'', ''c''] @ map (\<lambda>(k, v). D_trailer k v) [] @ [D_complete]) w = Inr w'
    \<and> hd_local_objects w' = [0] \<and> hd_remote_objects w' = []"
proof -
  let ?w = "sample_connection\<lparr>hd_request_cb := True\<rparr>"
  obtain m' where m': "set_keepalive (co_persistent (hd_conn ?w) \<and> message_persistent sample_request) sample_request = Inr m'"
    using set_keepalive_ok by blast
  have w: "hd_connector ?w" "hd_request_cb ?w" "hd_remote_objects ?w = []" "hd_local_objects ?w = []" "hd_next ?w = 0"
    by (simp_all add: sample_connection_def handler_http1_new_def connector.defs handler_http1.defs)
  show ?thesis
    using server_exchange [OF w(1-3) m', of 0 "[''ab'', ''c'']" "[]"] w(4,5) unfolding Let_def by auto
qed


text \<open>
  C21: closing a server connection ends every exchange.  The queues are emptied, each request that
  was being received and each live response that was being sent has ended, no response keeps
  itself alive, the connection object no longer does either, and an attached socket is stopped.
\<close>

theorem close_ends_exchanges:
  assumes "w' = hd_close (server_traits j) w"
  shows "hd_remote_objects w' = [] \<and> hd_local_objects w' = [] \<and> \<not> co_myself (hd_conn w')
    \<and> (hd_connector w \<longrightarrow> cn_stopped w')
    \<and> (\<forall>i\<in>set (hd_remote_objects w). \<forall>r. hd_remotes w' i = Some r \<longrightarrow> request_ended r)
    \<and> (\<forall>i\<in>set (hd_local_objects w). \<forall>l. hd_locals w' i = Some l \<longrightarrow> lo_ended l \<and> \<not> lo_myself l)"
proof -
  let ?T = "server_traits j"
  let ?v = "if hd_connector w then connector_close (w\<lparr>hd_user_close := True\<rparr>) else w\<lparr>hd_user_close := True\<rparr>"
  have v: "hd_remote_objects ?v = hd_remote_objects w" "hd_local_objects ?v = hd_local_objects w"
    by (simp_all add: connector_close_def stop_def log_io_def)
  have w': "w' = deinit (notify_all ?T Connection_closed ?v)"
    using assms by (simp add: hd_close_def Let_def)
  have stopped: "cn_stopped w' = cn_stopped ?v"
  proof -
    have "conn_part w' = conn_part ?v" unfolding w' by simp
    then show ?thesis by (simp add: conn_part_def connector.truncate_def)
  qed
  have "request_ended r" if "i \<in> set (hd_remote_objects w)" "hd_remotes w' i = Some r" for i r
    using fold_on_remote [of request_ended "request_error Connection_closed" i "hd_remote_objects w" ?v r]
      that v request_error_ends by (simp add: w' deinit_def notify_all_def Let_def)
  moreover have "lo_ended l \<and> \<not> lo_myself l" if "i \<in> set (hd_local_objects w)" "hd_locals w' i = Some l" for i l
  proof -
    let ?u = "fold (on_remote (request_error Connection_closed)) (hd_remote_objects w) ?v"
    have "hd_locals (fold (on_local response_error) (hd_local_objects w) ?u) i = Some l"
      using that(2) v by (simp add: w' deinit_def notify_all_def Let_def)
    then show ?thesis
      by (rule fold_on_local [where P = "\<lambda>l. lo_ended l \<and> \<not> lo_myself l", OF response_error_ends that(1)])
  qed
  moreover have "hd_remote_objects w' = []" "hd_local_objects w' = []" "\<not> co_myself (hd_conn w')"
    by (simp_all add: w' deinit_def notify_all_def connection_deinit_def Let_def)
  ultimately show ?thesis using stopped by (simp add: connector_close_def)
qed

theorem close_ends_exchanges_witness:
  "let w' = hd_close (server_traits 0) pipelined_connection in
     hd_local_objects w' = [] \<and> cn_stopped w' \<and> pred_option lo_ended (hd_locals w' 1)"
proof -
  have w: "hd_connector pipelined_connection" "hd_local_objects pipelined_connection = [0, 1]"
    by (simp_all add: pipelined_connection_def sample_connection_def handler_http1_new_def connector.defs
        handler_http1.defs)
  show ?thesis using close_ends_exchanges [OF refl, of 0 pipelined_connection] w
    by (simp add: Let_def option.pred_set)
qed

text \<open>
  C22: a decoding failure hits the wrong response when requests are pipelined.  The failing
  request is told; of the queued responses the last is told of the error, but it is the first,
  the response to an earlier and healthy request, that is dropped from the queue, without being
  told and without its bytes being sent.
\<close>

theorem decoding_failure_drops_first:
  assumes "\<not> hd_decoding_error w" "hd_remote_objects w = [c]" "hd_remotes w c = Some r" "\<not> request_ended r"
    and "hd_local_objects w = i # is @ [k]" "i \<noteq> k" "hd_locals w k = Some l"
  shows "\<exists>w'. decoding_failure (server_traits j) w = Inr w' \<and> hd_remote_objects w' = []
    \<and> hd_local_objects w' = is @ [k] \<and> hd_locals w' i = hd_locals w i
    \<and> hd_locals w' k = Some (fst (response_error l)) \<and> wire w' = wire w"
proof -
  have cur: "get_current (server_traits j) w = (Some c, w)"
    using assms(1-4) by (simp add: get_current_def)
  let ?u = "on_remote (request_error Decoding) c w"
  let ?x = "?u\<lparr>hd_remote_objects := tl (hd_remote_objects ?u)\<rparr>"
  let ?w' = "(on_local response_error k ?x)\<lparr>hd_local_objects := is @ [k]\<rparr>"
  have eq: "decoding_failure (server_traits j) w = Inr ?w'"
    using cur assms(5) by (simp add: decoding_failure_def Let_def)
  have "conn_part ?w' = conn_part w" by simp
  then have "wire ?w' = wire w"
    by (simp add: conn_part_def wire_def written_def connector.truncate_def)
  moreover have "hd_remote_objects ?w' = []" using assms(2) by simp
  moreover have "hd_locals ?w' i = hd_locals w i" "hd_locals ?w' k = Some (fst (response_error l))"
    using assms(6,7) by (simp_all add: on_local_def log_event_def Let_def case_prod_beta)
  ultimately show ?thesis using eq by simp
qed

theorem decoding_failure_drops_first_witness:
  "\<exists>w'. decoding_failure (server_traits 0)
      (pipelined_connection\<lparr>hd_remote_objects := [1], hd_remotes := [1 \<mapsto> request_new default_request]\<rparr>) = Inr w'
    \<and> hd_local_objects w' = [1] \<and> hd_locals w' 0 = hd_locals pipelined_connection 0"
proof -
  let ?w = "pipelined_connection\<lparr>hd_remote_objects := [1], hd_remotes := [1 \<mapsto> request_new default_request]\<rparr>"
  have w: "\<not> hd_decoding_error ?w" "hd_remote_objects ?w = [1]"
    "hd_remotes ?w 1 = Some (request_new default_request)" "\<not> request_ended (request_new default_request)"
    "hd_local_objects ?w = 0 # [] @ [1]" "(0::nat) \<noteq> 1" "hd_locals ?w 1 = Some local_new"
    by (simp_all add: pipelined_connection_def sample_connection_def handler_http1_new_def connector.defs
        handler_http1.defs request_new_def request_ended_def remote_callbacks.defs request.defs)
  from decoding_failure_drops_first [OF w, of 0] show ?thesis by auto
qed

text \<open>
  A response the user has dropped before it was its turn is an error for the whole
  connection: the error callback is called, every exchange is told and both queues are emptied,
  although nothing is wrong with the other exchanges.
\<close>

theorem dropped_response_fails_connection:
  assumes "hd_local_objects w = i # is" "hd_locals w i = None" "co_error_cb (hd_conn w)"
  shows "\<exists>w'. notify_local_content T w = Inr w' \<and> hd_local_objects w' = [] \<and> hd_remote_objects w' = []
    \<and> co_current (hd_conn w') = Missing_stream_element \<and> \<not> co_myself (hd_conn w')
    \<and> Connection_event (Conn_error Missing_stream_element) \<in> set (hd_events w')"
proof -
  let ?v = "raise_error Missing_stream_element w"
  have "notify_local_content T w = Inr (deinit (notify_all T Missing_stream_element ?v))"
    using assms(1,2) by (subst notify_local_content.simps) simp
  moreover have "Connection_event (Conn_error Missing_stream_element) \<in> set (hd_events ?v)"
    "co_current (hd_conn ?v) = Missing_stream_element"
    using assms(3) by (simp_all add: raise_error_def connection_raise_def log_event_def)
  moreover have "set (hd_events ?v) \<subseteq> set (hd_events (notify_all T Missing_stream_element ?v))"
    "hd_conn (notify_all T Missing_stream_element ?v) = hd_conn ?v"
    unfolding notify_all_def Let_def
    using subset_trans [OF fold_events(1) fold_events(2)] by (simp_all add: fold_conn)
  ultimately show ?thesis
    by (auto simp: deinit_def connection_deinit_def notify_all_def Let_def)
qed

theorem dropped_response_fails_connection_witness:
  "\<exists>w'. notify_local_content (server_traits 0) (pipelined_connection\<lparr>hd_locals := [1 \<mapsto> local_new],
        hd_conn := connection_new\<lparr>co_error_cb := True\<rparr>\<rparr>) = Inr w' \<and> hd_local_objects w' = []"
proof -
  let ?w = "pipelined_connection\<lparr>hd_locals := [1 \<mapsto> local_new], hd_conn := connection_new\<lparr>co_error_cb := True\<rparr>\<rparr>"
  have w: "hd_local_objects ?w = 0 # [1]" "hd_locals ?w 0 = None" "co_error_cb (hd_conn ?w)"
    by (simp_all add: pipelined_connection_def)
  show ?thesis using dropped_response_fails_connection [OF w, of "server_traits 0"] by auto
qed

end
