(* ===== verification/Parser_Run.thy ===== *)
theory Parser_Run
  imports Parser_Safety
begin

text \<open>
  Running the parser byte by byte: \<open>runs S d x r\<close> says that the loop of
  \<open>http_parser_execute\<close> on the data \<open>d\<close>, from the locals \<open>x\<close> on, ends in
  \<open>r\<close>, whatever the number of turns it is given beyond what it needs.  The rules follow the
  turns of the loop; \<open>execute_runs\<close> returns to the parser's entry point.
\<close>

section \<open>Runs\<close>

definition runs :: "'s http_parser_settings \<Rightarrow> string \<Rightarrow> 's execution \<Rightarrow> 's control result \<Rightarrow> bool" where
  "runs S d x r \<longleftrightarrow> r \<noteq> Inl Out_of_turns \<and> (\<exists>n. execute_loop n S d x = r)"

lemma loop_more: "execute_loop n S d x = r \<Longrightarrow> r \<noteq> Inl Out_of_turns \<Longrightarrow> execute_loop (n + k) S d x = r"
proof (induction n arbitrary: x)
  case 0
  then show ?case by (simp add: execute_loop.simps [of 0] execute_loop.simps [of k] split: if_splits)
next
  case (Suc n)
  show ?case
  proof (cases "ex_p x = length d")
    case True
    then show ?thesis using Suc.prems by (simp add: execute_loop.simps)
  next
    case False
    note eq = execute_loop.simps [of "Suc n" S d x] execute_loop.simps [of "Suc (n + k)" S d x]
    show ?thesis
    proof (cases "turn S d x")
      case (Inl f)
      then have "r = Inl f" using False Suc.prems(1) by (simp add: eq)
      then show ?thesis using False Inl by (simp add: eq)
    next
      case (Inr c)
      show ?thesis
      proof (cases c)
        case (Next y)
        then show ?thesis using False Suc.prems Suc.IH Inr by (simp add: eq)
      next
        case (Return m y)
        then have "r = Inr (Return m y)" using False Suc.prems(1) Inr by (simp add: eq)
        then show ?thesis using False Inr Return by (simp add: eq)
      qed
    qed
  qed
qed

lemma runs_next:
  assumes "ex_p x \<noteq> length d" "turn S d x = Inr (Next y)" "runs S d (y\<lparr>ex_p := ex_p y + 1\<rparr>) r"
  shows "runs S d x r"
proof -
  obtain n where "execute_loop n S d (y\<lparr>ex_p := ex_p y + 1\<rparr>) = r" using assms(3) by (auto simp: runs_def)
  then have "execute_loop (Suc n) S d x = r" using assms(1,2) by (subst execute_loop.simps) simp
  then show ?thesis using assms(3) by (auto simp: runs_def)
qed

lemma runs_return: "ex_p x \<noteq> length d \<Longrightarrow> turn S d x = Inr (Return m y) \<Longrightarrow> runs S d x (Inr (Return m y))"
  unfolding runs_def by (intro conjI exI [of _ "Suc 0"]) (simp, subst execute_loop.simps, simp)

lemma runs_fault: "ex_p x \<noteq> length d \<Longrightarrow> turn S d x = Inl f \<Longrightarrow> f \<noteq> Out_of_turns \<Longrightarrow> runs S d x (Inl f)"
  unfolding runs_def by (intro conjI exI [of _ "Suc 0"]) (simp, subst execute_loop.simps, simp)

lemma runs_end: "ex_p x = length d \<Longrightarrow> finish_data S d x = r \<Longrightarrow> r \<noteq> Inl Out_of_turns \<Longrightarrow> runs S d x r"
  unfolding runs_def by (intro conjI exI [of _ 0]) (simp_all add: execute_loop.simps)

text \<open>As many turns as there are bytes are enough, so the entry point returns what a run does.\<close>

lemma loop_enough:
  assumes "settings_ok F U S" "between U d x" "d \<noteq> []" "length d \<le> ex_p x + n"
  shows "execute_loop (n + k) S d x = execute_loop n S d x"
  using assms(2,4)
proof (induction n arbitrary: x)
  case 0
  then have "ex_p x = length d" by (simp add: between_def)
  then show ?case by (simp add: execute_loop.simps)
next
  case (Suc n)
  show ?case
  proof (cases "ex_p x = length d")
    case True
    then show ?thesis by (simp add: execute_loop.simps)
  next
    case False
    then have "inv U 0 d (ex_p x) x" using Suc.prems(1) by (simp add: between_def inv_def)
    note safe = safe_turn [OF assms(1) this]
    note eq = execute_loop.simps [of "Suc n" S d x] execute_loop.simps [of "Suc (n + k)" S d x]
    show ?thesis
    proof (cases "turn S d x")
      case (Inl f)
      then show ?thesis using False by (simp add: eq)
    next
      case (Inr c)
      show ?thesis
      proof (cases c)
        case (Next y)
        then have "inv U 0 d (ex_p x) y" using safe Inr by simp
        then have "execute_loop (n + k) S d (y\<lparr>ex_p := ex_p y + 1\<rparr>) = execute_loop n S d (y\<lparr>ex_p := ex_p y + 1\<rparr>)"
          using Suc.prems(2) by (intro Suc.IH) (auto simp: inv_def between_def marks_ok_def)
        then show ?thesis using False Inr Next by (simp add: eq)
      next
        case (Return m y)
        then show ?thesis using False Inr by (simp add: eq)
      qed
    qed
  qed
qed

lemma execute_runs:
  assumes "settings_ok F U S" "U s" "parser_ok 0 hp" "hp_errno hp = HPE_OK" "d \<noteq> []"
    and "runs S d (start_execution hp s) r"
  shows "http_parser_execute S d hp s = res_bind r (\<lambda>c. case c of
      Return n x \<Rightarrow> Inr (n, ex_parser x, ex_user x) | Next x \<Rightarrow> Inl Out_of_turns)"
proof -
  obtain n where n: "execute_loop n S d (start_execution hp s) = r" "r \<noteq> Inl Out_of_turns"
    using assms(6) by (auto simp: runs_def)
  have "execute_loop (length d) S d (start_execution hp s) = execute_loop (length d + n) S d (start_execution hp s)"
    using loop_enough [OF assms(1) between_start [where U = U, OF assms(3,4,2)] assms(5)] by simp
  also have "\<dots> = r" using loop_more [OF n, of "length d"] by (simp add: add.commute)
  finally show ?thesis using assms(4,5) by (simp add: http_parser_execute_def)
qed

section \<open>One byte\<close>

definition counted :: "'s execution \<Rightarrow> 's execution" where
  "counted = update_parser (\<lambda>hp. hp\<lparr>hp_nread := hp_nread hp + 1\<rparr>)"

lemma turn_header:
  assumes "drop (ex_p x) d = ch # cs" "PARSING_HEADER (hp_state (ex_parser x))"
    and "unat (hp_nread (ex_parser x)) < HTTP_MAX_HEADER_SIZE"
  shows "turn S d x = step S d ch (counted x)"
proof -
  let ?w = "hp_nread (ex_parser x)"
  have "d ! ex_p x = ch" using assms(1) by (metis hd_drop_conv_nth drop_eq_Nil2 leI list.distinct(1) list.sel(1))
  moreover have "\<not> ?w + 1 > of_nat HTTP_MAX_HEADER_SIZE"
  proof -
    have "unat (?w + 1) = Suc (unat ?w)" using assms(3) by (simp add: unat_word_ariths HTTP_MAX_HEADER_SIZE_def)
    then show ?thesis using assms(3)
      by (simp add: word_less_nat_alt not_less HTTP_MAX_HEADER_SIZE_def)
  qed
  ultimately show ?thesis using assms(2)
    by (simp add: turn_def COUNT_HEADER_SIZE_def Let_def counted_def) (simp add: update_parser_def)
qed

lemma drop_Cons: "drop p d = ch # cs \<Longrightarrow> p \<noteq> length d \<and> drop (Suc p) d = cs"
  by (metis drop_Suc list.sel(3) list.distinct(1) drop_all order_refl tl_drop)

lemma runs_byte:
  assumes "drop (ex_p x) d = ch # cs" "PARSING_HEADER (hp_state (ex_parser x))"
    and "unat (hp_nread (ex_parser x)) < HTTP_MAX_HEADER_SIZE"
    and "step S d ch (counted x) = Inr (Next y)" "runs S d (y\<lparr>ex_p := ex_p y + 1\<rparr>) r"
  shows "runs S d x r"
  using runs_next [OF _ _ assms(5)] turn_header [OF assms(1-3), of S] assms(4) drop_Cons [OF assms(1)] by simp

lemma runs_byte_fault:
  assumes "drop (ex_p x) d = ch # cs" "PARSING_HEADER (hp_state (ex_parser x))"
    and "unat (hp_nread (ex_parser x)) < HTTP_MAX_HEADER_SIZE"
    and "step S d ch (counted x) = Inl f" "f \<noteq> Out_of_turns"
  shows "runs S d x (Inl f)"
  using runs_fault turn_header [OF assms(1-3), of S] assms(4,5) drop_Cons [OF assms(1)] by metis

end
