(* ===== verification/Request_Reading.thy ===== *)
theory Request_Reading
  imports Parser_Run Url_Properties
begin

text \<open>
  What the parser does with a request as a client writes it.  The text is read in phases, the
  method, the target, the version, the fields, the empty line and the body; each phase is a run
  of the loop from one position to another, and runs compose.  The callbacks are those of any
  settings: a phase says which callback gets which bytes.
\<close>

text \<open>Counts are kept as they are, to be compared with the limit.\<close>

declare of_nat_add [simp del] of_nat_Suc [simp del]

section \<open>Runs from one point to another\<close>

definition reaches :: "'s http_parser_settings \<Rightarrow> string \<Rightarrow> 's execution \<Rightarrow> 's execution \<Rightarrow> bool" where
  "reaches S d x y \<longleftrightarrow> (\<forall>r. runs S d y r \<longrightarrow> runs S d x r)"

lemma reaches_refl [simp, intro]: "reaches S d x x"
  by (simp add: reaches_def)

lemma reaches_trans [trans]: "reaches S d x y \<Longrightarrow> reaches S d y z \<Longrightarrow> reaches S d x z"
  by (simp add: reaches_def)

text \<open>A point of a run: the parser, the position, the mark that is set if any, and the user's state.\<close>

definition point :: "http_parser \<Rightarrow> nat \<Rightarrow> (mark \<times> nat) option \<Rightarrow> 's \<Rightarrow> 's execution" where
  "point hp p mk s = \<lparr>ex_parser = hp, ex_p = p,
     ex_mark = (\<lambda>m. case mk of None \<Rightarrow> None | Some (m', a) \<Rightarrow> if m = m' then Some a else None), ex_user = s\<rparr>"

lemma point_simps [simp]:
  "ex_parser (point hp p mk s) = hp" "ex_p (point hp p mk s) = p" "ex_user (point hp p mk s) = s"
  "ex_mark (point hp p None s) m = None"
  "ex_mark (point hp p (Some (m', a)) s) m = (if m = m' then Some a else None)"
  by (simp_all add: point_def)

lemma point_updates [simp]:
  "update_parser f (point hp p mk s) = point (f hp) p mk s"
  "(point hp p mk s)\<lparr>ex_p := q\<rparr> = point hp q mk s" "(point hp p mk s)\<lparr>ex_user := s'\<rparr> = point hp p mk s'"
  "(point hp p mk s)\<lparr>ex_parser := hp'\<rparr> = point hp' p mk s"
  "MARK m (point hp p None s) = point hp p (Some (m, p)) s"
  "MARK m (point hp p (Some (m, a)) s) = point hp p (Some (m, a)) s"
  by (auto simp: point_def update_parser_def MARK_def)

lemma point_unmark [simp]: "(point hp p (Some (m, a)) s)\<lparr>ex_mark := (ex_mark (point hp p (Some (m, a)) s))(m := None)\<rparr> = point hp p None s"
  by (auto simp: point_def)

lemma point_start: "hp_state hp = s_start_req_or_res \<Longrightarrow> start_execution hp s = point hp 0 None s"
  by (auto simp: start_execution_def point_def initial_mark_def)

text \<open>The bytes of the head are counted; a head that is not too long is never refused.\<close>

lemma small_nread: "n \<le> HTTP_MAX_HEADER_SIZE \<Longrightarrow> unat (of_nat n :: 32 word) = n"
  by (simp add: HTTP_MAX_HEADER_SIZE_def unat_of_nat take_bit_nat_eq_self)

lemma not_overflow: "n \<le> HTTP_MAX_HEADER_SIZE \<Longrightarrow> \<not> of_nat HTTP_MAX_HEADER_SIZE < (of_nat n :: 32 word)"
  by (simp add: word_less_nat_alt small_nread)

lemma reaches_byte:
  assumes "drop p d = ch # cs" "PARSING_HEADER (hp_state hp)" "hp_nread hp = of_nat n" "n < HTTP_MAX_HEADER_SIZE"
    and "step S d ch (point (hp\<lparr>hp_nread := of_nat (Suc n)\<rparr>) p mk s) = Inr (Next y)"
  shows "reaches S d (point hp p mk s) (y\<lparr>ex_p := Suc (ex_p y)\<rparr>)"
proof -
  have "counted (point hp p mk s) = point (hp\<lparr>hp_nread := of_nat (Suc n)\<rparr>) p mk s"
    using assms(3) by (simp add: counted_def add.commute of_nat_Suc)
  then show ?thesis using assms runs_byte [of "point hp p mk s" d ch cs S y] small_nread [of n]
    by (simp add: reaches_def)
qed

lemma reaches_body:
  assumes "drop p d = ch # cs" "\<not> PARSING_HEADER (hp_state hp)"
    and "step S d ch (point hp p mk s) = Inr (Next y)"
  shows "reaches S d (point hp p mk s) (y\<lparr>ex_p := Suc (ex_p y)\<rparr>)"
proof -
  have "d ! p = ch" using assms(1) by (metis hd_drop_conv_nth drop_eq_Nil2 leI list.distinct(1) list.sel(1))
  then have "turn S d (point hp p mk s) = Inr (Next y)" using assms(2,3) by (simp add: turn_def)
  then show ?thesis using drop_Cons [OF assms(1)] runs_next [of "point hp p mk s" d S y] by (simp add: reaches_def)
qed

lemma reaches_then:
  assumes "drop p d = ch # cs" "PARSING_HEADER (hp_state hp)" "hp_nread hp = of_nat n" "n < HTTP_MAX_HEADER_SIZE"
    and "step S d ch (point (hp\<lparr>hp_nread := of_nat (Suc n)\<rparr>) p mk s) = Inr (Next (point hp' p mk' s'))"
    and "reaches S d (point hp' (Suc p) mk' s') z"
  shows "reaches S d (point hp p mk s) z"
  using reaches_byte [OF assms(1-5)] assms(6) by (auto intro: reaches_trans)

lemma drop_Suc_tl: "drop (Suc p) d = tl (drop p d)"
  by (simp add: drop_Suc tl_drop)

lemma drop_append_rest: "drop p d = s @ rest \<Longrightarrow> drop (p + length s) d = rest"
  by (metis add.commute append_eq_conv_conj drop_drop)

section \<open>The method\<close>

text \<open>The states of the method matcher, as a function of the byte.\<close>

definition method_next :: "http_method \<times> nat \<Rightarrow> char \<Rightarrow> (http_method \<times> nat) option" where
  "method_next = (\<lambda>(m, i) ch.
    if ch = NUL \<or> ch = CHR '' '' then None
    else if ch = c_at (http_method_str m) i then Some (m, Suc i)
    else if IS_ALPHA ch then map_option (\<lambda>m'. (m', Suc i)) (method_switch m i ch)
    else if ch = CHR ''-'' \<and> i = 1 \<and> m = HTTP_MKCOL then Some (HTTP_MSEARCH, Suc i) else None)"

fun method_run :: "http_method \<times> nat \<Rightarrow> string \<Rightarrow> (http_method \<times> nat) option" where
  "method_run mi [] = Some mi"
| "method_run mi (c # cs) = (case method_next mi c of None \<Rightarrow> None | Some mi \<Rightarrow> method_run mi cs)"

text \<open>From the first letter, or from the second one after an \<open>H\<close>, the name leads to the method.\<close>

definition method_reads :: "http_method \<Rightarrow> bool" where
  "method_reads m = (case http_method_str m of
     [] \<Rightarrow> False
   | c # cs \<Rightarrow>
      if c = CHR ''H'' then cs \<noteq> [] \<and> hd cs = CHR ''E'' \<and> method_run (HTTP_HEAD, 2) (tl cs) = Some (m, length (c # cs))
      else (case method_start c of None \<Rightarrow> False
            | Some m0 \<Rightarrow> IS_ALPHA c \<and> method_run (m0, 1) cs = Some (m, length (c # cs))))"

lemma all_methods_read: "list_all method_reads (remove1 END http_methods)"
  by code_simp

lemma method_reads: "m \<noteq> END \<Longrightarrow> method_reads m"
proof -
  assume "m \<noteq> END"
  then have "m \<in> set (remove1 END http_methods)" by (cases m) (simp_all add: http_methods_def)
  then show ?thesis using all_methods_read by (simp add: list_all_iff del: remove1.simps)
qed

lemma step_req_method_next:
  assumes "method_next (hp_method hp, hp_index hp) ch = Some (m, i)"
  shows "step_req_method ch (point hp p mk s) = Inr (Next (point (hp\<lparr>hp_method := m, hp_index := i\<rparr>) p mk s))"
proof -
  have ch: "ch \<noteq> NUL" "ch \<noteq> CHR '' ''" using assms by (simp_all add: method_next_def split: if_splits)
  let ?x = "point hp p mk s"
  have step: "incr_index ?x = point (hp\<lparr>hp_index := Suc (hp_index hp)\<rparr>) p mk s"
    "incr_index (set_parsed_method m ?x) = point (hp\<lparr>hp_method := m, hp_index := Suc (hp_index hp)\<rparr>) p mk s"
    by (simp_all add: incr_index_def set_index_def set_parsed_method_def)
  show ?thesis
  proof (cases "ch = c_at (http_method_str (hp_method hp)) (hp_index hp)")
    case True
    then have "m = hp_method hp" "i = Suc (hp_index hp)" using assms ch by (simp_all add: method_next_def)
    then show ?thesis using True ch step(1) by (simp add: step_req_method_def Let_def next_byte_def)
  next
    case False
    note miss = this
    show ?thesis
    proof (cases "IS_ALPHA ch")
      case True
      then show ?thesis using miss assms ch step(2)
        by (auto simp: method_next_def step_req_method_def Let_def next_byte_def)
    next
      case False
      then show ?thesis using miss assms ch step(2)
        by (auto simp: method_next_def step_req_method_def Let_def next_byte_def split: if_splits)
    qed
  qed
qed

lemma reaches_method:
  assumes "drop p d = cs @ rest" "method_run (hp_method hp, hp_index hp) cs = Some (m, i)" "hp_state hp = s_req_method"
    and "hp_nread hp = of_nat n" "n + length cs \<le> HTTP_MAX_HEADER_SIZE"
  shows "reaches S d (point hp p mk s)
    (point (hp\<lparr>hp_method := m, hp_index := i, hp_nread := of_nat (n + length cs)\<rparr>) (p + length cs) mk s)"
  using assms
proof (induction cs arbitrary: p hp n)
  case Nil
  then have "hp\<lparr>hp_method := m, hp_index := i, hp_nread := of_nat n\<rparr> = hp" by simp
  then show ?case by simp
next
  case (Cons c cs)
  obtain m' i' where nx: "method_next (hp_method hp, hp_index hp) c = Some (m', i')"
    "method_run (m', i') cs = Some (m, i)"
    using Cons.prems(2) by (auto split: option.splits)
  let ?hp = "hp\<lparr>hp_nread := of_nat (Suc n), hp_method := m', hp_index := i'\<rparr>"
  have "reaches S d (point hp p mk s) (point ?hp (Suc p) mk s)"
    using Cons.prems step_req_method_next [of "hp\<lparr>hp_nread := of_nat (Suc n)\<rparr>" c m' i' p mk s] nx(1)
      reaches_byte [of p d c "cs @ rest" hp n S mk s "point ?hp p mk s"]
    by (simp add: step_def PARSING_HEADER_def)
  also have "reaches S d (point ?hp (Suc p) mk s) (point (?hp\<lparr>hp_method := m, hp_index := i, hp_nread := of_nat (Suc n + length cs)\<rparr>) (Suc p + length cs) mk s)"
    using Cons.prems nx(2) drop_Cons [of p d c "cs @ rest"] by (intro Cons.IH) simp_all
  finally show ?case by simp
qed

text \<open>The parser in the request line: of what it has read only the method matters.\<close>

definition request_parser :: "http_method \<Rightarrow> nat \<Rightarrow> parser_state \<Rightarrow> nat \<Rightarrow> http_parser" where
  "request_parser m i st n = (http_parser_init HTTP_BOTH)\<lparr>hp_type := HTTP_REQUEST, hp_content_length := ULLONG_MAX,
     hp_method := m, hp_index := i, hp_state := st, hp_nread := of_nat n\<rparr>"

lemma request_parser_simps [simp]:
  "hp_state (request_parser m i st n) = st" "hp_nread (request_parser m i st n) = of_nat n"
  "hp_method (request_parser m i st n) = m" "hp_index (request_parser m i st n) = i"
  "hp_errno (request_parser m i st n) = HPE_OK"
  "(request_parser m i st n)\<lparr>hp_nread := of_nat n'\<rparr> = request_parser m i st n'"
  "(request_parser m i st n)\<lparr>hp_state := st'\<rparr> = request_parser m i st' n"
  "(request_parser m i st n)\<lparr>hp_method := m', hp_index := i'\<rparr> = request_parser m' i' st n"
  "(request_parser m i st n)\<lparr>hp_index := i'\<rparr> = request_parser m i' st n"
  by (simp_all add: request_parser_def http_parser_init_def)

lemma reaches_method_letters:
  assumes "drop p d = cs @ CHR '' '' # rest" "method_run (m, i) cs = Some (m', i')" "i' = length (http_method_str m')"
    and "n + Suc (length cs) \<le> HTTP_MAX_HEADER_SIZE"
  shows "reaches S d (point (request_parser m i s_req_method n) p None s)
    (point (request_parser m' (Suc i') s_req_spaces_before_url (n + Suc (length cs))) (p + Suc (length cs)) None s)"
proof -
  let ?hp = "request_parser m' i' s_req_method (n + length cs)"
  have "reaches S d (point (request_parser m i s_req_method n) p None s) (point ?hp (p + length cs) None s)"
    using reaches_method [OF assms(1), of "request_parser m i s_req_method n" m' i' n S None s] assms(2,4) by simp
  also have "reaches S d (point ?hp (p + length cs) None s)
      (point (request_parser m' (Suc i') s_req_spaces_before_url (n + Suc (length cs))) (p + Suc (length cs)) None s)"
    using reaches_byte [of "p + length cs" d "CHR '' ''" rest ?hp "n + length cs" S None s
        "point (request_parser m' (Suc i') s_req_spaces_before_url (n + Suc (length cs))) (p + length cs) None s"]
      drop_append_rest [OF assms(1)] assms(3,4)
    by (simp add: step_def PARSING_HEADER_def step_req_method_def c_at_def Let_def incr_index_def set_index_def
        UPDATE_STATE_def next_byte_def)
  finally show ?thesis .
qed

lemma reaches_method_name:
  assumes "drop p d = http_method_str m @ CHR '' '' # rest" "m \<noteq> END" "\<And>hp. on_message_begin S hp s = Inr (0, s')"
  shows "\<exists>i. reaches S d (point (http_parser_init HTTP_BOTH) p None s)
    (point (request_parser m i s_req_spaces_before_url (Suc (length (http_method_str m))))
      (p + Suc (length (http_method_str m))) None s')"
proof -
  let ?n = "length (http_method_str m)"
  have small: "Suc ?n \<le> HTTP_MAX_HEADER_SIZE" using length_http_method_str [of m] by (simp add: HTTP_MAX_HEADER_SIZE_def)
  have init: "http_parser_init HTTP_BOTH = (http_parser_init HTTP_BOTH)\<lparr>hp_nread := of_nat 0\<rparr>"
    "hp_state (http_parser_init HTTP_BOTH) = s_start_req_or_res" "hp_nread (http_parser_init HTTP_BOTH) = of_nat 0"
    "hp_errno (http_parser_init HTTP_BOTH) = HPE_OK"
    by (simp_all add: http_parser_init_def)
  obtain c cs where name: "http_method_str m = c # cs"
    using method_reads [OF assms(2)] by (auto simp: method_reads_def split: list.splits)
  have n: "?n = Suc (length cs)" using name by simp
  have rest: "drop (Suc p) d = cs @ CHR '' '' # rest" using assms(1) name drop_Cons [of p d c] by simp
  show ?thesis
  proof (cases "c = CHR ''H''")
    case False
    obtain m0 where m0: "method_start c = Some m0" "IS_ALPHA c" "method_run (m0, 1) cs = Some (m, ?n)"
      using method_reads [OF assms(2)] name False by (auto simp: method_reads_def split: option.splits)
    have "c \<noteq> CR" "c \<noteq> LF" using m0(2) by (auto simp: IS_ALPHA_def LOWER_def)
    then have "reaches S d (point (http_parser_init HTTP_BOTH) p None s) (point (request_parser m0 1 s_req_method 1) (Suc p) None s')"
      using reaches_byte [of p d c "cs @ CHR '' '' # rest" "http_parser_init HTTP_BOTH" 0 S None s
          "point (request_parser m0 1 s_req_method 1) p None s'"] assms(1,3) name m0(1,2) False init
      by (simp add: step_def PARSING_HEADER_def HTTP_MAX_HEADER_SIZE_def step_start_req_or_res_def step_start_req_def
          clear_message_def UPDATE_STATE_def callback_notify_def next_byte_def Let_def)
        (simp add: request_parser_def http_parser_init_def of_nat_Suc)
    also have "reaches S d (point (request_parser m0 1 s_req_method 1) (Suc p) None s')
        (point (request_parser m (Suc ?n) s_req_spaces_before_url (1 + Suc (length cs))) (Suc p + Suc (length cs)) None s')"
      using small n by (intro reaches_method_letters [OF rest m0(3)]) simp_all
    finally show ?thesis using n by auto
  next
    case True
    obtain ds where ds: "cs = CHR ''E'' # ds" "method_run (HTTP_HEAD, 2) ds = Some (m, ?n)"
      using method_reads [OF assms(2)] name True by (cases cs) (auto simp: method_reads_def)
    let ?hp = "(http_parser_init HTTP_BOTH)\<lparr>hp_content_length := ULLONG_MAX, hp_state := s_res_or_resp_H, hp_nread := of_nat 1\<rparr>"
    have "reaches S d (point (http_parser_init HTTP_BOTH) p None s) (point ?hp (Suc p) None s')"
      using reaches_byte [of p d c "cs @ CHR '' '' # rest" "http_parser_init HTTP_BOTH" 0 S None s "point ?hp p None s'"]
        assms(1,3) name True init
      by (simp add: step_def PARSING_HEADER_def HTTP_MAX_HEADER_SIZE_def step_start_req_or_res_def
          clear_message_def UPDATE_STATE_def callback_notify_def next_byte_def Let_def)
        (simp add: http_parser_init_def)
    also have "reaches S d (point ?hp (Suc p) None s') (point (request_parser HTTP_HEAD 2 s_req_method 2) (Suc (Suc p)) None s')"
      using reaches_byte [of "Suc p" d "CHR ''E''" "ds @ CHR '' '' # rest" ?hp 1 S None s'
          "point (request_parser HTTP_HEAD 2 s_req_method 2) (Suc p) None s'"] rest ds(1)
      by (simp add: step_def PARSING_HEADER_def HTTP_MAX_HEADER_SIZE_def step_res_or_resp_H_def
          UPDATE_STATE_def next_byte_def)
        (simp add: request_parser_def http_parser_init_def of_nat_Suc)
    also have "reaches S d (point (request_parser HTTP_HEAD 2 s_req_method 2) (Suc (Suc p)) None s')
        (point (request_parser m (Suc ?n) s_req_spaces_before_url (2 + Suc (length ds))) (Suc (Suc p) + Suc (length ds)) None s')"
      using small n ds drop_Cons [of "Suc p" d "CHR ''E''"] rest by (intro reaches_method_letters [OF _ ds(2)]) simp_all
    finally show ?thesis using n ds(1) by auto
  qed
qed

section \<open>The target\<close>

definition target_states :: "parser_state set" where
  "target_states = {s_req_path, s_req_query_string_start, s_req_query_string, s_req_fragment_start, s_req_fragment}"

fun url_text :: "parser_state \<Rightarrow> string \<Rightarrow> bool" where
  "url_text st [] = (st \<in> target_states)"
| "url_text st (c # cs) = (st \<in> target_states \<and> url_text (parse_url_char st c) cs)"

lemma url_text_state: "url_text st cs \<Longrightarrow> st \<in> target_states"
  by (cases cs) simp_all

lemma step_url_char:
  assumes "hp_state hp \<in> target_states" "parse_url_char (hp_state hp) c \<in> target_states"
  shows "step S d c (point hp p mk s) = Inr (Next (point (hp\<lparr>hp_state := parse_url_char (hp_state hp) c\<rparr>) p mk s))"
proof -
  have "c \<noteq> CHR '' ''" "c \<noteq> CR" "c \<noteq> LF"
    using assms(2) by (auto simp: parse_url_char_def target_states_def)
  then have "step_req_url S d c (point hp p mk s) = Inr (Next (point (hp\<lparr>hp_state := parse_url_char (hp_state hp) c\<rparr>) p mk s))"
    using assms(2) by (auto simp: step_req_url_def url_char_def UPDATE_STATE_def Let_def next_byte_def target_states_def)
  then show ?thesis using assms(1) by (auto simp: step_def target_states_def)
qed

lemma target_states_header: "st \<in> target_states \<Longrightarrow> PARSING_HEADER st"
  by (auto simp: target_states_def PARSING_HEADER_def)

lemma reaches_url_chars:
  assumes "drop p d = cs @ rest" "url_text st cs" "n + length cs \<le> HTTP_MAX_HEADER_SIZE"
  shows "\<exists>st'\<in>target_states. reaches S d (point (request_parser m i st n) p mk s)
    (point (request_parser m i st' (n + length cs)) (p + length cs) mk s)"
  using assms
proof (induction cs arbitrary: p st n)
  case (Cons c cs)
  let ?st = "parse_url_char st c"
  have st: "st \<in> target_states" "?st \<in> target_states" using Cons.prems(2) url_text_state by auto
  have "reaches S d (point (request_parser m i st n) p mk s) (point (request_parser m i ?st (Suc n)) (Suc p) mk s)"
    using reaches_byte [of p d c "cs @ rest" "request_parser m i st n" n S mk s "point (request_parser m i ?st (Suc n)) p mk s"]
      step_url_char [of "request_parser m i st (Suc n)" c S d p mk s] st Cons.prems target_states_header
    by simp
  moreover obtain st' where "st' \<in> target_states" "reaches S d (point (request_parser m i ?st (Suc n)) (Suc p) mk s)
      (point (request_parser m i st' (Suc n + length cs)) (Suc p + length cs) mk s)"
    using Cons.IH [of "Suc p" ?st "Suc n"] Cons.prems drop_Cons [of p d c "cs @ rest"] by auto
  ultimately show ?case using reaches_trans by fastforce
qed (auto dest: url_text_state)

lemma url_text_append: "\<forall>c\<in>set cs. parse_url_char st c = st \<Longrightarrow> st \<in> target_states
  \<Longrightarrow> url_text st (cs @ ds) = url_text st ds"
  by (induction cs) (auto dest: url_text_state)

lemma target_reads:
  assumes "target_ok path query fragment" "path \<noteq> []"
  shows "parse_url_char s_req_spaces_before_url (hd (target_text path query fragment)) = s_req_path"
    "url_text s_req_path (tl (target_text path query fragment))"
proof -
  obtain c cs where path: "path = c # cs" using assms(2) by (cases path) auto
  have f: "url_text s_req_fragment_start fs" if "list_all (\<lambda>c. url_char_ok c \<or> c = CHR ''#'') fs" "fs \<noteq> [] \<Longrightarrow> hd fs \<noteq> CHR ''#''" for fs
  proof (cases fs)
    case (Cons e es)
    have "\<forall>c\<in>set es. parse_url_char s_req_fragment c = s_req_fragment"
      using that(1) Cons fragment_char by (auto simp: list_all_iff)
    then have "url_text s_req_fragment es" using url_text_append [of es s_req_fragment "[]"] by (simp add: target_states_def)
    then show ?thesis using that Cons fragment_char(1) [of e] by (auto simp: target_states_def)
  qed (simp add: target_states_def)
  have frag: "url_text st (if fragment \<noteq> [] then CHR ''#'' # fragment else [])" if "st \<in> {s_req_path, s_req_query_string}" for st
    using that f [of fragment] assms(1)
    by (auto simp: target_ok_def target_states_def parse_url_char_def parse_url_query_def IS_URL_CHAR_def)
  show "parse_url_char s_req_spaces_before_url (hd (target_text path query fragment)) = s_req_path"
    using assms by (auto simp: path target_text_def target_ok_def parse_url_char_def)
  have "\<forall>c\<in>set cs. parse_url_char s_req_path c = s_req_path"
    using assms(1) path path_char by (auto simp: target_ok_def list_all_iff)
  moreover have "url_text s_req_path ((if query \<noteq> [] then CHR ''?'' # query else [])
      @ (if fragment \<noteq> [] then CHR ''#'' # fragment else []))"
  proof (cases query)
    case Nil
    then show ?thesis using frag by simp
  next
    case (Cons e es)
    have q: "list_all url_char_ok query" using assms(1) by (simp add: target_ok_def)
    have "parse_url_char s_req_path CHR ''?'' = s_req_query_string_start"
      by (simp add: parse_url_char_def IS_URL_CHAR_def)
    moreover have "\<forall>c\<in>set es. parse_url_char s_req_query_string c = s_req_query_string"
      "parse_url_char s_req_query_string_start e = s_req_query_string"
      using q Cons query_char by (auto simp: list_all_iff)
    ultimately show ?thesis using Cons frag url_text_append [of es s_req_query_string]
      by (simp add: target_states_def)
  qed
  ultimately show "url_text s_req_path (tl (target_text path query fragment))"
    using url_text_append [of cs s_req_path] by (simp add: path target_text_def target_states_def)
qed

lemma reaches_target:
  assumes "drop p d = t @ CHR '' '' # rest" "t \<noteq> []" "parse_url_char s_req_spaces_before_url (hd t) = s_req_path"
    and "url_text s_req_path (tl t)" "m \<noteq> HTTP_CONNECT" "n + Suc (length t) \<le> HTTP_MAX_HEADER_SIZE"
    and "\<And>hp. on_data S M_url hp (drop p d) (length t) s = Inr (0, s')"
  shows "reaches S d (point (request_parser m i s_req_spaces_before_url n) p None s)
    (point (request_parser m i s_req_http_start (n + Suc (length t))) (p + Suc (length t)) None s')"
proof -
  obtain c cs where t: "t = c # cs" using assms(2) by (cases t) auto
  have c: "c \<noteq> CHR '' ''" using assms(3) t by (auto simp: parse_url_char_def)
  have "reaches S d (point (request_parser m i s_req_spaces_before_url n) p None s)
      (point (request_parser m i s_req_path (Suc n)) (Suc p) (Some (M_url, p)) s)"
    using reaches_byte [of p d c "cs @ CHR '' '' # rest" "request_parser m i s_req_spaces_before_url n" n S None s
        "point (request_parser m i s_req_path (Suc n)) p (Some (M_url, p)) s"] assms t c
    by (simp add: step_def PARSING_HEADER_def step_req_spaces_before_url_def url_char_def UPDATE_STATE_def
        next_byte_def Let_def)
  also have "\<exists>st\<in>target_states. reaches S d (point (request_parser m i s_req_path (Suc n)) (Suc p) (Some (M_url, p)) s)
      (point (request_parser m i st (Suc n + length cs)) (Suc p + length cs) (Some (M_url, p)) s)"
    using assms t drop_Cons [of p d c] by (intro reaches_url_chars [where rest = "CHR '' '' # rest"]) simp_all
  then obtain st where st: "st \<in> target_states"
    and "reaches S d (point (request_parser m i s_req_path (Suc n)) (Suc p) (Some (M_url, p)) s)
      (point (request_parser m i st (Suc n + length cs)) (Suc p + length cs) (Some (M_url, p)) s)"
    by (elim bexE)
  note this(2)
  also have "reaches S d (point (request_parser m i st (Suc n + length cs)) (Suc p + length cs) (Some (M_url, p)) s)
      (point (request_parser m i s_req_http_start (n + Suc (length t))) (p + Suc (length t)) None s')"
    using reaches_byte [of "p + length t" d "CHR '' ''" rest "request_parser m i st (n + length t)" "n + length t" S
        "Some (M_url, p)" s "point (request_parser m i s_req_http_start (n + Suc (length t))) (p + length t) None s'"]
      assms(6,7) drop_append_rest [OF assms(1)] target_states_header [OF st] st t
    by (auto simp: step_def target_states_def step_req_url_def UPDATE_STATE_def CALLBACK_DATA_def callback_data_def
        next_byte_def Let_def)
  finally show ?thesis .
qed

section \<open>The version\<close>

text \<open>The parser between two fields of the head: \<open>F\<close> and \<open>L\<close> are what the fields so far have said.\<close>

definition head_parser :: "http_method \<Rightarrow> flag set \<Rightarrow> 64 word \<Rightarrow> nat \<Rightarrow> http_parser" where
  "head_parser m F L n = (http_parser_init HTTP_BOTH)\<lparr>hp_type := HTTP_REQUEST, hp_flags := F, hp_content_length := L,
     hp_method := m, hp_state := s_header_field_start, hp_http_major := 1, hp_http_minor := 1, hp_nread := of_nat n\<rparr>"

definition version_text :: string where
  "version_text = ''HTTP/1.1'' @ [CR, LF]"

lemma reaches_version:
  assumes "drop p d = version_text @ rest" "n + length version_text \<le> HTTP_MAX_HEADER_SIZE"
  shows "reaches S d (point (request_parser m i s_req_http_start n) p None s)
    (point ((head_parser m {} ULLONG_MAX (n + length version_text))\<lparr>hp_index := i\<rparr>) (p + length version_text) None s)"
proof -
  have "n + 10 \<le> HTTP_MAX_HEADER_SIZE" using assms(2) by (simp add: version_text_def)
  note bytes = step_def PARSING_HEADER_def step_req_http_start_def step_res_constant_def STRICT_CHECK_def
    step_req_first_http_major_def step_http_major_def step_first_http_minor_def step_req_http_minor_def
    step_expect_LF_def UPDATE_STATE_def set_major_def set_minor_def digit16_def IS_NUM_def next_byte_def
  show ?thesis
    by ((rule reaches_then, simp add: assms(1) drop_Suc_tl version_text_def, simp add: bytes, simp, 
        use \<open>n + 10 \<le> HTTP_MAX_HEADER_SIZE\<close> in simp, simp add: bytes)+)
      (simp add: head_parser_def request_parser_def http_parser_init_def version_text_def)
qed

end
