(* ===== verification/Request_Fields.thy ===== *)
theory Request_Fields
  imports Request_Reading
begin

text \<open>
  How the parser reads the fields of a head: ordinary ones, which it only passes on, and those
  that frame the message, which it also keeps, as flags and a content length.
\<close>

section \<open>Names\<close>

text \<open>What the loop over a name leads to, from the first byte on: a state of the set \<open>H\<close>.\<close>

definition name_reads :: "string \<Rightarrow> flag set \<Rightarrow> header_states set \<Rightarrow> flag set \<Rightarrow> bool" where
  "name_reads k F H F' \<longleftrightarrow> (case k of [] \<Rightarrow> False | c # cs \<Rightarrow> tokens c \<noteq> NUL \<and>
     (\<forall>q hp r. hp_header_state hp = first_header_state (tokens c) \<longrightarrow> hp_index hp = 0 \<longrightarrow> hp_flags hp = F \<longrightarrow>
       (\<exists>h\<in>H. \<exists>i. header_field_loop (cs @ CHR '':'' # r) q hp
          = Inr (Field_char CHR '':'', q + length cs, hp\<lparr>hp_header_state := h, hp_index := i, hp_flags := F'\<rparr>))))"

definition special_names :: "string list" where
  "special_names = [''connection'', ''proxy-connection'', ''content-length'', ''transfer-encoding'', ''upgrade'']"

text \<open>A name that has none of the special ones as its beginning.\<close>

definition ordinary_name :: "string \<Rightarrow> bool" where
  "ordinary_name k \<longleftrightarrow> k \<noteq> [] \<and> list_all (\<lambda>c. tokens c \<noteq> NUL) k
     \<and> list_all (\<lambda>x. \<not> prefix x (map tokens k)) special_names"

text \<open>The matcher's state after the letters \<open>w\<close>, none of the names being complete.\<close>

definition in_name :: "string \<Rightarrow> string \<Rightarrow> nat \<Rightarrow> bool" where
  "in_name x w i \<longleftrightarrow> w \<noteq> [] \<and> i = length w - 1 \<and> length w < length x \<and> w = take (length w) x"

definition matching :: "string \<Rightarrow> header_states \<Rightarrow> nat \<Rightarrow> bool" where
  "matching w h i \<longleftrightarrow> (case h of h_general \<Rightarrow> True | h_C \<Rightarrow> w = ''c'' \<and> i = 0 | h_CO \<Rightarrow> w = ''co'' \<and> i = 1
     | h_CON \<Rightarrow> w = ''con'' \<and> i = 2
     | h_matching_connection \<Rightarrow> in_name ''connection'' w i
     | h_matching_proxy_connection \<Rightarrow> in_name ''proxy-connection'' w i
     | h_matching_content_length \<Rightarrow> in_name ''content-length'' w i
     | h_matching_transfer_encoding \<Rightarrow> in_name ''transfer-encoding'' w i
     | h_matching_upgrade \<Rightarrow> in_name ''upgrade'' w i
     | _ \<Rightarrow> False)"

lemma match_name_step:
  assumes "in_name x w (hp_index hp)" "w @ [t] \<noteq> x" "t \<noteq> NUL" "full \<noteq> h_general"
  shows "match_name x full t hp = hp\<lparr>hp_index := length w, hp_header_state := h_general\<rparr>
    \<or> match_name x full t hp = hp\<lparr>hp_index := length w\<rparr> \<and> in_name x (w @ [t]) (length w)"
proof -
  have w: "Suc (hp_index hp) = length w" "length w < length x" "w = take (length w) x"
    using assms(1) by (auto simp: in_name_def)
  show ?thesis
  proof (cases "t = x ! length w")
    case True
    then have longer: "w @ [t] = take (Suc (length w)) x" using w(2,3) by (metis take_Suc_conv_app_nth)
    then have "Suc (length w) \<noteq> length x" using assms(2) by auto
    then have "length w \<noteq> length x - Suc 0" "in_name x (w @ [t]) (length w)"
      using w(2) longer by (auto simp: in_name_def)
    then show ?thesis using True w(1,2) by (simp add: match_name_def c_at_def Let_def)
  next
    case False
    then show ?thesis using w(1,2) by (simp add: match_name_def c_at_def Let_def)
  qed
qed

lemma in_name_start:
  "in_name ''connection'' ''conn'' 3" "in_name ''content-length'' ''cont'' 3"
  by (simp_all add: in_name_def)

lemma matching_step:
  assumes "matching w (hp_header_state hp) (hp_index hp)" "list_all (\<lambda>x. w @ [t] \<noteq> x) special_names" "t \<noteq> NUL"
  shows "\<exists>h i. header_field_char ch t hp = Inr (Inr (hp\<lparr>hp_header_state := h, hp_index := i\<rparr>)) \<and> matching (w @ [t]) h i"
proof -
  have matched: "\<exists>h i. match_name x full t hp = hp\<lparr>hp_header_state := h, hp_index := i\<rparr> \<and> h \<noteq> full \<and> matching (w @ [t]) h i"
    if "in_name x w (hp_index hp)" "x \<in> set special_names" "full \<notin> {h_general, hp_header_state hp}"
      "\<And>v i. in_name x v i \<Longrightarrow> matching v (hp_header_state hp) i" for x full
  proof -
    have "w @ [t] \<noteq> x" using assms(2) that(2) by (auto simp: list_all_iff)
    from match_name_step [OF that(1) this assms(3), of full] that(3)
    consider "match_name x full t hp = hp\<lparr>hp_index := length w, hp_header_state := h_general\<rparr>"
      | "match_name x full t hp = hp\<lparr>hp_index := length w\<rparr>" "in_name x (w @ [t]) (length w)" by auto
    then show ?thesis
    proof cases
      case 1
      then show ?thesis using that(3)
        by (intro exI [of _ h_general] exI [of _ "length w"]) (auto simp: matching_def)
    next
      case 2
      then show ?thesis using that(3,4)
        by (intro exI [of _ "hp_header_state hp"] exI [of _ "length w"]) auto
    qed
  qed
  have name: "\<exists>h i. header_field_char ch t hp = Inr (Inr (hp\<lparr>hp_header_state := h, hp_index := i\<rparr>)) \<and> matching (w @ [t]) h i"
    if "in_name x w (hp_index hp)" "x \<in> set special_names" "full \<notin> {h_general, hp_header_state hp}"
      "\<And>v i. in_name x v i \<Longrightarrow> matching v (hp_header_state hp) i"
      "\<And>hp'. match_name x full t hp = hp' \<Longrightarrow> hp_header_state hp' \<noteq> full \<Longrightarrow> header_field_char ch t hp = Inr (Inr hp')" for x full
    using matched [OF that(1-4)] that(5) by fastforce
  show ?thesis
  proof (cases "hp_header_state hp")
    case h_general
    then have "hp\<lparr>hp_header_state := h_general, hp_index := hp_index hp\<rparr> = hp" by simp
    then show ?thesis using h_general
      by (intro exI [of _ h_general] exI [of _ "hp_index hp"]) (simp add: header_field_char_def matching_def)
  next
    case h_matching_connection
    then show ?thesis using assms(1) by (intro name [of "''connection''" h_connection])
      (simp_all add: matching_def special_names_def header_field_char_def)
  next
    case h_matching_proxy_connection
    then show ?thesis using assms(1) by (intro name [of "''proxy-connection''" h_connection])
      (simp_all add: matching_def special_names_def header_field_char_def)
  next
    case h_matching_content_length
    then show ?thesis using assms(1) by (intro name [of "''content-length''" h_content_length])
      (simp_all add: matching_def special_names_def header_field_char_def Let_def)
  next
    case h_matching_transfer_encoding
    then show ?thesis using assms(1) by (intro name [of "''transfer-encoding''" h_transfer_encoding])
      (simp_all add: matching_def special_names_def header_field_char_def)
  next
    case h_matching_upgrade
    then show ?thesis using assms(1) by (intro name [of "''upgrade''" h_upgrade])
      (simp_all add: matching_def special_names_def header_field_char_def)
  next
    case h_C
    then show ?thesis using assms(1)
      by (intro exI [of _ "if t = CHR ''o'' then h_CO else h_general"] exI [of _ 1])
        (auto simp: matching_def header_field_char_def)
  next
    case h_CO
    then show ?thesis using assms(1)
      by (intro exI [of _ "if t = CHR ''n'' then h_CON else h_general"] exI [of _ 2])
        (auto simp: matching_def header_field_char_def eval_nat_numeral)
  next
    case h_CON
    then show ?thesis using assms(1) in_name_start
      by (intro exI [of _ "if t = CHR ''n'' then h_matching_connection
            else if t = CHR ''t'' then h_matching_content_length else h_general"] exI [of _ 3])
        (auto simp: matching_def header_field_char_def eval_nat_numeral)
  qed (use assms(1) in \<open>simp_all add: matching_def\<close>)
qed

text \<open>In these states a value is not looked into.\<close>

definition plain_states :: "header_states set" where
  "plain_states = {h_general, h_C, h_CO, h_CON, h_matching_connection, h_matching_proxy_connection,
     h_matching_content_length, h_matching_transfer_encoding, h_matching_upgrade}"

lemma matching_plain: "matching w h i \<Longrightarrow> h \<in> plain_states"
  by (cases h) (simp_all add: matching_def plain_states_def)

lemma prefix_map_append: "\<not> prefix x (map f (ws @ cs)) \<Longrightarrow> \<not> prefix x (map f ws)"
  by (metis map_append prefix_prefix)

lemma name_loop:
  assumes "matching (map tokens w) (hp_header_state hp) (hp_index hp)" "list_all (\<lambda>c. tokens c \<noteq> NUL) cs"
    and "list_all (\<lambda>x. \<not> prefix x (map tokens (w @ cs))) special_names"
  shows "\<exists>h\<in>plain_states. \<exists>i. header_field_loop (cs @ CHR '':'' # r) q hp
    = Inr (Field_char CHR '':'', q + length cs, hp\<lparr>hp_header_state := h, hp_index := i\<rparr>)"
  using assms
proof (induction cs arbitrary: w hp q)
  case Nil
  have "tokens CHR '':'' = NUL" by code_simp
  moreover have "hp = hp\<lparr>hp_header_state := hp_header_state hp, hp_index := hp_index hp\<rparr>" by simp
  ultimately show ?case using matching_plain [OF Nil.prems(1)] by (intro bexI [of _ "hp_header_state hp"] exI [of _ "hp_index hp"]) auto
next
  case (Cons c cs)
  have "list_all (\<lambda>x. map tokens w @ [tokens c] \<noteq> x) special_names"
    using Cons.prems(3) prefix_map_append [of _ tokens "w @ [c]" cs] by (auto simp: list_all_iff)
  then obtain h i where step: "header_field_char c (tokens c) hp = Inr (Inr (hp\<lparr>hp_header_state := h, hp_index := i\<rparr>))"
    "matching (map tokens w @ [tokens c]) h i"
    using matching_step [OF Cons.prems(1), of "tokens c" c] Cons.prems(2) by auto
  then show ?case using Cons.IH [of "w @ [c]" "hp\<lparr>hp_header_state := h, hp_index := i\<rparr>" "Suc q"] Cons.prems by simp
qed

lemma ordinary_name_reads:
  assumes "ordinary_name k"
  shows "name_reads k F plain_states F"
proof -
  obtain c cs where k: "k = c # cs" using assms by (cases k) (auto simp: ordinary_name_def)
  have "matching [tokens c] (first_header_state (tokens c)) 0"
    by (simp add: first_header_state_def matching_def in_name_def)
  then show ?thesis using assms k name_loop [of "[c]" _ cs]
    by (auto simp: name_reads_def ordinary_name_def intro!: exI)
qed

lemmas special_name_steps = name_reads_def first_header_state_def header_field_char_def match_name_def c_at_def
  tokens_def IS_ALPHA_def LOWER_def IS_NUM_def

lemma connection_reads: "name_reads ''connection'' F {h_connection} F"
  by (auto simp: special_name_steps intro!: exI [of _ "Suc (Suc (Suc (Suc (Suc (Suc (Suc (Suc (Suc 0))))))))"])

lemma transfer_encoding_reads: "name_reads ''transfer-encoding'' F {h_transfer_encoding} F"
  by (auto simp: special_name_steps intro!: exI [of _ "Suc (Suc (Suc (Suc (Suc (Suc (Suc (Suc (Suc (Suc (Suc (Suc (Suc (Suc (Suc (Suc 0)))))))))))))))"])

lemma content_length_reads:
  "F_CONTENTLENGTH \<notin> F \<Longrightarrow> name_reads ''content-length'' F {h_content_length} (insert F_CONTENTLENGTH F)"
  by (auto simp: special_name_steps Let_def intro!: exI [of _ "Suc (Suc (Suc (Suc (Suc (Suc (Suc (Suc (Suc (Suc (Suc (Suc (Suc 0))))))))))))"])

section \<open>Values\<close>

text \<open>What the first byte of a value does to the matcher and to the content length.\<close>

definition value_start :: "char \<Rightarrow> header_states \<Rightarrow> 64 word \<Rightarrow> (header_states \<times> 64 word) option" where
  "value_start c h L = (case h of
     h_transfer_encoding \<Rightarrow> Some (if LOWER c = CHR ''c'' then h_matching_transfer_encoding_chunked else h_general, L)
   | h_content_length \<Rightarrow> if IS_NUM c then Some (h_content_length, of_nat (byte c) - 48) else None
   | h_connection \<Rightarrow> Some (if LOWER c = CHR ''k'' then h_matching_connection_keep_alive
       else if LOWER c = CHR ''c'' then h_matching_connection_close
       else if LOWER c = CHR ''u'' then h_matching_connection_upgrade else h_matching_connection_token, L)
   | _ \<Rightarrow> if h \<in> plain_states then Some (h_general, L) else None)"

lemma step_value_start:
  assumes "value_start c (hp_header_state hp) (hp_content_length hp) = Some (h, L)"
  shows "step_header_value_start c (point hp p None s) = Inr (Next (point
    (hp\<lparr>hp_state := s_header_value, hp_index := 0, hp_header_state := h, hp_content_length := L\<rparr>)
    p (Some (M_header_value, p)) s))"
  using assms
  by (cases hp; cases "hp_header_state hp")
    (auto simp: step_header_value_start_def value_start_def set_index_def UPDATE_STATE_def set_header_state_def
      next_byte_def Let_def plain_states_def split: if_splits)

text \<open>
  A value that changes the content length from \<open>L\<close> to \<open>L'\<close> and leaves the matcher in the
  state \<open>h'\<close>.
\<close>

definition value_reads :: "string \<Rightarrow> header_states \<Rightarrow> 64 word \<Rightarrow> header_states \<Rightarrow> 64 word \<Rightarrow> bool" where
  "value_reads v h L h' L' \<longleftrightarrow> (case v of [] \<Rightarrow> False | c # cs \<Rightarrow> c \<notin> {CHR '' '', HT, CR, LF} \<and>
     (\<exists>h1 L1. value_start c h L = Some (h1, L1)
       \<and> (\<forall>q hp r. \<not> hp_lenient hp \<longrightarrow> hp_index hp = 0 \<longrightarrow> hp_content_length hp = L1 \<longrightarrow>
         (\<exists>i. header_value_loop (cs @ CR # r) q h1 hp
            = Inr (Value_CR, q + length cs, h', hp\<lparr>hp_index := i, hp_content_length := L'\<rparr>)))))"

lemma value_readsE:
  assumes "value_reads v h L h' L'"
  obtains e es h1 L1 where "v = e # es" "e \<notin> {CHR '' '', HT, CR, LF}" "value_start e h L = Some (h1, L1)"
    "\<And>q hp r. \<not> hp_lenient hp \<Longrightarrow> hp_index hp = 0 \<Longrightarrow> hp_content_length hp = L1 \<Longrightarrow>
      \<exists>i. header_value_loop (es @ CR # r) q h1 hp = Inr (Value_CR, q + length es, h', hp\<lparr>hp_index := i, hp_content_length := L'\<rparr>)"
proof (cases v)
  case (Cons e es)
  from assms obtain h1 L1 where "e \<notin> {CHR '' '', HT, CR, LF}" "value_start e h L = Some (h1, L1)"
    "\<forall>q hp r. \<not> hp_lenient hp \<longrightarrow> hp_index hp = 0 \<longrightarrow> hp_content_length hp = L1 \<longrightarrow>
      (\<exists>i. header_value_loop (es @ CR # r) q h1 hp = Inr (Value_CR, q + length es, h', hp\<lparr>hp_index := i, hp_content_length := L'\<rparr>))"
    unfolding value_reads_def Cons list.case by blast
  then show ?thesis using that Cons by blast
qed (use assms in \<open>simp add: value_reads_def\<close>)

definition plain_value :: "string \<Rightarrow> bool" where
  "plain_value v \<longleftrightarrow> v \<noteq> [] \<and> hd v \<noteq> CHR '' '' \<and> hd v \<noteq> HT
     \<and> list_all (\<lambda>c. IS_HEADER_CHAR c \<and> \<not> is_eol c) v \<and> length v \<le> HTTP_MAX_HEADER_SIZE"

lemma skip_general_line:
  assumes "list_all (\<lambda>c. \<not> is_eol c) cs" "length cs < HTTP_MAX_HEADER_SIZE"
  shows "skip_general (cs @ CR # r) = length cs"
proof -
  let ?N = "min (length (cs @ CR # r)) HTTP_MAX_HEADER_SIZE"
  have "take ?N (cs @ CR # r) = cs @ CR # take (?N - Suc (length cs)) r"
    using assms(2) by (simp add: take_Cons' min_def)
  moreover have "takeWhile (\<lambda>c. \<not> is_eol c) (cs @ CR # w) = cs" for w
    using assms(1) by (simp add: takeWhile_append2 list_all_iff is_eol_def)
  ultimately show ?thesis by (simp add: skip_general_def Let_def)
qed

lemma plain_value_reads:
  assumes "plain_value v" "h \<in> plain_states"
  shows "value_reads v h L h_general L"
proof -
  obtain c cs where v: "v = c # cs" using assms(1) by (cases v) (auto simp: plain_value_def)
  have cs: "list_all (\<lambda>c. \<not> is_eol c) cs" "length cs < HTTP_MAX_HEADER_SIZE"
    using assms(1) v by (auto simp: plain_value_def list_all_iff)
  have "value_start c h L = Some (h_general, L)"
    using assms(2) by (auto simp: value_start_def plain_states_def)
  moreover have "\<exists>i. header_value_loop (cs @ CR # r) q h_general hp
      = Inr (Value_CR, q + length cs, h_general, hp\<lparr>hp_index := i, hp_content_length := hp_content_length hp\<rparr>)" for q hp r
  proof -
    have cr: "header_value_loop (CR # r) q h_general hp = Inr (Value_CR, q, h_general, hp)" for q
      by (simp add: header_value_loop.simps)
    have same: "hp = hp\<lparr>hp_index := hp_index hp, hp_content_length := hp_content_length hp\<rparr>" by simp
    show ?thesis
    proof (cases cs)
      case Nil
      then show ?thesis using cr [of q] same by (intro exI [of _ "hp_index hp"]) simp
    next
      case (Cons e es)
      have "drop (length es) (es @ CR # r) = CR # r" by simp
      moreover have "IS_HEADER_CHAR e" "e \<noteq> CR" "e \<noteq> LF" using assms(1) v Cons by (auto simp: plain_value_def is_eol_def)
      ultimately show ?thesis using skip_general_line [OF cs, of r] Cons cr [of "q + length cs"] same
        by (intro exI [of _ "hp_index hp"]) (simp add: header_value_loop.simps(2) [of e])
    qed
  qed
  ultimately show ?thesis using assms(1) v
    by (auto simp: value_reads_def plain_value_def is_eol_def)
qed

lemmas special_value_steps = value_reads_def value_start_def header_value_loop.simps header_value_char_def
  match_value_def c_at_def LOWER_def IS_HEADER_CHAR_def Let_def

lemma connection_values_read:
  "value_reads ''keep-alive'' h_connection L h_connection_keep_alive L"
  "value_reads ''close'' h_connection L h_connection_close L"
  by (auto simp: special_value_steps intro!: exI)

lemma transfer_encoding_value_reads:
  "value_reads ''chunked'' h_transfer_encoding L h_transfer_encoding_chunked L"
  "value_reads ''Chunked'' h_transfer_encoding L h_transfer_encoding_chunked L"
proof -
  have "LOWER CHR ''C'' = CHR ''c''" by code_simp
  then show "value_reads ''Chunked'' h_transfer_encoding L h_transfer_encoding_chunked L"
    by (auto simp: special_value_steps intro!: exI)
qed (auto simp: special_value_steps intro!: exI)

text \<open>The digits of a content length, up to a bound on the number.\<close>

lemma read_base_mono: "read_base 10 a ds = Some n \<Longrightarrow> a \<le> n"
proof (induction ds arbitrary: a)
  case (Cons c cs)
  then show ?case by (auto split: option.splits if_splits) (metis add_leD1 le_trans mult_le_mono2 mult.right_neutral one_le_numeral)
qed simp

lemma decimal_digit:
  assumes "is_digit_of 10 c"
  shows "IS_NUM c" "digit_val c = Some (byte c - 48)" "byte c - 48 < 10"
    "of_nat (byte c) - 48 = (of_nat (byte c - 48) :: 64 word)" "c \<notin> {CHR '' '', HT, CR, LF}" "IS_HEADER_CHAR c"
  using assms
  by (auto simp: is_digit_of_def digit_val_def IS_NUM_def IS_HEADER_CHAR_def of_nat_diff split: if_splits)

lemma length_limit: "(ULLONG_MAX - 10) div 10 = (1844674407370955160 :: 64 word)"
  by code_simp

lemma digits_loop:
  assumes "list_all (is_digit_of 10) ds" "read_base 10 a ds = Some n" "n \<le> 10 ^ 18" "hp_content_length hp = of_nat a"
  shows "header_value_loop (ds @ CR # r) q h_content_length hp
    = Inr (Value_CR, q + length ds, h_content_length, hp\<lparr>hp_content_length := of_nat n\<rparr>)"
  using assms
proof (induction ds arbitrary: a q hp)
  case Nil
  then have "hp\<lparr>hp_content_length := of_nat n\<rparr> = hp" by simp
  then show ?case by (simp add: header_value_loop.simps)
next
  case (Cons c cs)
  let ?a = "a * 10 + (byte c - 48)"
  let ?hp = "hp\<lparr>hp_content_length := of_nat ?a\<rparr>"
  have c: "is_digit_of 10 c" using Cons.prems(1) by simp
  note digit = decimal_digit [OF c]
  have rest: "read_base 10 ?a cs = Some n" using Cons.prems(2) digit(2,3) by simp
  then have "a * 10 \<le> 10 ^ 18" using read_base_mono [OF rest] Cons.prems(3) by simp
  then have "\<not> (ULLONG_MAX - 10) div 10 < (of_nat a :: 64 word)"
    by (simp add: length_limit word_less_nat_alt unat_of_nat take_bit_nat_eq_self)
  moreover have "c \<noteq> CHR '' ''" using digit(5) by auto
  ultimately have "content_length_digit c hp = Inr ?hp"
    using digit(1,4) Cons.prems(4) by (simp add: content_length_digit_def of_nat_add)
  then have "header_value_loop ((c # cs) @ CR # r) q h_content_length hp
      = header_value_loop (cs @ CR # r) (Suc q) h_content_length ?hp"
    using digit(5,6) by (simp add: header_value_loop.simps(2) [of c] header_value_char_def)
  also have "\<dots> = Inr (Value_CR, Suc q + length cs, h_content_length, ?hp\<lparr>hp_content_length := of_nat n\<rparr>)"
    using Cons.prems(1,3) rest by (intro Cons.IH) simp_all
  finally show ?case by simp
qed

lemma content_length_value_reads:
  assumes "n \<le> 10 ^ 18"
  shows "value_reads (to_dec n) h_content_length L h_content_length (of_nat n)"
proof -
  obtain c cs where ds: "to_dec n = c # cs" by (cases "to_dec n") (auto simp: to_dec_def)
  have all: "list_all (is_digit_of 10) (to_dec n)" by simp
  then have c: "is_digit_of 10 c" and cs: "list_all (is_digit_of 10) cs" by (simp_all add: ds del: digits_to_dec)
  note digit = decimal_digit [OF c]
  have read: "read_base 10 (byte c - 48) cs = Some n"
    using read_to_dec [of n] digit(2,3) by (simp add: ds del: read_to_dec)
  have "\<exists>i. header_value_loop (cs @ CR # r) q h_content_length hp
      = Inr (Value_CR, q + length cs, h_content_length, hp\<lparr>hp_index := i, hp_content_length := of_nat n\<rparr>)"
    if "hp_content_length hp = of_nat (byte c) - 48" for q hp r
    using digits_loop [OF cs read assms, of hp r q] that digit(4) by (intro exI [of _ "hp_index hp"]) simp
  then show ?thesis using digit(1,5) by (auto simp: value_reads_def ds value_start_def)
qed

section \<open>A field\<close>

text \<open>
  Between two fields the parser is at the beginning of a line, or still about to settle what the
  last value meant.
\<close>

definition finished_flags :: "header_states \<Rightarrow> flag set \<Rightarrow> flag set" where
  "finished_flags h F = (if h = h_transfer_encoding_chunked then insert F_CHUNKED F
     else if h = h_connection_keep_alive then insert F_CONNECTION_KEEP_ALIVE F
     else if h = h_connection_close then insert F_CONNECTION_CLOSE F
     else if h = h_connection_upgrade then insert F_CONNECTION_UPGRADE F else F)"

lemma finish_header_flags: "finish_header hp = hp\<lparr>hp_flags := finished_flags (hp_header_state hp) (hp_flags hp)\<rparr>"
  by (simp add: finish_header_def finished_flags_def connection_flag_def)

definition settled :: "http_parser \<Rightarrow> http_parser" where
  "settled hp = (if hp_state hp = s_header_value_lws then (finish_header hp)\<lparr>hp_state := s_header_field_start\<rparr> else hp)"

definition between_fields :: "http_method \<Rightarrow> flag set \<Rightarrow> 64 word \<Rightarrow> nat \<Rightarrow> http_parser \<Rightarrow> bool" where
  "between_fields m F L n hp \<longleftrightarrow> hp_state hp \<in> {s_header_field_start, s_header_value_lws}
     \<and> (\<exists>h i. settled hp = (head_parser m F L n)\<lparr>hp_header_state := h, hp_index := i\<rparr>)"

lemma head_parser_simps [simp]:
  "hp_state (head_parser m F L n) = s_header_field_start" "hp_nread (head_parser m F L n) = of_nat n"
  "hp_flags (head_parser m F L n) = F" "hp_content_length (head_parser m F L n) = L" "hp_errno (head_parser m F L n) = HPE_OK"
  "hp_method (head_parser m F L n) = m" "\<not> hp_lenient (head_parser m F L n)" "hp_index (head_parser m F L n) = 0"
  "hp_http_major (head_parser m F L n) = 1" "hp_http_minor (head_parser m F L n) = 1"
  "hp_type (head_parser m F L n) = HTTP_REQUEST" "\<not> hp_upgrade (head_parser m F L n)"
  "(head_parser m F L n)\<lparr>hp_nread := of_nat n'\<rparr> = head_parser m F L n'"
  by (simp_all add: head_parser_def http_parser_init_def)

lemma between_first: "between_fields m F L n ((head_parser m F L n)\<lparr>hp_index := i\<rparr>)"
proof -
  have "settled ((head_parser m F L n)\<lparr>hp_index := i\<rparr>) = (head_parser m F L n)\<lparr>hp_header_state := h_general, hp_index := i\<rparr>"
    by (simp add: settled_def) (simp add: head_parser_def http_parser_init_def)
  then show ?thesis by (simp add: between_fields_def) blast
qed

text \<open>A byte that is no white space settles the last field.\<close>

lemma settled_nread: "hp_nread (settled hp) = hp_nread hp" "hp_errno (settled hp) = hp_errno hp"
  "settled (hp\<lparr>hp_nread := k\<rparr>) = (settled hp)\<lparr>hp_nread := k\<rparr>"
  by (simp_all add: settled_def finish_header_flags)

lemma between_nread: "between_fields m F L n hp \<Longrightarrow> hp_nread hp = of_nat n"
proof -
  assume "between_fields m F L n hp"
  then obtain h i where "settled hp = (head_parser m F L n)\<lparr>hp_header_state := h, hp_index := i\<rparr>"
    by (auto simp: between_fields_def)
  then have "hp_nread (settled hp) = of_nat n" by simp
  then show "hp_nread hp = of_nat n" by (simp add: settled_nread)
qed

lemma step_between:
  assumes "between_fields m F L n hp" "c \<noteq> CHR '' ''" "c \<noteq> HT"
  shows "\<exists>h i. step S d c (point (hp\<lparr>hp_nread := of_nat (Suc n)\<rparr>) p None s)
    = step_header_field_start S c (point ((head_parser m F L (Suc n))\<lparr>hp_header_state := h, hp_index := i\<rparr>) p None s)"
proof -
  obtain h i where set: "settled hp = (head_parser m F L n)\<lparr>hp_header_state := h, hp_index := i\<rparr>"
    and st: "hp_state hp \<in> {s_header_field_start, s_header_value_lws}"
    using assms(1) by (auto simp: between_fields_def)
  have "step S d c (point (hp\<lparr>hp_nread := of_nat (Suc n)\<rparr>) p None s)
      = step_header_field_start S c (point ((settled hp)\<lparr>hp_nread := of_nat (Suc n)\<rparr>) p None s)"
    using st assms(2,3)
    by (cases hp) (auto simp: step_def settled_def step_header_value_lws_def UPDATE_STATE_def finish_header_flags)
  then show ?thesis unfolding set
    by (intro exI [of _ h] exI [of _ i]) (simp add: head_parser_def http_parser_init_def)
qed

lemma reaches_first_letter:
  assumes "drop p d = c # rest" "between_fields m F L n hp" "tokens c \<noteq> NUL" "n < HTTP_MAX_HEADER_SIZE"
  shows "reaches S d (point hp p None s) (point ((head_parser m F L (Suc n))\<lparr>hp_header_state := first_header_state (tokens c),
    hp_state := s_header_field\<rparr>) (Suc p) (Some (M_header_field, p)) s)"
proof -
  have c: "c \<notin> {CHR '' '', HT, CR, LF}" using assms(3) by (auto simp: tokens_def IS_ALPHA_def LOWER_def IS_NUM_def)
  obtain h i where "step S d c (point (hp\<lparr>hp_nread := of_nat (Suc n)\<rparr>) p None s)
      = step_header_field_start S c (point ((head_parser m F L (Suc n))\<lparr>hp_header_state := h, hp_index := i\<rparr>) p None s)"
    using step_between [OF assms(2), of c S d p s] c by auto
  also have "\<dots> = Inr (Next (point ((head_parser m F L (Suc n))\<lparr>hp_header_state := first_header_state (tokens c),
      hp_state := s_header_field\<rparr>) p (Some (M_header_field, p)) s))"
    using c assms(3)
    by (simp add: step_header_field_start_def UPDATE_STATE_def set_index_def set_header_state_def next_byte_def)
      (simp add: head_parser_def http_parser_init_def)
  finally have step: "step S d c (point (hp\<lparr>hp_nread := of_nat (Suc n)\<rparr>) p None s) = \<dots>" .
  have "PARSING_HEADER (hp_state hp)" using assms(2) by (auto simp: between_fields_def PARSING_HEADER_def)
  from reaches_byte [OF assms(1) this between_nread [OF assms(2)] assms(4) step] show ?thesis by simp
qed

lemma counted_sum:
  assumes "a + b = n" "n \<le> HTTP_MAX_HEADER_SIZE"
  shows "(of_nat a + of_nat b :: 32 word) = of_nat n" "\<not> of_nat HTTP_MAX_HEADER_SIZE < (of_nat n :: 32 word)"
  using assms not_overflow [of n] by (auto simp: of_nat_add)

text \<open>The rest of the name, up to the colon.\<close>

lemma reaches_name:
  assumes "drop p d = cs @ CHR '':'' # rest" "hp_state hp = s_header_field" "hp_nread hp = of_nat n" "hp_errno hp = HPE_OK"
    and "n + length cs < HTTP_MAX_HEADER_SIZE" "\<And>hp. on_data S M_header_field hp (drop a d) (p + length cs - a) s = Inr (0, s')"
    and "\<And>hp'. hp_header_state hp' = hp_header_state hp \<Longrightarrow> hp_index hp' = hp_index hp \<Longrightarrow> hp_flags hp' = hp_flags hp \<Longrightarrow>
      \<exists>h\<in>H. \<exists>i. header_field_loop (cs @ CHR '':'' # rest) p hp'
          = Inr (Field_char CHR '':'', p + length cs, hp'\<lparr>hp_header_state := h, hp_index := i, hp_flags := F'\<rparr>)"
  shows "\<exists>h\<in>H. \<exists>i. reaches S d (point hp p (Some (M_header_field, a)) s)
    (point (hp\<lparr>hp_header_state := h, hp_index := i, hp_flags := F', hp_nread := of_nat (Suc (n + length cs)),
        hp_state := s_header_value_discard_ws\<rparr>) (Suc (p + length cs)) None s')"
proof -
  let ?hp = "hp\<lparr>hp_nread := of_nat (Suc n)\<rparr>"
  obtain h i where h: "h \<in> H" and loop: "header_field_loop (cs @ CHR '':'' # rest) p ?hp
      = Inr (Field_char CHR '':'', p + length cs, ?hp\<lparr>hp_header_state := h, hp_index := i, hp_flags := F'\<rparr>)"
    using assms(7) [of ?hp] by auto
  let ?hp' = "?hp\<lparr>hp_header_state := h, hp_index := i, hp_flags := F', hp_nread := of_nat (Suc (n + length cs)),
    hp_state := s_header_value_discard_ws\<rparr>"
  obtain ch more where ch: "drop p d = ch # more" using assms(1) by (cases cs) auto
  note counted_sum [of "Suc n" "length cs" "Suc (n + length cs)"]
  then have "step S d ch (point ?hp p (Some (M_header_field, a)) s) = Inr (Next (point ?hp' (p + length cs) None s'))"
    using assms(2,4,5,6) loop
    by (simp add: step_def step_header_field_def assms(1) COUNT_HEADER_SIZE_def CALLBACK_DATA_def callback_data_def
        UPDATE_STATE_def next_byte_def Let_def)
  then have "reaches S d (point hp p (Some (M_header_field, a)) s) (point ?hp' (Suc (p + length cs)) None s')"
    using reaches_byte [OF ch, of hp n S "Some (M_header_field, a)" s] assms(2,3,5) by (simp add: PARSING_HEADER_def)
  then show ?thesis using h by (intro bexI [of _ h] exI [of _ i]) simp_all
qed

text \<open>The space, the value and the line end.\<close>

lemma reaches_space:
  assumes "drop p d = CHR '' '' # rest" "hp_state hp = s_header_value_discard_ws" "hp_nread hp = of_nat n" "n < HTTP_MAX_HEADER_SIZE"
  shows "reaches S d (point hp p None s) (point (hp\<lparr>hp_nread := of_nat (Suc n)\<rparr>) (Suc p) None s)"
  using reaches_byte [OF assms(1) _ assms(3,4), of S None s "point (hp\<lparr>hp_nread := of_nat (Suc n)\<rparr>) p None s"] assms(2)
  by (simp add: PARSING_HEADER_def step_def step_header_value_discard_ws_def next_byte_def)

lemma reaches_value_start:
  assumes "drop p d = c # rest" "c \<notin> {CHR '' '', HT, CR, LF}" "hp_state hp = s_header_value_discard_ws"
    and "hp_nread hp = of_nat n" "n < HTTP_MAX_HEADER_SIZE" "value_start c (hp_header_state hp) (hp_content_length hp) = Some (h, L)"
  shows "reaches S d (point hp p None s) (point (hp\<lparr>hp_nread := of_nat (Suc n), hp_state := s_header_value, hp_index := 0,
    hp_header_state := h, hp_content_length := L\<rparr>) (Suc p) (Some (M_header_value, p)) s)"
proof -
  have "step S d c (point (hp\<lparr>hp_nread := of_nat (Suc n)\<rparr>) p None s) = Inr (Next (point (hp\<lparr>hp_nread := of_nat (Suc n),
      hp_state := s_header_value, hp_index := 0, hp_header_state := h, hp_content_length := L\<rparr>) p (Some (M_header_value, p)) s))"
    using step_value_start [of c "hp\<lparr>hp_nread := of_nat (Suc n)\<rparr>" h L p s] assms(2,3,6)
    by (simp add: step_def step_header_value_discard_ws_def)
  from reaches_byte [OF assms(1) _ assms(4,5) this] assms(3) show ?thesis by (simp add: PARSING_HEADER_def)
qed

lemma reaches_value_rest:
  assumes "drop p d = cs @ CR # rest" "hp_state hp = s_header_value" "hp_errno hp = HPE_OK" "hp_header_state hp = h1"
    and "hp_nread hp = of_nat n" "n + length cs < HTTP_MAX_HEADER_SIZE"
    and "header_value_loop (cs @ CR # rest) p h1 (hp\<lparr>hp_nread := of_nat (Suc n)\<rparr>)
      = Inr (Value_CR, p + length cs, h, hp\<lparr>hp_nread := of_nat (Suc n), hp_index := i, hp_content_length := L\<rparr>)"
    and "\<And>hp. on_data S M_header_value hp (drop a d) (p + length cs - a) s = Inr (0, s')"
  shows "reaches S d (point hp p (Some (M_header_value, a)) s)
    (point (hp\<lparr>hp_index := i, hp_content_length := L, hp_state := s_header_almost_done, hp_header_state := h,
       hp_nread := of_nat (Suc (n + length cs))\<rparr>) (Suc (p + length cs)) None s')"
proof -
  obtain ch more where ch: "drop p d = ch # more" using assms(1) by (cases cs) auto
  note counted_sum [of "Suc n" "length cs" "Suc (n + length cs)"]
  then have "step S d ch (point (hp\<lparr>hp_nread := of_nat (Suc n)\<rparr>) p (Some (M_header_value, a)) s)
      = Inr (Next (point (hp\<lparr>hp_index := i, hp_content_length := L, hp_state := s_header_almost_done, hp_header_state := h,
         hp_nread := of_nat (Suc (n + length cs))\<rparr>) (p + length cs) None s'))"
    using assms(2-4,6,7,8)
    by (simp add: step_def step_header_value_def assms(1) COUNT_HEADER_SIZE_def CALLBACK_DATA_def callback_data_def
        UPDATE_STATE_def set_header_state_def next_byte_def Let_def)
  from reaches_byte [OF ch _ assms(5) _ this] assms(2,6) show ?thesis by (simp add: PARSING_HEADER_def)
qed

lemma reaches_LF:
  assumes "drop p d = LF # rest" "hp_state hp = s_header_almost_done" "hp_nread hp = of_nat n" "n < HTTP_MAX_HEADER_SIZE"
  shows "reaches S d (point hp p None s) (point (hp\<lparr>hp_nread := of_nat (Suc n), hp_state := s_header_value_lws\<rparr>) (Suc p) None s)"
  using reaches_byte [OF assms(1) _ assms(3,4), of S None s "point (hp\<lparr>hp_nread := of_nat (Suc n), hp_state := s_header_value_lws\<rparr>) p None s"] assms(2)
  by (simp add: PARSING_HEADER_def step_def step_expect_LF_def UPDATE_STATE_def next_byte_def)

text \<open>The name of a field and its colon, then its value and the end of the line.\<close>

definition after_colon :: "http_method \<Rightarrow> flag set \<Rightarrow> 64 word \<Rightarrow> nat \<Rightarrow> header_states \<Rightarrow> nat \<Rightarrow> http_parser" where
  "after_colon m F L n h i = (head_parser m F L n)\<lparr>hp_header_state := h, hp_index := i, hp_state := s_header_value_discard_ws\<rparr>"

lemma reaches_field_name:
  assumes "drop p d = k @ CHR '':'' # rest" "between_fields m F L n hp"
    and "name_reads k F H F1" "n + length k + 1 \<le> HTTP_MAX_HEADER_SIZE"
    and "\<And>hp. on_data S M_header_field hp (drop p d) (length k) s = Inr (0, s1)"
  shows "\<exists>h\<in>H. \<exists>i. reaches S d (point hp p None s)
    (point (after_colon m F1 L (n + length k + 1) h i) (p + length k + 1) None s1)"
proof -
  obtain c cs where k: "k = c # cs" and c: "tokens c \<noteq> NUL" and loop: "\<And>q hp r. hp_header_state hp = first_header_state (tokens c)
      \<Longrightarrow> hp_index hp = 0 \<Longrightarrow> hp_flags hp = F \<Longrightarrow> \<exists>h\<in>H. \<exists>i. header_field_loop (cs @ CHR '':'' # r) q hp
          = Inr (Field_char CHR '':'', q + length cs, hp\<lparr>hp_header_state := h, hp_index := i, hp_flags := F1\<rparr>)"
    using assms(3) by (auto simp: name_reads_def split: list.splits)
  let ?hp1 = "(head_parser m F L (Suc n))\<lparr>hp_header_state := first_header_state (tokens c), hp_state := s_header_field\<rparr>"
  have d0: "drop p d = c # cs @ CHR '':'' # rest" using assms(1) k by simp
  have one: "reaches S d (point hp p None s) (point ?hp1 (Suc p) (Some (M_header_field, p)) s)"
    using assms(4) c by (intro reaches_first_letter [OF d0 assms(2)]) simp_all
  have d1: "drop (Suc p) d = cs @ CHR '':'' # rest" using drop_Cons [OF d0] by simp
  have "\<exists>h\<in>H. \<exists>i. reaches S d (point ?hp1 (Suc p) (Some (M_header_field, p)) s)
      (point (?hp1\<lparr>hp_header_state := h, hp_index := i, hp_flags := F1, hp_nread := of_nat (Suc (Suc n + length cs)),
        hp_state := s_header_value_discard_ws\<rparr>) (Suc (Suc p + length cs)) None s1)"
  proof (rule reaches_name [OF d1])
    show "on_data S M_header_field hp (drop p d) (Suc p + length cs - p) s = Inr (0, s1)" for hp
      using assms(5) by (simp add: k)
    show "\<exists>h\<in>H. \<exists>i. header_field_loop (cs @ CHR '':'' # rest) (Suc p) hp'
        = Inr (Field_char CHR '':'', Suc p + length cs, hp'\<lparr>hp_header_state := h, hp_index := i, hp_flags := F1\<rparr>)"
      if "hp_header_state hp' = hp_header_state ?hp1" "hp_index hp' = hp_index ?hp1" "hp_flags hp' = hp_flags ?hp1" for hp'
      using loop [of hp' rest "Suc p"] that by simp
  qed (use assms(4) k in simp_all)
  moreover have "?hp1\<lparr>hp_header_state := h, hp_index := i, hp_flags := F1, hp_nread := of_nat (Suc (Suc n + length cs)),
        hp_state := s_header_value_discard_ws\<rparr> = after_colon m F1 L (n + length k + 1) h i" for h i
    by (simp add: after_colon_def k) (simp add: head_parser_def)
  ultimately have "\<exists>h\<in>H. \<exists>i. reaches S d (point ?hp1 (Suc p) (Some (M_header_field, p)) s)
      (point (after_colon m F1 L (n + length k + 1) h i) (p + length k + 1) None s1)"
    by (simp add: k)
  then show ?thesis using reaches_trans [OF one] by blast
qed

lemma reaches_field_value:
  assumes "drop p d = CHR '' '' # v @ CR # LF # rest" "value_reads v h L h' L'" "n + length v + 3 \<le> HTTP_MAX_HEADER_SIZE"
    and "\<And>hp. on_data S M_header_value hp (drop (Suc p) d) (length v) s = Inr (0, s')"
  shows "\<exists>hp'. between_fields m (finished_flags h' F) L' (n + length v + 3) hp'
    \<and> reaches S d (point (after_colon m F L n h i) p None s) (point hp' (p + length v + 3) None s')"
proof -
  let ?hp2 = "after_colon m F L n h i"
  let ?hp3 = "?hp2\<lparr>hp_nread := of_nat (Suc n)\<rparr>"
  have three: "reaches S d (point ?hp2 p None s) (point ?hp3 (Suc p) None s)"
    using assms(3) by (intro reaches_space [OF assms(1)]) (simp_all add: after_colon_def)
  obtain e es h1 L1 where v: "v = e # es" and e: "e \<notin> {CHR '' '', HT, CR, LF}" and start: "value_start e h L = Some (h1, L1)"
    and vloop: "\<And>q hp r. \<not> hp_lenient hp \<Longrightarrow> hp_index hp = 0 \<Longrightarrow> hp_content_length hp = L1 \<Longrightarrow>
      \<exists>i. header_value_loop (es @ CR # r) q h1 hp = Inr (Value_CR, q + length es, h', hp\<lparr>hp_index := i, hp_content_length := L'\<rparr>)"
    using assms(2) by (elim value_readsE) blast
  have d3: "drop (Suc p) d = e # es @ CR # LF # rest" using drop_Cons [OF assms(1)] v by simp
  let ?hp4 = "?hp3\<lparr>hp_nread := of_nat (Suc (Suc n)), hp_state := s_header_value, hp_index := 0,
    hp_header_state := h1, hp_content_length := L1\<rparr>"
  let ?a = "Suc p"
  have four: "reaches S d (point ?hp3 ?a None s) (point ?hp4 (Suc ?a) (Some (M_header_value, ?a)) s)"
    using assms(3) v start by (intro reaches_value_start [OF d3 e]) (simp_all add: after_colon_def)
  have d4: "drop (Suc ?a) d = es @ CR # LF # rest" using drop_Cons [OF d3] by simp
  obtain j where vj: "header_value_loop (es @ CR # LF # rest) (Suc ?a) h1 (?hp4\<lparr>hp_nread := of_nat (Suc (Suc (Suc n)))\<rparr>)
      = Inr (Value_CR, Suc ?a + length es, h', ?hp4\<lparr>hp_nread := of_nat (Suc (Suc (Suc n))), hp_index := j, hp_content_length := L'\<rparr>)"
    using vloop [of "?hp4\<lparr>hp_nread := of_nat (Suc (Suc (Suc n)))\<rparr>" "LF # rest" "Suc ?a"] by (auto simp: after_colon_def)
  let ?hp5 = "?hp4\<lparr>hp_index := j, hp_content_length := L', hp_state := s_header_almost_done, hp_header_state := h',
       hp_nread := of_nat (Suc (Suc (Suc n) + length es))\<rparr>"
  have five: "reaches S d (point ?hp4 (Suc ?a) (Some (M_header_value, ?a)) s) (point ?hp5 (Suc (Suc ?a + length es)) None s')"
  proof (rule reaches_value_rest [OF d4 _ _ _ _ _ vj])
    show "on_data S M_header_value hp (drop ?a d) (Suc ?a + length es - ?a) s = Inr (0, s')" for hp
      using assms(4) v by simp
  qed (use assms(3) v in \<open>simp_all add: after_colon_def\<close>)
  have d5: "drop (Suc (Suc ?a + length es)) d = LF # rest"
    using drop_append_rest [of "Suc ?a" d "es @ [CR]" "LF # rest"] d4 by simp
  let ?hp6 = "?hp5\<lparr>hp_nread := of_nat (n + length v + 3), hp_state := s_header_value_lws\<rparr>"
  have six: "reaches S d (point ?hp5 (Suc (Suc ?a + length es)) None s') (point ?hp6 (p + length v + 3) None s')"
    using reaches_LF [OF d5, of ?hp5 "n + length v + 2" S s'] assms(3) v by (simp add: eval_nat_numeral)
  have "settled ?hp6 = (head_parser m (finished_flags h' F) L' (n + length v + 3))\<lparr>hp_header_state := h', hp_index := j\<rparr>"
    by (simp add: settled_def finish_header_flags) (simp add: after_colon_def head_parser_def http_parser_init_def)
  then have "between_fields m (finished_flags h' F) L' (n + length v + 3) ?hp6" by (auto simp: between_fields_def)
  moreover have "reaches S d (point ?hp2 p None s) (point ?hp6 (p + length v + 3) None s')"
    by (rule three [THEN reaches_trans, OF four [THEN reaches_trans, OF five [THEN reaches_trans, OF six]]])
  ultimately show ?thesis by blast
qed

text \<open>What a field says about the framing: from the flags \<open>F\<close> and the length \<open>L\<close> to \<open>F'\<close> and \<open>L'\<close>.\<close>

definition field_reads :: "string \<Rightarrow> string \<Rightarrow> flag set \<Rightarrow> 64 word \<Rightarrow> flag set \<Rightarrow> 64 word \<Rightarrow> bool" where
  "field_reads k v F L F' L' \<longleftrightarrow> (\<exists>H F1 h'. name_reads k F H F1 \<and> (\<forall>h\<in>H. value_reads v h L h' L') \<and> F' = finished_flags h' F1)"

lemma reaches_field:
  assumes "drop p d = k @ CHR '':'' # CHR '' '' # v @ CR # LF # rest" "between_fields m F L n hp"
    and "field_reads k v F L F' L'" "n + length k + length v + 4 \<le> HTTP_MAX_HEADER_SIZE"
    and "\<And>hp. on_data S M_header_field hp (drop p d) (length k) s = Inr (0, s1)"
    and "\<And>hp. on_data S M_header_value hp (drop (p + length k + 2) d) (length v) s1 = Inr (0, s2)"
  shows "\<exists>hp'. between_fields m F' L' (n + length k + length v + 4) hp'
    \<and> reaches S d (point hp p None s) (point hp' (p + length k + length v + 4) None s2)"
proof -
  obtain H F1 h' where name: "name_reads k F H F1" and val: "\<forall>h\<in>H. value_reads v h L h' L'" and F': "F' = finished_flags h' F1"
    using assms(3) by (auto simp: field_reads_def)
  let ?q = "p + length k + 1" and ?n = "n + length k + 1"
  have "?n \<le> HTTP_MAX_HEADER_SIZE" using assms(4) by simp
  from reaches_field_name [OF assms(1,2) name this assms(5)] obtain h i where h: "h \<in> H"
    and one: "reaches S d (point hp p None s) (point (after_colon m F1 L ?n h i) ?q None s1)" by blast
  have d: "drop ?q d = CHR '' '' # v @ CR # LF # rest"
    using drop_append_rest [of p d "k @ '':''" "CHR '' '' # v @ CR # LF # rest"] assms(1) by simp
  have fits: "?n + length v + 3 \<le> HTTP_MAX_HEADER_SIZE" using assms(4) by simp
  have cb: "on_data S M_header_value hp (drop (Suc ?q) d) (length v) s1 = Inr (0, s2)" for hp
    using assms(6) by (simp add: eval_nat_numeral)
  from reaches_field_value [OF d bspec [OF val h] fits cb, of m F1 i] obtain hp' where
    hp': "between_fields m F' L' (?n + length v + 3) hp'"
    and two: "reaches S d (point (after_colon m F1 L ?n h i) ?q None s1) (point hp' (?q + length v + 3) None s2)"
    unfolding F' by blast
  have ends: "?n + length v + 3 = n + length k + length v + 4" "?q + length v + 3 = p + length k + length v + 4" by simp_all
  show ?thesis using hp' reaches_trans [OF one two] unfolding ends by blast
qed

text \<open>The fields that a message of this library has.\<close>

lemma ordinary_field_reads: "ordinary_name k \<Longrightarrow> plain_value v \<Longrightarrow> field_reads k v F L F L"
  unfolding field_reads_def
  by (intro exI [of _ plain_states] exI [of _ F] exI [of _ h_general])
    (simp add: ordinary_name_reads plain_value_reads finished_flags_def)

lemma connection_field_reads:
  "field_reads ''connection'' ''keep-alive'' F L (insert F_CONNECTION_KEEP_ALIVE F) L"
  "field_reads ''connection'' ''close'' F L (insert F_CONNECTION_CLOSE F) L"
  using connection_reads [of F] connection_values_read [of L] by (force simp: field_reads_def finished_flags_def)+

lemma transfer_encoding_field_reads:
  "field_reads ''transfer-encoding'' ''chunked'' F L (insert F_CHUNKED F) L"
  "field_reads ''transfer-encoding'' ''Chunked'' F L (insert F_CHUNKED F) L"
  using transfer_encoding_reads [of F] transfer_encoding_value_reads [of L] by (force simp: field_reads_def finished_flags_def)+

lemma content_length_field_reads:
  "F_CONTENTLENGTH \<notin> F \<Longrightarrow> n \<le> 10 ^ 18 \<Longrightarrow> field_reads ''content-length'' (to_dec n) F L (insert F_CONTENTLENGTH F) (of_nat n)"
  using content_length_reads [of F] content_length_value_reads [of n L] by (force simp: field_reads_def finished_flags_def)

end
