(* ===== verification/Request_Body.thy ===== *)
theory Request_Body
  imports Request_Fields
begin

text \<open>
  How the parser reads the end of a head and what follows it: nothing, a body of a known length,
  or chunks.
\<close>

section \<open>The end of the head\<close>

definition headed :: "http_method \<Rightarrow> flag set \<Rightarrow> 64 word \<Rightarrow> http_parser \<Rightarrow> bool" where
  "headed m F L hp \<longleftrightarrow> hp_type hp = HTTP_REQUEST \<and> hp_flags hp = F \<and> hp_content_length hp = L \<and> hp_method hp = m
     \<and> hp_http_major hp = 1 \<and> hp_http_minor hp = 1 \<and> hp_errno hp = HPE_OK \<and> \<not> hp_upgrade hp"

text \<open>Flags of a message that is read as it is: no upgrade, not in its trailer, one framing.\<close>

definition plain_flags :: "flag set \<Rightarrow> bool" where
  "plain_flags F \<longleftrightarrow> F_UPGRADE \<notin> F \<and> F_TRAILING \<notin> F \<and> F_SKIPBODY \<notin> F \<and> \<not> (F_CHUNKED \<in> F \<and> F_CONTENTLENGTH \<in> F)"

lemma reaches_empty_line:
  assumes "drop p d = CR # LF # rest" "between_fields m F L n hp" "n + 2 \<le> HTTP_MAX_HEADER_SIZE" "plain_flags F" "m \<noteq> HTTP_CONNECT"
    and "\<And>hp. headed m F L hp \<Longrightarrow> on_headers_complete S hp s = Inr (0, s')"
    and "\<And>hp. headed m F L hp \<Longrightarrow> hp_state hp = s_headers_done \<Longrightarrow>
      \<exists>y. step_headers_done S LF (point hp (Suc p) None s') = Inr (Next y) \<and> reaches S d (y\<lparr>ex_p := Suc (ex_p y)\<rparr>) z"
  shows "reaches S d (point hp p None s) z"
proof -
  obtain h i where "step S d CR (point (hp\<lparr>hp_nread := of_nat (Suc n)\<rparr>) p None s)
      = step_header_field_start S CR (point ((head_parser m F L (Suc n))\<lparr>hp_header_state := h, hp_index := i\<rparr>) p None s)"
    using step_between [OF assms(2), of CR S d p s] by auto
  also let ?hp1 = "(head_parser m F L (Suc n))\<lparr>hp_header_state := h, hp_index := i, hp_state := s_headers_almost_done\<rparr>"
  have "step_header_field_start S CR (point ((head_parser m F L (Suc n))\<lparr>hp_header_state := h, hp_index := i\<rparr>) p None s)
      = Inr (Next (point ?hp1 p None s))"
    by (simp add: step_header_field_start_def UPDATE_STATE_def next_byte_def)
  finally have step: "step S d CR (point (hp\<lparr>hp_nread := of_nat (Suc n)\<rparr>) p None s) = Inr (Next (point ?hp1 p None s))" .
  have "PARSING_HEADER (hp_state hp)" using assms(2) by (auto simp: between_fields_def PARSING_HEADER_def)
  from reaches_byte [OF assms(1) this between_nread [OF assms(2)] _ step] assms(3)
  have one: "reaches S d (point hp p None s) (point ?hp1 (Suc p) None s)" by simp
  let ?hp2 = "?hp1\<lparr>hp_nread := of_nat (Suc (Suc n)), hp_state := s_headers_done, hp_upgrade := False\<rparr>"
  have head: "headed m F L ?hp2" by (simp add: headed_def)
  have "step S d LF (point (?hp1\<lparr>hp_nread := of_nat (Suc (Suc n))\<rparr>) (Suc p) None s) = step_headers_done S LF (point ?hp2 (Suc p) None s')"
    using assms(4,5) assms(6) [OF head]
    by (auto simp: step_def step_headers_almost_done_def STRICT_CHECK_def plain_flags_def UPDATE_STATE_def set_upgrade_def Let_def)
  then obtain y where "step S d LF (point (?hp1\<lparr>hp_nread := of_nat (Suc (Suc n))\<rparr>) (Suc p) None s) = Inr (Next y)"
    "reaches S d (y\<lparr>ex_p := Suc (ex_p y)\<rparr>) z" using assms(7) [OF head] by auto
  moreover have "drop (Suc p) d = LF # rest" using drop_Cons [OF assms(1)] by simp
  ultimately have "reaches S d (point ?hp1 (Suc p) None s) z"
    using reaches_byte [of "Suc p" d LF rest ?hp1 "Suc n" S None s y] assms(3)
    by (auto simp: PARSING_HEADER_def intro: reaches_trans)
  with one show ?thesis by (rule reaches_trans)
qed

lemma reaches_no_body:
  assumes "drop p d = CR # LF # rest" "between_fields m F L n hp" "n + 2 \<le> HTTP_MAX_HEADER_SIZE" "plain_flags F" "m \<noteq> HTTP_CONNECT"
    and "\<And>hp. headed m F L hp \<Longrightarrow> on_headers_complete S hp s = Inr (0, s')"
    and "F_CHUNKED \<notin> F" "L = 0 \<or> L = ULLONG_MAX"
    and "\<And>hp. on_message_complete S hp s' = Inr (0, hp', s'')" "hp_errno hp' = HPE_OK"
  shows "reaches S d (point hp p None s) (point hp' (p + 2) None s'')"
proof (rule reaches_empty_line [OF assms(1-6)])
  fix hp assume "headed m F L hp" "hp_state hp = s_headers_done"
  then have "step_headers_done S LF (point hp (Suc p) None s') = Inr (Next (point hp' (Suc p) None s''))"
    using assms(4,7-10)
    by (auto simp: headed_def plain_flags_def step_headers_done_def STRICT_CHECK_def reset_nread_def message_without_body_def
        callback_message_complete_def UPDATE_STATE_def next_byte_def http_message_needs_eof_def Let_def)
  then show "\<exists>y. step_headers_done S LF (point hp (Suc p) None s') = Inr (Next y)
      \<and> reaches S d (y\<lparr>ex_p := Suc (ex_p y)\<rparr>) (point hp' (p + 2) None s'')" by auto
qed

lemma unat_length: "length b \<le> 10 ^ 18 \<Longrightarrow> unat (of_nat (length b) :: 64 word) = length b"
  by (simp add: unat_of_nat take_bit_nat_eq_self)

lemma length_words:
  assumes "b \<noteq> []" "length b \<le> 10 ^ 18"
  shows "(of_nat (length b) :: 64 word) \<noteq> 0" "(of_nat (length b) :: 64 word) \<noteq> ULLONG_MAX"
proof -
  show "(of_nat (length b) :: 64 word) \<noteq> 0" using unat_length [OF assms(2)] assms(1) by (auto simp: unat_eq_zero)
  have "unat (ULLONG_MAX :: 64 word) = 18446744073709551615" by (simp add: unsigned_minus_1_eq_mask mask_eq_exp_minus_1)
  then show "(of_nat (length b) :: 64 word) \<noteq> ULLONG_MAX" using unat_length [OF assms(2)] assms(2) by auto
qed

lemma reaches_sized_body:
  assumes "drop p d = CR # LF # b @ rest" "between_fields m F L n hp" "n + 2 \<le> HTTP_MAX_HEADER_SIZE" "plain_flags F" "m \<noteq> HTTP_CONNECT"
    and "\<And>hp. headed m F L hp \<Longrightarrow> on_headers_complete S hp s = Inr (0, s1)"
    and "F_CHUNKED \<notin> F" "L = of_nat (length b)" "b \<noteq> []" "length b \<le> 10 ^ 18"
    and "\<And>hp. on_data S M_body hp (drop (p + 2) d) (length b) s1 = Inr (0, s2)"
    and "\<And>hp. on_message_complete S hp s2 = Inr (0, hp', s3)" "hp_errno hp' = HPE_OK" "\<not> hp_upgrade hp'"
  shows "reaches S d (point hp p None s) (point hp' (p + 2 + length b) None s3)"
proof (rule reaches_empty_line [OF assms(1-6)])
  fix hp assume hp: "headed m F L hp" "hp_state hp = s_headers_done"
  have unat: "unat (of_nat (length b) :: 64 word) = length b"
    using assms(10) by (rule unat_length)
  then have L: "L \<noteq> 0" "unat L = length b" and L': "L \<noteq> ULLONG_MAX"
    using assms(8) length_words [OF assms(9,10)] by simp_all
  let ?hp = "hp\<lparr>hp_nread := 0, hp_state := s_body_identity\<rparr>"
  have step: "step_headers_done S LF (point hp (Suc p) None s1) = Inr (Next (point ?hp (Suc p) None s1))"
    using hp assms(4,7) L(1) L'
    by (auto simp: headed_def plain_flags_def step_headers_done_def STRICT_CHECK_def reset_nread_def UPDATE_STATE_def
        next_byte_def Let_def)
  have d: "drop (p + 2) d = b @ rest" using drop_append_rest [of p d "[CR, LF]" "b @ rest"] assms(1) by simp
  then have len: "length b \<le> length d - (p + 2)" by (metis length_append length_drop le_add1)
  obtain ch more where ch: "drop (p + 2) d = ch # more" using d assms(9) by (cases b) auto
  have "step S d ch (point ?hp (p + 2) None s1) = Inr (Next (point hp' (p + 1 + length b) None s3))"
    using hp(1) L L' len assms(8,9,11-14) unat
    by (simp add: headed_def step_def step_body_identity_def body_to_read_def consume_body_def callback_data_def
        step_message_done_def callback_message_complete_def UPDATE_STATE_def next_byte_def Let_def min_def)
  from reaches_body [OF ch _ this] have "reaches S d (point ?hp (p + 2) None s1) (point hp' (p + 2 + length b) None s3)"
    by (simp add: PARSING_HEADER_def)
  then show "\<exists>y. step_headers_done S LF (point hp (Suc p) None s1) = Inr (Next y)
      \<and> reaches S d (y\<lparr>ex_p := Suc (ex_p y)\<rparr>) (point hp' (p + 2 + length b) None s3)" using step by auto
qed

section \<open>Chunks\<close>

definition chunking :: "http_method \<Rightarrow> flag set \<Rightarrow> http_parser \<Rightarrow> bool" where
  "chunking m F hp \<longleftrightarrow> headed m F (hp_content_length hp) hp \<and> hp_state hp = s_chunk_size_start \<and> hp_nread hp = 0"

lemma reaches_chunks_start:
  assumes "drop p d = CR # LF # rest" "between_fields m F L n hp" "n + 2 \<le> HTTP_MAX_HEADER_SIZE" "plain_flags F" "m \<noteq> HTTP_CONNECT"
    and "\<And>hp. headed m F L hp \<Longrightarrow> on_headers_complete S hp s = Inr (0, s')"
    and "F_CHUNKED \<in> F" "\<And>hp'. chunking m F hp' \<Longrightarrow> reaches S d (point hp' (p + 2) None s') z"
  shows "reaches S d (point hp p None s) z"
proof (rule reaches_empty_line [OF assms(1-6)])
  fix hp assume hp: "headed m F L hp" "hp_state hp = s_headers_done"
  let ?hp = "hp\<lparr>hp_nread := 0, hp_state := s_chunk_size_start\<rparr>"
  have "step_headers_done S LF (point hp (Suc p) None s') = Inr (Next (point ?hp (Suc p) None s'))"
    using hp assms(4,7)
    by (auto simp: headed_def plain_flags_def step_headers_done_def STRICT_CHECK_def reset_nread_def UPDATE_STATE_def
        next_byte_def Let_def)
  moreover have "chunking m F ?hp" using hp(1) by (simp add: chunking_def headed_def)
  ultimately show "\<exists>y. step_headers_done S LF (point hp (Suc p) None s') = Inr (Next y)
      \<and> reaches S d (y\<lparr>ex_p := Suc (ex_p y)\<rparr>) z"
    using assms(8) [of ?hp] by auto
qed

lemma hex_digit:
  assumes "is_digit_of 16 c"
  obtains v where "digit_val c = Some v" "v < 16" "unhex c = int v" "unhex c \<noteq> - 1" "c \<noteq> CR"
proof -
  have "\<not> is_digit_of 16 CR" by code_simp
  moreover have "\<exists>v. digit_val c = Some v \<and> v < 16 \<and> unhex c = int v"
    using assms by (auto simp: is_digit_of_def digit_val_def unhex_def IS_NUM_def split: if_splits)
  ultimately show ?thesis using assms that by fastforce
qed

lemma length_to_base: "n < b ^ k \<Longrightarrow> 0 < k \<Longrightarrow> 2 \<le> b \<Longrightarrow> length (to_base b n) \<le> k"
proof (induction k arbitrary: n)
  case (Suc k)
  show ?case
  proof (cases "n < b")
    case False
    then have "k \<noteq> 0" using Suc.prems(1) by (intro notI) simp
    moreover have "n div b < b ^ k" using Suc.prems by (simp add: less_mult_imp_div_less mult.commute)
    ultimately show ?thesis using Suc.IH [of "n div b"] Suc.prems(3) False by (simp add: to_base.simps [of b n])
  qed (simp add: to_base.simps [of b n])
qed simp

lemma chunk_limit: "(ULLONG_MAX - 16) div 16 = (1152921504606846974 :: 64 word)"
  by code_simp

lemma read_hex_mono: "read_base 16 a ds = Some n \<Longrightarrow> a \<le> n"
proof (induction ds arbitrary: a)
  case (Cons c cs)
  then show ?case by (auto split: option.splits if_splits) (metis add_leD1 le_trans mult_le_mono2 mult.right_neutral one_le_numeral)
qed simp

lemma reaches_hex:
  assumes "drop p d = ds @ rest" "list_all (is_digit_of 16) ds" "read_base 16 a ds = Some k" "k \<le> 10 ^ 18"
    and "hp_state hp = s_chunk_size" "hp_content_length hp = of_nat a" "F_CHUNKED \<in> hp_flags hp"
    and "hp_nread hp = of_nat n" "n + length ds \<le> HTTP_MAX_HEADER_SIZE"
  shows "reaches S d (point hp p None s)
    (point (hp\<lparr>hp_nread := of_nat (n + length ds), hp_content_length := of_nat k\<rparr>) (p + length ds) None s)"
  using assms
proof (induction ds arbitrary: p hp n a)
  case Nil
  then show ?case by (cases hp) simp
next
  case (Cons c cs)
  obtain v where v: "digit_val c = Some v" "v < 16" "unhex c = int v" "unhex c \<noteq> - 1" "c \<noteq> CR"
    using Cons.prems(2) hex_digit [of c] by auto
  have rest: "read_base 16 (a * 16 + v) cs = Some k" using Cons.prems(3) v(1,2) by simp
  let ?hp = "hp\<lparr>hp_nread := of_nat (Suc n), hp_content_length := of_nat (a * 16 + v)\<rparr>"
  have "a * 16 \<le> 10 ^ 18" using read_hex_mono [OF rest] Cons.prems(4) by simp
  then have limit: "\<not> (ULLONG_MAX - 16) div 16 < (of_nat a :: 64 word)"
    by (simp add: chunk_limit word_less_nat_alt unat_of_nat take_bit_nat_eq_self)
  have "step S d c (point (hp\<lparr>hp_nread := of_nat (Suc n)\<rparr>) p None s) = Inr (Next (point ?hp p None s))"
    using Cons.prems(5-7) v(3-5) limit
    by (simp add: step_def step_chunk_size_def is_chunked_def set_content_length_def next_byte_def of_nat_add)
  then have "reaches S d (point hp p None s) (point ?hp (Suc p) None s)"
    using reaches_byte [of p d c "cs @ rest" hp n S None s] Cons.prems by (simp add: PARSING_HEADER_def)
  also have "reaches S d (point ?hp (Suc p) None s) (point (?hp\<lparr>hp_nread := of_nat (Suc n + length cs), hp_content_length := of_nat k\<rparr>)
      (Suc p + length cs) None s)"
    using Cons.prems rest drop_Cons [of p d c "cs @ rest"] by (intro Cons.IH) simp_all
  finally show ?case by simp
qed

text \<open>The line with the size of a chunk, up to its line feed.\<close>

lemma reaches_chunk_size:
  assumes "drop p d = to_hex k @ CR # LF # rest" "k \<le> 10 ^ 18" "chunking m F hp" "F_CHUNKED \<in> F"
  shows "reaches S d (point hp p None s) (point (hp\<lparr>hp_state := s_chunk_size_almost_done, hp_content_length := of_nat k,
    hp_nread := of_nat (Suc (length (to_hex k)))\<rparr>) (p + Suc (length (to_hex k))) None s)"
proof -
  obtain c cs where ds: "to_hex k = c # cs" by (cases "to_hex k") (auto simp: to_hex_def)
  have all: "list_all (is_digit_of 16) (to_hex k)" by simp
  then have c: "is_digit_of 16 c" and cs: "list_all (is_digit_of 16) cs" by (simp_all add: ds del: digits_to_hex)
  obtain v where v: "digit_val c = Some v" "v < 16" "unhex c = int v" "unhex c \<noteq> - 1" "c \<noteq> CR"
    using hex_digit [OF c] .
  have read: "read_base 16 v cs = Some k" using read_to_hex [of k] v(1,2) by (simp add: ds del: read_to_hex)
  have "length (to_hex k) \<le> 15" using length_to_base [of k 16 15] assms(2) by (simp add: to_hex_def)
  then have small: "Suc (length (to_hex k)) \<le> HTTP_MAX_HEADER_SIZE" by (simp add: HTTP_MAX_HEADER_SIZE_def)
  have hp: "hp_state hp = s_chunk_size_start" "hp_nread hp = of_nat 0" "F_CHUNKED \<in> hp_flags hp"
    using assms(3,4) by (auto simp: chunking_def headed_def)
  let ?hp1 = "hp\<lparr>hp_nread := of_nat (Suc 0), hp_content_length := of_nat v, hp_state := s_chunk_size\<rparr>"
  have d0: "drop p d = c # cs @ CR # LF # rest" using assms(1) ds by simp
  have "reaches S d (point hp p None s) (point ?hp1 (Suc p) None s)"
    using reaches_byte [OF d0, of hp 0 S None s "point ?hp1 p None s"] hp v small
    by (simp add: PARSING_HEADER_def step_def step_chunk_size_start_def is_chunked_def set_content_length_def
        UPDATE_STATE_def next_byte_def of_nat_Suc)
  also have d1: "drop (Suc p) d = cs @ CR # LF # rest" using drop_Cons [OF d0] by simp
  have "reaches S d (point ?hp1 (Suc p) None s)
      (point (?hp1\<lparr>hp_nread := of_nat (Suc 0 + length cs), hp_content_length := of_nat k\<rparr>) (Suc p + length cs) None s)"
    using hp small ds by (intro reaches_hex [OF d1 cs read assms(2)]) simp_all
  also let ?hp2 = "?hp1\<lparr>hp_nread := of_nat (Suc 0 + length cs), hp_content_length := of_nat k\<rparr>"
  have d2: "drop (Suc p + length cs) d = CR # LF # rest" using drop_append_rest [OF d1] .
  let ?hp3 = "hp\<lparr>hp_state := s_chunk_size_almost_done, hp_content_length := of_nat k, hp_nread := of_nat (Suc (length (to_hex k)))\<rparr>"
  have "reaches S d (point ?hp2 (Suc p + length cs) None s) (point ?hp3 (p + Suc (length (to_hex k))) None s)"
    using reaches_byte [OF d2, of ?hp2 "Suc (length cs)" S None s "point ?hp3 (Suc p + length cs) None s"] hp small ds
    by (cases hp) (simp add: PARSING_HEADER_def step_def step_chunk_size_def is_chunked_def UPDATE_STATE_def next_byte_def)
  finally show ?thesis .
qed

text \<open>
  The callbacks that mark the chunks do nothing before the message is done; a chunk with bytes is
  handed over, and the parser is ready for the next one.
\<close>

lemma reaches_chunk_data:
  assumes "drop p d = b @ CR # LF # rest" "b \<noteq> []" "length b \<le> 10 ^ 18" "F_CHUNKED \<in> hp_flags hp" "hp_errno hp = HPE_OK"
    and "hp_state hp = s_chunk_data" "hp_content_length hp = of_nat (length b)"
    and "\<And>hp. on_data S M_body hp (drop p d) (length b) s = Inr (0, s')"
    and "\<And>hp. hp_state hp \<noteq> s_message_done \<Longrightarrow> on_chunk_complete S hp s' = Inr (0, s')"
  shows "reaches S d (point hp p None s) (point (hp\<lparr>hp_content_length := 0, hp_nread := 0, hp_state := s_chunk_size_start\<rparr>)
    (p + length b + 2) None s')"
proof -
  have len: "length b \<le> length d - p" by (metis assms(1) length_append length_drop le_add1)
  let ?hp1 = "hp\<lparr>hp_content_length := 0, hp_state := s_chunk_data_almost_done\<rparr>"
  obtain ch more where ch: "drop p d = ch # more" using assms(1,2) by (cases b) auto
  have "step S d ch (point hp p None s) = Inr (Next (point ?hp1 (p + length b - 1) (Some (M_body, p)) s))"
    using assms(4,6,7) unat_length [OF assms(3)] length_words [OF assms(2,3)] len
    by (simp add: step_def step_chunk_data_def is_chunked_def body_to_read_def consume_body_def UPDATE_STATE_def
        next_byte_def Let_def min_def)
  moreover have "Suc (p + length b - 1) = p + length b" using assms(2) by (cases b) simp_all
  ultimately have one: "reaches S d (point hp p None s) (point ?hp1 (p + length b) (Some (M_body, p)) s)"
    using reaches_body [OF ch, of hp S None s] assms(6) by (simp add: PARSING_HEADER_def)
  have d1: "drop (p + length b) d = CR # LF # rest" using drop_append_rest [OF assms(1)] .
  let ?hp2 = "hp\<lparr>hp_content_length := 0, hp_state := s_chunk_data_done\<rparr>"
  have two: "reaches S d (point ?hp1 (p + length b) (Some (M_body, p)) s) (point ?hp2 (Suc (p + length b)) None s')"
    using reaches_body [OF d1, of ?hp1 S "Some (M_body, p)" s "point ?hp2 (p + length b) None s'"] assms(4,5,8)
    by (simp add: PARSING_HEADER_def step_def step_chunk_data_almost_done_def is_chunked_def STRICT_CHECK_def CALLBACK_DATA_def
        callback_data_def UPDATE_STATE_def next_byte_def)
  have d2: "drop (Suc (p + length b)) d = LF # rest" using drop_Cons [OF d1] by simp
  let ?hp3 = "hp\<lparr>hp_content_length := 0, hp_nread := 0, hp_state := s_chunk_size_start\<rparr>"
  have "reaches S d (point ?hp2 (Suc (p + length b)) None s') (point ?hp3 (p + length b + 2) None s')"
    using reaches_body [OF d2, of ?hp2 S None s' "point ?hp3 (Suc (p + length b)) None s'"] assms(4,5,9)
    by (simp add: PARSING_HEADER_def step_def step_chunk_data_done_def is_chunked_def STRICT_CHECK_def reset_nread_def
        callback_notify_def UPDATE_STATE_def next_byte_def)
  with one two show ?thesis by (blast intro: reaches_trans)
qed

lemma reaches_chunk:
  assumes "drop p d = to_hex (length b) @ CR # LF # b @ CR # LF # rest" "b \<noteq> []" "length b \<le> 10 ^ 18" "chunking m F hp" "F_CHUNKED \<in> F"
    and "\<And>hp. on_data S M_body hp (drop (p + length (to_hex (length b)) + 2) d) (length b) s = Inr (0, s')"
    and "\<And>hp. hp_state hp \<noteq> s_message_done \<Longrightarrow> on_chunk_header S hp s = Inr (0, s)"
    and "\<And>hp. hp_state hp \<noteq> s_message_done \<Longrightarrow> on_chunk_complete S hp s' = Inr (0, s')"
  shows "\<exists>hp'. chunking m F hp' \<and> reaches S d (point hp p None s) (point hp' (p + length (to_hex (length b)) + 2 + length b + 2) None s')"
proof -
  let ?k = "length (to_hex (length b))"
  have hp: "hp_flags hp = F" "hp_errno hp = HPE_OK" using assms(4) by (simp_all add: chunking_def headed_def)
  let ?hp1 = "hp\<lparr>hp_state := s_chunk_size_almost_done, hp_content_length := of_nat (length b), hp_nread := of_nat (Suc ?k)\<rparr>"
  have one: "reaches S d (point hp p None s) (point ?hp1 (p + Suc ?k) None s)"
    by (rule reaches_chunk_size [OF assms(1,3,4,5)])
  have d1: "drop (p + Suc ?k) d = LF # b @ CR # LF # rest"
    using drop_append_rest [of p d "to_hex (length b) @ [CR]" "LF # b @ CR # LF # rest"] assms(1) by simp
  have "length (to_hex (length b)) \<le> 15" using length_to_base [of "length b" 16 15] assms(3) by (simp add: to_hex_def)
  then have small: "Suc (Suc ?k) \<le> HTTP_MAX_HEADER_SIZE" by (simp add: HTTP_MAX_HEADER_SIZE_def)
  let ?hp2 = "hp\<lparr>hp_content_length := of_nat (length b), hp_nread := 0, hp_state := s_chunk_data\<rparr>"
  have two: "reaches S d (point ?hp1 (p + Suc ?k) None s) (point ?hp2 (p + ?k + 2) None s)"
    using reaches_byte [OF d1, of ?hp1 "Suc ?k" S None s "point ?hp2 (p + Suc ?k) None s"] assms(5,7) hp small
      length_words [OF assms(2,3)]
    by (simp add: PARSING_HEADER_def step_def step_chunk_size_almost_done_def is_chunked_def STRICT_CHECK_def reset_nread_def
        callback_notify_def UPDATE_STATE_def next_byte_def Let_def)
  have d2: "drop (p + ?k + 2) d = b @ CR # LF # rest" using drop_Cons [OF d1] by simp
  let ?hp3 = "?hp2\<lparr>hp_content_length := 0, hp_nread := 0, hp_state := s_chunk_size_start\<rparr>"
  have "reaches S d (point ?hp2 (p + ?k + 2) None s) (point ?hp3 (p + ?k + 2 + length b + 2) None s')"
    using assms(5,6,8) hp by (intro reaches_chunk_data [OF d2 assms(2,3)]) simp_all
  moreover have "chunking m F ?hp3" using assms(4) by (simp add: chunking_def headed_def)
  ultimately show ?thesis using one two by (blast intro: reaches_trans)
qed

text \<open>The last chunk, without trailers.\<close>

lemma reaches_last_chunk:
  assumes "drop p d = CHR ''0'' # CR # LF # CR # LF # rest" "chunking m F hp" "F_CHUNKED \<in> F" "m \<noteq> HTTP_CONNECT"
    and "\<And>hp. hp_state hp \<noteq> s_message_done \<Longrightarrow> on_chunk_header S hp s = Inr (0, s)"
    and "\<And>hp. hp_state hp = s_message_done \<Longrightarrow> on_chunk_complete S hp s = Inr (0, s')"
    and "\<And>hp. on_message_complete S hp s' = Inr (0, hp', s'')" "hp_errno hp' = HPE_OK" "\<not> hp_upgrade hp'"
  shows "reaches S d (point hp p None s) (point hp' (p + 5) None s'')"
proof -
  have zero: "to_hex 0 = ''0''" by code_simp
  have hp: "hp_flags hp = F" "hp_errno hp = HPE_OK" using assms(2) by (simp_all add: chunking_def headed_def)
  let ?hp1 = "hp\<lparr>hp_state := s_chunk_size_almost_done, hp_content_length := 0, hp_nread := of_nat 2\<rparr>"
  have one: "reaches S d (point hp p None s) (point ?hp1 (p + 2) None s)"
    using reaches_chunk_size [of p d 0 "CR # LF # rest" m F hp S s] assms(1-3) zero by (simp add: numeral_2_eq_2)
  have d1: "drop (p + 2) d = LF # CR # LF # rest"
    using drop_append_rest [of p d "[CHR ''0'', CR]" "LF # CR # LF # rest"] assms(1) by simp
  let ?hp2 = "hp\<lparr>hp_content_length := 0, hp_nread := of_nat 0, hp_flags := insert F_TRAILING F, hp_state := s_header_field_start\<rparr>"
  have two: "reaches S d (point ?hp1 (p + 2) None s) (point ?hp2 (Suc (p + 2)) None s)"
    using reaches_byte [OF d1, of ?hp1 2 S None s "point ?hp2 (p + 2) None s"] assms(3,5) hp
    by (simp add: PARSING_HEADER_def step_def step_chunk_size_almost_done_def is_chunked_def STRICT_CHECK_def reset_nread_def
        callback_notify_def UPDATE_STATE_def add_flag_def next_byte_def Let_def HTTP_MAX_HEADER_SIZE_def)
  have d2: "drop (Suc (p + 2)) d = CR # LF # rest" using drop_Cons [OF d1] by simp
  let ?hp3 = "?hp2\<lparr>hp_nread := of_nat (Suc 0), hp_state := s_headers_almost_done\<rparr>"
  have three: "reaches S d (point ?hp2 (Suc (p + 2)) None s) (point ?hp3 (Suc (Suc (p + 2))) None s)"
    using reaches_byte [OF d2, of ?hp2 0 S None s "point ?hp3 (Suc (p + 2)) None s"]
    by (simp add: PARSING_HEADER_def step_def step_header_field_start_def UPDATE_STATE_def next_byte_def HTTP_MAX_HEADER_SIZE_def)
  have d3: "drop (Suc (Suc (p + 2))) d = LF # rest" using drop_Cons [OF d2] by simp
  have "reaches S d (point ?hp3 (Suc (Suc (p + 2))) None s) (point hp' (Suc (Suc (Suc (p + 2)))) None s'')"
    using reaches_byte [OF d3, of ?hp3 "Suc 0" S None s "point hp' (Suc (Suc (p + 2))) None s''"] hp assms(6-9)
    by (simp add: PARSING_HEADER_def step_def step_headers_almost_done_def STRICT_CHECK_def callback_notify_def
        step_message_done_def callback_message_complete_def UPDATE_STATE_def next_byte_def Let_def HTTP_MAX_HEADER_SIZE_def)
  with one two three have "reaches S d (point hp p None s) (point hp' (Suc (Suc (Suc (p + 2)))) None s'')"
    by (blast intro: reaches_trans)
  then show ?thesis by (simp add: numeral_eq_Suc)
qed

declare of_nat_add [simp] of_nat_Suc [simp]

end
