(* ===== verification/Codec_Properties.thy ===== *)
theory Codec_Properties
  imports Http1_Properties Parser_Run
begin

text \<open>
  What the decoding half of the codec does with the messages of a connection: the fields a URL
  gets, whole and in pieces, and the messages that end the process.
\<close>

section \<open>URLs\<close>

lemma on_url_result:
  assumes "url_inv c" "ci_data c" "cc_get C w = Decoded_request r"
    and "length (ci_urline c @ take n at) \<le> max_uri_len"
  shows "\<exists>c' w'. codec_on_url C at n (c, w) = Inr (0, (c', w'))"
proof -
  obtain ok u where u: "http_parser_parse_url at n (ci_connected c) (ci_url c) = Inr (ok, u)"
    "\<forall>f. unat (uf_off (pu_field_data u f)) \<le> length (ci_urline c @ take n at)"
    using url_inv_parse [OF assms(1,4), of "ci_connected c"] by blast
  obtain r' where "set_url (ci_urline c @ take n at) u r = Inr r'"
    using set_url_ok u(2) by blast
  then show ?thesis using u(1) assms(2-4)
    by (cases ok) (auto simp: codec_on_url_def on_message_def Let_def not_less [symmetric])
qed

lemma url_part_range:
  assumes "n \<le> length s" "n < 2 ^ 16" "k < 2 ^ 16" "pu_field_data u f = \<lparr>uf_off = of_nat n, uf_len = of_nat k\<rparr>"
  shows "url_part s u f = Inr (take k (drop n s))"
  using assms by (simp add: url_part_def substr_def)

lemma target_fields_other:
  "f \<notin> {UF_PATH, UF_QUERY, UF_FRAGMENT} \<Longrightarrow> pu_field_data (target_fields path query fragment u) f = pu_field_data u f"
  "query = [] \<Longrightarrow> pu_field_data (target_fields path query fragment u) UF_QUERY = pu_field_data u UF_QUERY"
  "fragment = [] \<Longrightarrow> pu_field_data (target_fields path query fragment u) UF_FRAGMENT = pu_field_data u UF_FRAGMENT"
  by (auto simp: target_fields_def Let_def new_field_def set_bit_of_def set_len_def set_off_def)

definition with_target :: "string \<Rightarrow> string \<Rightarrow> string \<Rightarrow> http_request \<Rightarrow> http_request" where
  "with_target path query fragment r = r\<lparr>rq_schema := [], rq_urihost := [], rq_port := [], rq_path := path,
     rq_query := query, rq_fragment := fragment, rq_userinfo := []\<rparr>"

lemma set_url_target:
  assumes "length (target_text path query fragment) < 2 ^ 16"
  shows "set_url (target_text path query fragment) (target_fields path query fragment (cleared_url http_parser_url_init)) r
    = Inr (with_target path query fragment r)"
proof -
  let ?t = "target_text path query fragment"
  let ?u = "target_fields path query fragment (cleared_url http_parser_url_init)"
  have zero: "pu_field_data (cleared_url http_parser_url_init) f = \<lparr>uf_off = of_nat 0, uf_len = of_nat 0\<rparr>" for f
    by (simp add: cleared_url_def http_parser_url_init_def)
  have none: "url_part ?t ?u f = Inr []" if "pu_field_data ?u f = pu_field_data (cleared_url http_parser_url_init) f" for f
    using url_part_range [of 0 ?t 0 ?u f] that by (simp add: zero)
  have "url_part ?t ?u UF_PATH = Inr path"
    using url_part_range [of 0 ?t "length path" ?u UF_PATH] assms
    by (simp add: target_fields_ranges) (simp add: target_text_def)
  moreover have "url_part ?t ?u UF_QUERY = Inr query"
  proof (cases "query = []")
    case False
    then show ?thesis
      using url_part_range [of "Suc (length path)" ?t "length query" ?u UF_QUERY] assms
      by (simp add: target_fields_ranges del: of_nat_Suc) (simp add: target_text_def)
  next
    case True
    then show ?thesis using none [OF target_fields_other(2) [OF True]] by simp
  qed
  moreover have "url_part ?t ?u UF_FRAGMENT = Inr fragment"
  proof (cases "fragment = []")
    case False
    then show ?thesis
      using url_part_range [of "Suc (length path + (if query \<noteq> [] then Suc (length query) else 0))" ?t
          "length fragment" ?u UF_FRAGMENT] assms
      by (cases "query = []") (simp_all add: target_fields_ranges target_text_def del: of_nat_Suc of_nat_add)
  next
    case True
    then show ?thesis using none [OF target_fields_other(3) [OF True]] by simp
  qed
  ultimately show ?thesis
    by (simp add: set_url_def none target_fields_other with_target_def)
qed

text \<open>
  The target of a request that is read in one piece is split correctly: the request gets
  exactly its path, query and fragment, and no other part.
\<close>

lemma target_decoded:
  assumes "target_ok path query fragment" "path \<noteq> []" "length (target_text path query fragment) \<le> max_uri_len"
    and "ci_urline c = []" "ci_url c = http_parser_url_init" "\<not> ci_connected c" "ci_data c"
    and "cc_get C w = Decoded_request r"
  shows "\<exists>c'. codec_on_url C (target_text path query fragment @ rest) (length (target_text path query fragment)) (c, w)
    = Inr (0, (c', cc_put C (Decoded_request (with_target path query fragment r)) w))"
  using assms parse_target(1) [OF assms(1,2), of rest http_parser_url_init] set_url_target [of path query fragment r]
  by (simp add: codec_on_url_def Let_def on_message_def max_uri_len_def)

text \<open>A request object and its place, as a client of their own.\<close>

definition object_client :: "decoded_message codec_client" where
  "object_client = \<lparr>cc_get = id, cc_put = (\<lambda>m _. m), cc_begin = (\<lambda>w. Inr (True, w)), cc_headers = Inr,
     cc_body = (\<lambda>b. Inr), cc_trailer = (\<lambda>k v. Inr), cc_complete = Inr, cc_error = (\<lambda>e w. Inr (True, w))\<rparr>"

lemma target_decoded_witness:
  "\<exists>c'. codec_on_url object_client (''/a?x'' @ '' HTTP/1.1'') (length ''/a?x'')
      (codec_impl_new\<lparr>ci_data := True\<rparr>, Decoded_request default_request)
    = Inr (0, (c', Decoded_request (with_target ''/a'' ''x'' [] default_request)))"
proof -
  have ok: "target_ok ''/a'' ''x'' []" by code_simp
  have t: "target_text ''/a'' ''x'' [] = ''/a?x''" by (simp add: target_text_def)
  show ?thesis
    using target_decoded [OF ok, of "codec_impl_new\<lparr>ci_data := True\<rparr>" object_client
        "Decoded_request default_request" default_request "'' HTTP/1.1''", unfolded t]
    by (simp add: object_client_def codec_impl_new_def codec_reset_def max_uri_len_def)
qed

text \<open>
  A URL that arrives in two pieces loses its second one.  The first piece is taken as the whole
  target; the second is read as the address of a \<open>CONNECT\<close> request, does not parse, and is
  dropped without an error: the request is handled with the path cut where the network cut it.
\<close>

theorem split_url_truncated:
  assumes "target_ok path [] []" "path \<noteq> []" "target_ok path' query fragment" "path' \<noteq> []" "hd path' = CHR ''/''"
    and "length path + length (target_text path' query fragment) \<le> max_uri_len"
    and "ci_urline c = []" "ci_url c = http_parser_url_init" "\<not> ci_connected c" "ci_data c"
    and "cc_get C w = Decoded_request r" "\<And>m v. cc_get C (cc_put C m v) = m"
  shows "\<exists>c' c'' w'. codec_on_url C path (length path) (c, w) = Inr (0, (c', w'))
    \<and> codec_on_url C (target_text path' query fragment @ rest) (length (target_text path' query fragment)) (c', w')
        = Inr (0, (c'', w'))
    \<and> ci_urline c'' = path @ target_text path' query fragment
    \<and> cc_get C w' = Decoded_request (with_target path [] [] r)"
proof -
  let ?t = "target_text path' query fragment"
  let ?w = "cc_put C (Decoded_request (with_target path [] [] r)) w"
  have one: "target_text path [] [] = path" by (simp add: target_text_def)
  have small: "length path \<le> max_uri_len" using assms(6) by simp
  note first = parse_target(1) [OF assms(1,2), of "[]" http_parser_url_init, unfolded one]
  have set: "set_url path (target_fields path [] [] (cleared_url http_parser_url_init)) r
      = Inr (with_target path [] [] r)"
    using set_url_target [of path "[]" "[]" r] small by (simp add: one max_uri_len_def)
  define c' where "c' = c\<lparr>ci_urline := path, ci_connected := True,
    ci_url := target_fields path [] [] (cleared_url http_parser_url_init)\<rparr>"
  have "codec_on_url C path (length path) (c, w) = Inr (0, (c', ?w))"
    using assms(7-11) first set small by (simp add: codec_on_url_def Let_def on_message_def c'_def)
  moreover obtain u where "http_parser_parse_url (?t @ rest) (length ?t) True (ci_url c') = Inr (False, u)"
    using parse_target(2) [OF assms(3,4,5), of rest "ci_url c'"] by blast
  then have "codec_on_url C (?t @ rest) (length ?t) (c', ?w)
      = Inr (0, (c'\<lparr>ci_urline := path @ ?t, ci_url := u\<rparr>, ?w))"
    using assms(6,12) by (simp add: codec_on_url_def Let_def c'_def)
  ultimately show ?thesis using assms(12) by fastforce
qed

lemma split_url_truncated_witness:
  "\<exists>c' c'' w'. codec_on_url object_client ''/account'' (length ''/account'') (codec_impl_new\<lparr>ci_data := True\<rparr>, Decoded_request default_request)
      = Inr (0, (c', w'))
    \<and> codec_on_url object_client (''/delete?id'' @ '' HTTP/1.1'') (length ''/delete?id'') (c', w') = Inr (0, (c'', w'))
    \<and> ci_urline c'' = ''/account/delete?id''
    \<and> w' = Decoded_request (with_target ''/account'' [] [] default_request)"
proof -
  have ok: "target_ok ''/account'' [] []" "target_ok ''/delete'' ''id'' []" by code_simp+
  have t: "target_text ''/delete'' ''id'' [] = ''/delete?id''" by (simp add: target_text_def)
  show ?thesis
    using split_url_truncated [OF ok(1) _ ok(2), of "codec_impl_new\<lparr>ci_data := True\<rparr>" object_client
        "Decoded_request default_request" default_request "'' HTTP/1.1''", unfolded t]
    by (simp add: object_client_def codec_impl_new_def codec_reset_def max_uri_len_def)
qed

section \<open>Messages that end the process\<close>

text \<open>The definitions that evaluate a byte of a message whose user state is not known.\<close>

lemmas byte_steps = step_def counted_def next_byte_def parser_updates STRICT_CHECK_def IS_NUM_def IS_ALPHA_def
  LOWER_def digit16_def PARSING_HEADER_def HTTP_MAX_HEADER_SIZE_def callback_notify_def codec_settings_def

lemmas status_line_steps = step_start_req_or_res_def step_res_or_resp_H_def step_res_constant_def
  step_res_first_http_major_def step_http_major_def step_first_http_minor_def step_res_http_minor_def
  minor_digit_def step_res_first_status_code_def step_res_status_code_def step_res_status_start_def
  step_res_status_def CALLBACK_DATA_def callback_data_def MARK_def initial_mark_def

lemma on_read_fault:
  assumes "hd_decoder w = http_decoder_new" "data \<noteq> []"
    and "runs (codec_settings (handler_client T)) data
      (start_execution (http_parser_init HTTP_BOTH) (codec_impl_new, w)) (Inl f)"
  shows "hd_on_read T data w = Inl f"
proof -
  let ?S = "codec_settings (handler_client T)"
  have "settings_ok (\<lambda>_. True) (codec_inv (\<lambda>v. conn_part v = conn_part w)) ?S"
    by (rule codec_settings_ok [OF handler_client_ok])
  moreover have "codec_inv (\<lambda>v. conn_part v = conn_part w) (codec_impl_new, w)"
    by (simp add: codec_impl_new_def)
  moreover have "hp_errno (http_parser_init HTTP_BOTH) = HPE_OK" by (simp add: http_parser_init_def)
  ultimately have "http_parser_execute ?S data (http_parser_init HTTP_BOTH) (codec_impl_new, w) = Inl f"
    using execute_runs [where U = "codec_inv (\<lambda>v. conn_part v = conn_part w)", OF _ _ parser_ok_init _ assms(2,3)]
    by simp
  then have "impl_decode (handler_client T) data (codec_impl_new, w) = Inl f"
    by (simp add: impl_decode_def codec_impl_new_def parser_after_reset)
  then show ?thesis using assms(1,2)
    by (cases data) (simp_all add: hd_on_read_def codec_decode_def decode_loop.simps http_decoder_new_def)
qed

definition ok_status_line :: string where
  "ok_status_line = ''HTTP/1.1 200 OK'' @ [CR, LF]"

lemma status_line_runs:
  assumes "\<And>hp. codec_on_message_begin C hp s = Inr (0, (c, w))" "ci_data c" "cc_get C w = Decoded_request r"
  shows "runs (codec_settings C) ok_status_line (start_execution (http_parser_init HTTP_BOTH) s) (Inl Assert_failed)"
  unfolding start_execution_def http_parser_init_def
  by ((rule runs_byte, simp add: ok_status_line_def, simp add: byte_steps, simp add: byte_steps,
      simp add: byte_steps status_line_steps assms, simp)+)
    (rule runs_byte_fault, simp add: ok_status_line_def, simp add: byte_steps, simp add: byte_steps,
      simp add: byte_steps status_line_steps codec_on_status_def on_message_def assms, simp)

lemma handler_begins:
  "codec_on_message_begin (handler_client T) hp (c, w) = Inr (0, (c\<lparr>ci_data := True\<rparr>, decoding_start T w))"
  by (simp add: codec_on_message_begin_def handler_client_def Let_def)



lemmas request_line_steps = step_start_req_def step_req_method_def method_start_def method_switch_def c_at_def
  step_req_spaces_before_url_def url_char_def parse_url_char_def step_req_schema_def step_req_url_def
  step_req_http_start_def step_req_first_http_major_def step_req_http_minor_def step_expect_LF_def
  step_header_field_start_def step_headers_almost_done_def set_upgrade_def

definition get_request :: string where
  "get_request = ''GET / HTTP/1.1'' @ [CR, LF, CR, LF]"

lemma request_line_runs:
  assumes "\<And>hp. codec_on_message_begin C hp s = Inr (0, (c, w))" "ci_data c" "cc_get C w = Decoded_response r"
    and "ci_urline c = []"
  shows "runs (codec_settings C) get_request (start_execution (http_parser_init HTTP_BOTH) s) (Inl Undefined_behaviour)"
  unfolding start_execution_def http_parser_init_def
  by ((rule runs_byte, simp add: get_request_def, simp add: byte_steps, simp add: byte_steps,
      simp add: byte_steps status_line_steps request_line_steps assms, simp)+)
    (rule runs_byte_fault, simp add: get_request_def, simp add: byte_steps, simp add: byte_steps,
      simp add: byte_steps status_line_steps request_line_steps codec_on_url_def max_uri_len_def assms, simp)

text \<open>
  A request read by a client, where a response is expected, is undefined behaviour: the URL is
  written through a pointer to a request that points to a response.
\<close>

theorem request_line_undefined_client:
  assumes "hd_decoder w = http_decoder_new"
  shows "hd_on_read (client_traits j) get_request w = Inl Undefined_behaviour"
proof (rule on_read_fault [OF assms])
  show "runs (codec_settings (handler_client (client_traits j))) get_request
      (start_execution (http_parser_init HTTP_BOTH) (codec_impl_new, w)) (Inl Undefined_behaviour)"
    by (rule request_line_runs [OF handler_begins, where r = "hd_current_decoded (decoding_start (client_traits j) w)"])
      (simp_all add: handler_client_def client_traits_def codec_impl_new_def codec_reset_def)
qed (simp add: get_request_def)

definition sample_client :: "(http_request, client_response, http_response) handler_http1" where
  "sample_client = handler_http1_new (default_response 0)"

lemma request_line_undefined_client_witness:
  "hd_on_read (client_traits 0) get_request sample_client = Inl Undefined_behaviour"
  by (rule request_line_undefined_client)
    (simp add: sample_client_def handler_http1_new_def connector.defs handler_http1.defs)

definition http2_request :: string where
  "http2_request = ''GET / HTTP/2.0'' @ [CR, LF, CR, LF]"

lemma http2_request_runs:
  assumes "\<And>hp. codec_on_message_begin C hp s = Inr (0, (c, w))"
    and "codec_on_url C (drop (Suc (Suc (Suc (Suc 0)))) http2_request) (Suc 0) (c, w) = Inr (0, (c', w'))"
  shows "runs (codec_settings C) http2_request (start_execution (http_parser_init HTTP_BOTH) s) (Inl Assert_failed)"
  unfolding start_execution_def http_parser_init_def
  by ((rule runs_byte, simp add: http2_request_def, simp add: byte_steps, simp add: byte_steps,
      simp add: byte_steps status_line_steps request_line_steps assms, simp)+)
    (rule runs_byte_fault, simp add: http2_request_def, simp add: byte_steps, simp add: byte_steps,
      simp add: byte_steps status_line_steps request_line_steps codec_on_headers_complete_def, simp)

text \<open>
  A request of version 2.0 ends the server's process: the parser accepts any version up to
  999.999, and \<open>on_headers_complete\<close> asserts that the major version is 1.
\<close>

theorem http2_request_aborts_server:
  assumes "hd_decoder w = http_decoder_new"
  shows "hd_on_read (server_traits j) http2_request w = Inl Assert_failed"
proof (rule on_read_fault [OF assms])
  let ?C = "handler_client (server_traits j)"
  let ?c = "codec_impl_new\<lparr>ci_data := True\<rparr>" and ?w = "decoding_start (server_traits j) w"
  have "\<exists>c' w'. codec_on_url ?C (drop (Suc (Suc (Suc (Suc 0)))) http2_request) (Suc 0) (?c, ?w) = Inr (0, (c', w'))"
    by (rule on_url_result [where r = "hd_current_decoded ?w"])
      (simp_all add: codec_impl_new_def codec_reset_def url_inv_def http_parser_url_init_def handler_client_def
        server_traits_def max_uri_len_def http2_request_def)
  then obtain c' w' where "codec_on_url ?C (drop (Suc (Suc (Suc (Suc 0)))) http2_request) (Suc 0) (?c, ?w) = Inr (0, (c', w'))"
    by blast
  then show "runs (codec_settings ?C) http2_request
      (start_execution (http_parser_init HTTP_BOTH) (codec_impl_new, w)) (Inl Assert_failed)"
    by (rule http2_request_runs [OF handler_begins])
qed (simp add: http2_request_def)

lemma http2_request_aborts_server_witness:
  "hd_on_read (server_traits 0) http2_request sample_connection = Inl Assert_failed"
  by (rule http2_request_aborts_server)
    (simp add: sample_connection_def handler_http1_new_def connector.defs handler_http1.defs)

end
