(* ===== verification/Request_Decoding.thy ===== *)
theory Request_Decoding
  imports Request_Body Codec_Properties
begin

text \<open>
  What a codec makes of a request that is read in one piece: its callbacks, in order, with the
  message object the fields lead to.  The owner of the codec is a locale, of which the HTTP/1
  handler of a server is an instance.
\<close>

section \<open>The text of a request and what it says\<close>

text \<open>
  The framing that the fields announce, from no flag and no content length on; \<open>None\<close> for a
  field that this theory says nothing about.
\<close>

type_synonym framing = "flag set \<times> 64 word"

definition field_framing :: "string \<times> string \<Rightarrow> framing \<Rightarrow> framing option" where
  "field_framing = (\<lambda>(k, v) (F, L).
    if k = hf_connection
    then (if v = hv_keepalive then Some (insert F_CONNECTION_KEEP_ALIVE F, L)
          else if v = hv_connection_close then Some (insert F_CONNECTION_CLOSE F, L) else None)
    else if k = hf_transfer_encoding
    then (if v = hv_chunked \<or> v = ''chunked'' then Some (insert F_CHUNKED F, L) else None)
    else if k = hf_content_len
    then (case read_base 10 0 v of None \<Rightarrow> None | Some n \<Rightarrow>
            if v = to_dec n \<and> n \<le> 10 ^ 18 \<and> F_CONTENTLENGTH \<notin> F then Some (insert F_CONTENTLENGTH F, of_nat n) else None)
    else if ordinary_name k \<and> plain_value v then Some (F, L) else None)"

fun fields_framing :: "(string \<times> string) list \<Rightarrow> framing \<Rightarrow> framing option" where
  "fields_framing [] x = Some x"
| "fields_framing (f # fs) x = (case field_framing f x of None \<Rightarrow> None | Some y \<Rightarrow> fields_framing fs y)"

definition fields_text :: "(string \<times> string) list \<Rightarrow> string" where
  "fields_text fs = concat (map (\<lambda>(k, v). k @ colon_space @ v @ crlf) fs)"

definition head_text :: "http_method \<Rightarrow> string \<Rightarrow> (string \<times> string) list \<Rightarrow> string" where
  "head_text m t fs = http_method_str m @ space @ t @ space @ version_text @ fields_text fs"

text \<open>A body in pieces, as it is and in chunks, and the pieces the other side gets.\<close>

definition content_text :: "bool \<Rightarrow> string list \<Rightarrow> string" where
  "content_text chunked ds =
    (if chunked then concat (map (\<lambda>b. if b = [] then [] else to_hex (length b) @ crlf @ b @ crlf) ds)
       @ transfer_chunked_termination @ crlf
     else concat ds)"

definition received_pieces :: "bool \<Rightarrow> string list \<Rightarrow> string list" where
  "received_pieces chunked ds =
    (if chunked then filter (\<lambda>b. b \<noteq> []) ds else if concat ds = [] then [] else [concat ds])"

text \<open>The framing fits the body.\<close>

definition framed :: "framing \<Rightarrow> string list \<Rightarrow> bool" where
  "framed = (\<lambda>(F, L) ds. list_all (\<lambda>b. length b \<le> 10 ^ 18) ds \<and>
     (if F_CHUNKED \<in> F then F_CONTENTLENGTH \<notin> F
      else length (concat ds) \<le> 10 ^ 18 \<and> (L = of_nat (length (concat ds)) \<or> L = ULLONG_MAX \<and> concat ds = [])))"

text \<open>
  The message object: the fields are entered one behind, since a field is complete only when the
  next one begins; the protocol is set before the last one, the method, the host and the
  persistence after it.
\<close>

fun pending_header :: "(string \<times> string) option \<Rightarrow> http_request \<Rightarrow> http_request result" where
  "pending_header None r = Inr r"
| "pending_header (Some f) r = header (fst f) (snd f) r"

fun enter_fields :: "(string \<times> string) option \<Rightarrow> (string \<times> string) list \<Rightarrow> http_request
    \<Rightarrow> ((string \<times> string) option \<times> http_request) result" where
  "enter_fields pend [] r = Inr (pend, r)"
| "enter_fields pend (f # fs) r = res_bind (pending_header pend r) (enter_fields (Some f) fs)"

definition finish_head :: "http_method \<Rightarrow> bool \<Rightarrow> (string \<times> string) option \<Rightarrow> http_request \<Rightarrow> http_request result" where
  "finish_head m keep pend r = res_bind (set_protocol HTTP11 r) (\<lambda>r. res_bind (pending_header pend r)
     (\<lambda>r. set_keepalive keep (host_from_header (r\<lparr>rq_method := m\<rparr>))))"

definition received_request ::
  "http_method \<Rightarrow> string \<times> string \<times> string \<Rightarrow> bool \<Rightarrow> (string \<times> string) list \<Rightarrow> http_request \<Rightarrow> http_request result" where
  "received_request m = (\<lambda>(path, query, fragment) keep fs r.
     res_bind (enter_fields None fs (with_target path query fragment r)) (\<lambda>(pend, r). finish_head m keep pend r))"

text \<open>The calls of the client's callbacks for one message.\<close>

fun deliver_pieces :: "'w codec_client \<Rightarrow> string list \<Rightarrow> 'w \<Rightarrow> 'w result" where
  "deliver_pieces C [] w = Inr w"
| "deliver_pieces C (b # bs) w = res_bind (cc_body C b w) (deliver_pieces C bs)"

definition deliver :: "'w codec_client \<Rightarrow> http_request \<Rightarrow> string list \<Rightarrow> 'w \<Rightarrow> 'w result" where
  "deliver C m bs w = res_bind (cc_begin C w) (\<lambda>(b, w).
     res_bind (cc_headers C (cc_put C (Decoded_request m) w)) (\<lambda>w.
       res_bind (deliver_pieces C bs w) (cc_complete C)))"

fun deliver_all :: "'w codec_client \<Rightarrow> (http_request \<times> string list) list \<Rightarrow> 'w \<Rightarrow> 'w result" where
  "deliver_all C [] w = Inr w"
| "deliver_all C (q # qs) w = res_bind (deliver C (fst q) (snd q) w) (deliver_all C qs)"

text \<open>A request on the wire: its method, target and fields, and the pieces of its body.\<close>

type_synonym wire_request = "http_method \<times> (string \<times> string \<times> string) \<times> (string \<times> string) list \<times> string list"

lemma wire_cases: "\<exists>m path query fragment fs ds. (q :: wire_request) = (m, (path, query, fragment), fs, ds)"
  by (cases q) auto

definition wire_flags :: "(string \<times> string) list \<Rightarrow> flag set" where
  "wire_flags fs = (case fields_framing fs ({}, ULLONG_MAX) of None \<Rightarrow> {} | Some x \<Rightarrow> fst x)"

definition wire_text :: "wire_request \<Rightarrow> string" where
  "wire_text = (\<lambda>(m, (path, query, fragment), fs, ds).
     head_text m (target_text path query fragment) fs @ crlf @ content_text (F_CHUNKED \<in> wire_flags fs) ds)"

definition wire_ok :: "wire_request \<Rightarrow> bool" where
  "wire_ok = (\<lambda>(m, (path, query, fragment), fs, ds). m \<noteq> END \<and> m \<noteq> HTTP_CONNECT \<and> target_ok path query fragment \<and> path \<noteq> []
     \<and> length (target_text path query fragment) \<le> max_uri_len
     \<and> length (head_text m (target_text path query fragment) fs) + 2 \<le> HTTP_MAX_HEADER_SIZE
     \<and> (case fields_framing fs ({}, ULLONG_MAX) of None \<Rightarrow> False | Some x \<Rightarrow> framed x ds))"

text \<open>The message and the pieces that a request on the wire is received as.\<close>

definition received_as :: "http_request \<Rightarrow> wire_request \<Rightarrow> http_request \<times> string list \<Rightarrow> bool" where
  "received_as fresh = (\<lambda>(m, target, fs, ds) (r, bs).
     received_request m target (F_CONNECTION_CLOSE \<notin> wire_flags fs) fs fresh = Inr r
     \<and> bs = received_pieces (F_CHUNKED \<in> wire_flags fs) ds)"

section \<open>Fields and framing\<close>

lemma field_framing_reads:
  assumes "field_framing (k, v) (F, L) = Some (F', L')"
  shows "field_reads k v F L F' L'"
  using assms connection_field_reads transfer_encoding_field_reads content_length_field_reads ordinary_field_reads
  by (auto simp: field_framing_def hf_connection_def hf_transfer_encoding_def hf_content_len_def hv_keepalive_def
      hv_connection_close_def hv_chunked_def split: if_splits option.splits)

lemma field_framing_flags:
  "field_framing f (F, L) = Some (F', L') \<Longrightarrow> F' \<subseteq> F \<union> {F_CONNECTION_KEEP_ALIVE, F_CONNECTION_CLOSE, F_CHUNKED, F_CONTENTLENGTH}"
  by (rule subsetI) (auto simp: field_framing_def split: if_splits option.splits prod.splits)

lemma fields_framing_flags:
  "fields_framing fs (F, L) = Some (F', L') \<Longrightarrow> F' \<subseteq> F \<union> {F_CONNECTION_KEEP_ALIVE, F_CONNECTION_CLOSE, F_CHUNKED, F_CONTENTLENGTH}"
proof (induction fs arbitrary: F L)
  case (Cons f fs)
  obtain F1 L1 where "field_framing f (F, L) = Some (F1, L1)" "fields_framing fs (F1, L1) = Some (F', L')"
    using Cons.prems by (auto split: option.splits)
  then show ?case using Cons.IH [of F1 L1] field_framing_flags [of f F L F1 L1] by blast
qed (simp, blast)

section \<open>The codec's states\<close>

definition idle_impl :: "proto_version \<Rightarrow> codec_impl" where
  "idle_impl v = codec_impl_new\<lparr>ci_version := v\<rparr>"

definition in_head :: "proto_version \<Rightarrow> string \<Rightarrow> http_parser_url \<Rightarrow> (string \<times> string) option \<Rightarrow> codec_impl" where
  "in_head v t u pend = (idle_impl v)\<lparr>ci_data := True, ci_connected := True, ci_urline := t, ci_url := u,
     ci_got_header := pend \<noteq> None, ci_key := (case pend of None \<Rightarrow> [] | Some f \<Rightarrow> fst f),
     ci_value := (case pend of None \<Rightarrow> [] | Some f \<Rightarrow> snd f)\<rparr>"

text \<open>After the head, with or without the note that the rest of the chunks is to be ignored.\<close>

definition after_head :: "string \<Rightarrow> http_parser_url \<Rightarrow> bool \<Rightarrow> codec_impl" where
  "after_head t u ign = (in_head HTTP11 t u None)\<lparr>ci_headers_completed := True, ci_ignore := ign\<rparr>"

lemmas codec_states = in_head_def idle_impl_def after_head_def codec_impl_new_def codec_reset_def

lemma idle_parser: "codec_reset (after_head t u ign) = idle_impl HTTP11" "ci_parser (idle_impl v) = http_parser_init HTTP_BOTH"
  by (simp_all add: codec_states)

section \<open>The client of a codec\<close>

text \<open>
  A client whose object is a request: what is put is what is got, a new message gets a fresh
  object while the client is ready, and it is ready again after a message.
\<close>

locale request_client =
  fixes C :: "'w codec_client" and ready :: "'w \<Rightarrow> bool" and fresh :: http_request
  assumes get_put: "cc_get C (cc_put C (Decoded_request r) w) = Decoded_request r"
    and put_put: "cc_put C (Decoded_request r) (cc_put C (Decoded_request r') w) = cc_put C (Decoded_request r) w"
    and begins: "ready w \<Longrightarrow> \<exists>w'. cc_begin C w = Inr (True, w') \<and> cc_get C w' = Decoded_request fresh"
    and fatal: "cc_error C e w = Inr (b, w') \<Longrightarrow> b"
    and delivers: "ready w \<Longrightarrow> \<exists>w'. deliver C m bs w = Inr w' \<and> ready w'"
begin

lemma on_field:
  assumes "pending_header pend r = Inr r'"
  shows "codec_on_header_field C buf n (in_head ver t u pend, cc_put C (Decoded_request r) w)
    = Inr (0, ((in_head ver t u None)\<lparr>ci_key := take n buf\<rparr>, cc_put C (Decoded_request r') w))"
  using assms
  by (cases pend)
    (auto simp: codec_on_header_field_def headers_done_def on_header_field_def process_current_header_def on_message_def
      get_put put_put codec_states)

lemma on_value:
  "codec_on_header_value buf n ((in_head ver t u None)\<lparr>ci_key := k\<rparr>, w) = Inr (0, (in_head ver t u (Some (k, take n buf)), w))"
  by (simp add: codec_on_header_value_def headers_done_def on_header_value_def codec_states)

text \<open>All the fields of a head, each entered when the next one begins.\<close>

lemma reaches_fields:
  assumes "drop p d = fields_text fs @ rest" "between_fields m F L n hp" "fields_framing fs (F, L) = Some (F', L')"
    and "n + length (fields_text fs) \<le> HTTP_MAX_HEADER_SIZE" "enter_fields pend fs r = Inr (pend', r')"
  shows "\<exists>hp'. between_fields m F' L' (n + length (fields_text fs)) hp'
    \<and> reaches (codec_settings C) d (point hp p None (in_head ver t u pend, cc_put C (Decoded_request r) w))
        (point hp' (p + length (fields_text fs)) None (in_head ver t u pend', cc_put C (Decoded_request r') w))"
  using assms
proof (induction fs arbitrary: p n hp F L pend r)
  case Nil
  then show ?case by (auto simp: fields_text_def)
next
  case (Cons f fs)
  obtain k v where f: "f = (k, v)" by (cases f)
  obtain F1 L1 where one: "field_framing (k, v) (F, L) = Some (F1, L1)" and more: "fields_framing fs (F1, L1) = Some (F', L')"
    using Cons.prems(3) f by (auto split: option.splits)
  obtain r1 where r1: "pending_header pend r = Inr r1" "enter_fields (Some f) fs r1 = Inr (pend', r')"
    using Cons.prems(5) by (auto simp: res_bind_eq_Inr)
  let ?len = "length k + length v + 4"
  have split: "fields_text (f # fs) = k @ colon_space @ v @ crlf @ fields_text fs" by (simp add: fields_text_def f)
  then have d: "drop p d = k @ CHR '':'' # CHR '' '' # v @ CR # LF # fields_text fs @ rest"
    using Cons.prems(1) by (simp add: colon_space_def crlf_def)
  have len: "length (fields_text (f # fs)) = ?len + length (fields_text fs)" by (simp add: split colon_space_def crlf_def)
  have dv: "drop (p + length k + 2) d = v @ CR # LF # fields_text fs @ rest"
    using drop_append_rest [of p d "k @ '': ''" "v @ CR # LF # fields_text fs @ rest"] d by simp
  let ?w1 = "((in_head ver t u None)\<lparr>ci_key := k\<rparr>, cc_put C (Decoded_request r1) w)"
  have "\<exists>hp'. between_fields m F1 L1 (n + length k + length v + 4) hp'
      \<and> reaches (codec_settings C) d (point hp p None (in_head ver t u pend, cc_put C (Decoded_request r) w))
          (point hp' (p + length k + length v + 4) None (in_head ver t u (Some f), cc_put C (Decoded_request r1) w))"
  proof (rule reaches_field [OF d Cons.prems(2) field_framing_reads [OF one]])
    show "on_data (codec_settings C) M_header_field hp (drop p d) (length k)
        (in_head ver t u pend, cc_put C (Decoded_request r) w) = Inr (0, ?w1)" for hp
      using on_field [OF r1(1), where buf = "drop p d" and n = "length k"] d by (simp add: codec_settings_def)
    show "on_data (codec_settings C) M_header_value hp (drop (p + length k + 2) d) (length v) ?w1
        = Inr (0, (in_head ver t u (Some f), cc_put C (Decoded_request r1) w))" for hp
      using on_value [where buf = "drop (p + length k + 2) d" and n = "length v" and k = k] dv f by (simp add: codec_settings_def)
  qed (use Cons.prems(4) len in simp)
  then obtain hp1 where hp1: "between_fields m F1 L1 (n + ?len) hp1"
    and first: "reaches (codec_settings C) d (point hp p None (in_head ver t u pend, cc_put C (Decoded_request r) w))
          (point hp1 (p + ?len) None (in_head ver t u (Some f), cc_put C (Decoded_request r1) w))"
    by (auto simp: add.assoc)
  have "drop (p + ?len) d = fields_text fs @ rest"
    using drop_append_rest [of p d "k @ CHR '':'' # CHR '' '' # v @ [CR, LF]" "fields_text fs @ rest"] d
    by (simp add: numeral_eq_Suc)
  from Cons.IH [OF this hp1 more _ r1(2)] Cons.prems(4) len
  obtain hp' where "between_fields m F' L' (n + ?len + length (fields_text fs)) hp'"
    "reaches (codec_settings C) d (point hp1 (p + ?len) None (in_head ver t u (Some f), cc_put C (Decoded_request r1) w))
        (point hp' (p + ?len + length (fields_text fs)) None (in_head ver t u pend', cc_put C (Decoded_request r') w))"
    by auto
  then show ?case using reaches_trans [OF first] len by (auto simp: add.assoc)
qed

text \<open>The start line; then the fields.\<close>

lemma reaches_head:
  assumes "drop p d = head_text m (target_text path query fragment) fs @ rest" "m \<noteq> END" "m \<noteq> HTTP_CONNECT"
    and "target_ok path query fragment" "path \<noteq> []" "length (target_text path query fragment) \<le> max_uri_len"
    and "length (head_text m (target_text path query fragment) fs) \<le> HTTP_MAX_HEADER_SIZE"
    and "fields_framing fs ({}, ULLONG_MAX) = Some (F, L)"
    and "enter_fields None fs (with_target path query fragment r) = Inr (pend, r')"
    and "cc_begin C w = Inr (True, w')" "cc_get C w' = Decoded_request r"
  shows "\<exists>hp t u. between_fields m F L (length (head_text m (target_text path query fragment) fs)) hp
    \<and> reaches (codec_settings C) d (point (http_parser_init HTTP_BOTH) p None (idle_impl v, w))
      (point hp (p + length (head_text m (target_text path query fragment) fs)) None (in_head v t u pend, cc_put C (Decoded_request r') w'))"
proof -
  let ?S = "codec_settings C" and ?t = "target_text path query fragment" and ?m = "http_method_str m"
  let ?c = "(idle_impl v)\<lparr>ci_data := True\<rparr>"
  have begins: "on_message_begin ?S hp (idle_impl v, w) = Inr (0, (?c, w'))" for hp
    using assms(10) by (simp add: codec_settings_def codec_on_message_begin_def Let_def codec_states)
  have d0: "drop p d = ?m @ CHR '' '' # ?t @ CHR '' '' # version_text @ fields_text fs @ rest"
    using assms(1) by (simp add: head_text_def space_def)
  have len: "length (head_text m ?t fs) = Suc (length ?m) + Suc (length ?t) + length version_text + length (fields_text fs)"
    by (simp add: head_text_def space_def)
  obtain i where one: "reaches ?S d (point (http_parser_init HTTP_BOTH) p None (idle_impl v, w))
      (point (request_parser m i s_req_spaces_before_url (Suc (length ?m))) (p + Suc (length ?m)) None (?c, w'))"
    using reaches_method_name [OF d0 assms(2) begins] by blast
  have d1: "drop (p + Suc (length ?m)) d = ?t @ CHR '' '' # version_text @ fields_text fs @ rest"
    using drop_append_rest [of p d "?m @ '' ''" "?t @ CHR '' '' # version_text @ fields_text fs @ rest"] d0 by simp
  let ?u = "target_fields path query fragment (cleared_url http_parser_url_init)"
  let ?w = "cc_put C (Decoded_request (with_target path query fragment r)) w'"
  have t: "target_ok path query fragment" "path \<noteq> []" "?t \<noteq> []" "length ?t < 2 ^ 16"
    using assms(4-6) by (auto simp: target_text_def max_uri_len_def)
  have url: "on_data ?S M_url hp (drop (p + Suc (length ?m)) d) (length ?t) (?c, w') = Inr (0, (in_head v ?t ?u None, ?w))" for hp
    unfolding d1 using assms(6,11) parse_target(1) [OF t(1,2), of "CHR '' '' # version_text @ fields_text fs @ rest" http_parser_url_init]
      set_url_target [OF t(4), of r]
    by (simp add: codec_settings_def codec_on_url_def Let_def on_message_def codec_states)
  let ?n = "Suc (length ?m) + Suc (length ?t)"
  have two: "reaches ?S d (point (request_parser m i s_req_spaces_before_url (Suc (length ?m))) (p + Suc (length ?m)) None (?c, w'))
      (point (request_parser m i s_req_http_start ?n) (p + Suc (length ?m) + Suc (length ?t)) None (in_head v ?t ?u None, ?w))"
    using assms(3,7) len target_reads [OF t(1,2)] by (intro reaches_target [OF d1 t(3) _ _ _ _ url]) simp_all
  have d2: "drop (p + Suc (length ?m) + Suc (length ?t)) d = version_text @ fields_text fs @ rest"
    using drop_append_rest [of "p + Suc (length ?m)" d "?t @ '' ''" "version_text @ fields_text fs @ rest"] d1 by simp
  let ?n' = "?n + length version_text"
  have three: "reaches ?S d
      (point (request_parser m i s_req_http_start ?n) (p + Suc (length ?m) + Suc (length ?t)) None (in_head v ?t ?u None, ?w))
      (point ((head_parser m {} ULLONG_MAX ?n')\<lparr>hp_index := i\<rparr>) (p + ?n') None (in_head v ?t ?u None, ?w))"
    using reaches_version [OF d2, of ?n ?S m i "(in_head v ?t ?u None, ?w)"] assms(7) len by (simp add: add.assoc)
  have d3: "drop (p + ?n') d = fields_text fs @ rest"
    using drop_append_rest [OF d2] by (simp add: add.assoc)
  have "?n' + length (fields_text fs) \<le> HTTP_MAX_HEADER_SIZE" using assms(7) len by simp
  from reaches_fields [OF d3 between_first assms(8) this assms(9), where ver = v and t = ?t and u = ?u and w = w']
  obtain hp where hp: "between_fields m F L (?n' + length (fields_text fs)) hp"
    and four: "reaches ?S d (point ((head_parser m {} ULLONG_MAX ?n')\<lparr>hp_index := i\<rparr>) (p + ?n') None (in_head v ?t ?u None, ?w))
      (point hp (p + ?n' + length (fields_text fs)) None (in_head v ?t ?u pend, cc_put C (Decoded_request r') w'))"
    by blast
  have "reaches ?S d (point (http_parser_init HTTP_BOTH) p None (idle_impl v, w))
      (point hp (p + ?n' + length (fields_text fs)) None (in_head v ?t ?u pend, cc_put C (Decoded_request r') w'))"
    by (rule one [THEN reaches_trans, OF two [THEN reaches_trans, OF three [THEN reaches_trans, OF four]]])
  then show ?thesis using hp unfolding len by (auto simp: add.assoc)
qed

text \<open>The end of the head: the object is finished and handed over.\<close>

lemma on_head_end:
  assumes "headed m F L hp" "v = UNSET \<or> v = HTTP11" "finish_head m (F_CONNECTION_CLOSE \<notin> F) pend r = Inr r'"
    and "cc_headers C (cc_put C (Decoded_request r') w) = Inr w'"
  shows "on_headers_complete (codec_settings C) hp (in_head v t u pend, cc_put C (Decoded_request r) w)
    = Inr (0, (after_head t u False, w'))"
proof -
  obtain r1 r2 where r: "set_protocol HTTP11 r = Inr r1" "pending_header pend r1 = Inr r2"
    "set_keepalive (F_CONNECTION_CLOSE \<notin> F) (host_from_header (r2\<lparr>rq_method := m\<rparr>)) = Inr r'"
    using assms(3) by (auto simp: finish_head_def res_bind_eq_Inr)
  have keep: "http_should_keep_alive hp = (F_CONNECTION_CLOSE \<notin> F)"
    using assms(1) by (simp add: headed_def http_should_keep_alive_def http_message_needs_eof_def)
  have head: "hp_http_major hp = 1" "hp_http_minor hp = 1" "hp_method hp = m" using assms(1) by (simp_all add: headed_def)
  have pending: "process_current_header C (in_head HTTP11 t u pend, cc_put C (Decoded_request r1) w)
      = Inr (in_head HTTP11 t u None, cc_put C (Decoded_request r2) w)"
    using r(2) by (cases pend) (simp_all add: process_current_header_def on_message_def get_put put_put codec_states)
  have version: "(if ci_version (in_head v t u pend) = UNSET
      then (in_head v t u pend)\<lparr>ci_version := (if hp_http_minor hp = 1 then HTTP11 else HTTP10)\<rparr> else in_head v t u pend)
    = in_head HTTP11 t u pend" using assms(2) head by (auto simp: codec_states)
  have data: "ci_data (in_head HTTP11 t u pend)" "ci_version (in_head HTTP11 t u pend) = HTTP11" for pend
    by (simp_all add: codec_states)
  show ?thesis
    unfolding codec_settings_def http_parser_settings.simps codec_on_headers_complete_def prod.case version Let_def
    using r(1,3) assms(4) head
    by (simp add: on_message_def get_put put_put data pending keep) (simp add: codec_states)
qed

lemma on_piece: "cc_body C (take n buf) w = Inr w' \<Longrightarrow>
  on_data (codec_settings C) M_body hp buf n (after_head t u False, w) = Inr (0, (after_head t u False, w'))"
  by (simp add: codec_settings_def codec_on_body_def codec_states)

lemma on_message_end: "cc_complete C w = Inr w' \<Longrightarrow>
  on_message_complete (codec_settings C) hp (after_head t u ign, w) = Inr (0, http_parser_init HTTP_BOTH, (idle_impl HTTP11, w'))"
  by (simp add: codec_settings_def codec_on_message_complete_def process_current_trailer_def idle_parser Let_def)
    (simp add: codec_states)

lemma on_chunk:
  "hp_state hp \<noteq> s_message_done \<Longrightarrow> on_chunk_header (codec_settings C) hp (after_head t u False, w) = Inr (0, (after_head t u False, w))"
  "hp_state hp \<noteq> s_message_done \<Longrightarrow> on_chunk_complete (codec_settings C) hp (after_head t u False, w) = Inr (0, (after_head t u False, w))"
  "hp_state hp = s_message_done \<Longrightarrow> on_chunk_complete (codec_settings C) hp (after_head t u False, w) = Inr (0, (after_head t u True, w))"
  by (simp_all add: codec_settings_def codec_on_chunk_def http_body_is_final_def after_head_def)

lemma reaches_pieces:
  assumes "drop p d = concat (map (\<lambda>b. if b = [] then [] else to_hex (length b) @ crlf @ b @ crlf) ds) @ rest"
    and "list_all (\<lambda>b. length b \<le> 10 ^ 18) ds" "chunking m F hp" "F_CHUNKED \<in> F"
    and "deliver_pieces C (filter (\<lambda>b. b \<noteq> []) ds) w = Inr w'"
  shows "\<exists>hp'. chunking m F hp' \<and> reaches (codec_settings C) d (point hp p None (after_head t u False, w))
    (point hp' (p + length (concat (map (\<lambda>b. if b = [] then [] else to_hex (length b) @ crlf @ b @ crlf) ds)))
      None (after_head t u False, w'))"
  using assms
proof (induction ds arbitrary: p hp w)
  case (Cons b ds)
  let ?chunks = "concat (map (\<lambda>b. if b = [] then [] else to_hex (length b) @ crlf @ b @ crlf) ds)"
  show ?case
  proof (cases "b = []")
    case False
    obtain w1 where w1: "cc_body C b w = Inr w1" "deliver_pieces C (filter (\<lambda>b. b \<noteq> []) ds) w1 = Inr w'"
      using Cons.prems(5) False by (auto simp: res_bind_eq_Inr)
    have d: "drop p d = to_hex (length b) @ CR # LF # b @ CR # LF # ?chunks @ rest"
      using Cons.prems(1) False by (simp add: crlf_def)
    let ?q = "p + length (to_hex (length b)) + 2"
    have db: "drop ?q d = b @ CR # LF # ?chunks @ rest"
      using drop_append_rest [of p d "to_hex (length b) @ [CR, LF]" "b @ CR # LF # ?chunks @ rest"] d by simp
    have "\<exists>hp'. chunking m F hp' \<and> reaches (codec_settings C) d (point hp p None (after_head t u False, w))
        (point hp' (?q + length b + 2) None (after_head t u False, w1))"
    proof (rule reaches_chunk [OF d False _ Cons.prems(3,4)])
      show "on_data (codec_settings C) M_body hp (drop ?q d) (length b) (after_head t u False, w)
          = Inr (0, (after_head t u False, w1))" for hp
        using w1(1) db by (intro on_piece) simp
    qed (use Cons.prems(2) on_chunk in simp_all)
    then obtain hp1 where hp1: "chunking m F hp1" and first: "reaches (codec_settings C) d
        (point hp p None (after_head t u False, w)) (point hp1 (?q + length b + 2) None (after_head t u False, w1))"
      by blast
    have "drop (?q + length b + 2) d = ?chunks @ rest"
      using drop_append_rest [of ?q d "b @ [CR, LF]" "?chunks @ rest"] db by (simp add: add.assoc)
    from Cons.IH [OF this _ hp1 Cons.prems(4) w1(2)] Cons.prems(2)
    obtain hp' where "chunking m F hp'" "reaches (codec_settings C) d (point hp1 (?q + length b + 2) None (after_head t u False, w1))
        (point hp' (?q + length b + 2 + length ?chunks) None (after_head t u False, w'))" by auto
    then show ?thesis using reaches_trans [OF first] False by (auto simp: crlf_def add.assoc)
  qed (use Cons in simp)
qed auto

text \<open>From the end of the fields to the end of a message in chunks.\<close>

lemma reaches_chunked_content:
  assumes d: "drop p d = CR # LF # content_text True ds @ rest"
    and hp: "between_fields m F L n hp" "n + 2 \<le> HTTP_MAX_HEADER_SIZE" "plain_flags F" "m \<noteq> HTTP_CONNECT"
    and headers: "\<And>hp. headed m F L hp \<Longrightarrow> on_headers_complete (codec_settings C) hp x = Inr (0, (after_head t u False, w2))"
    and chunked: "F_CHUNKED \<in> F" "framed (F, L) ds"
    and w3: "deliver_pieces C (received_pieces True ds) w2 = Inr w3" "cc_complete C w3 = Inr w'"
  shows "reaches (codec_settings C) d (point hp p None x)
    (point (http_parser_init HTTP_BOTH) (p + 2 + length (content_text True ds)) None (idle_impl HTTP11, w'))"
proof (rule reaches_chunks_start [OF d hp headers chunked(1)])
  let ?S = "codec_settings C" and ?init = "http_parser_init HTTP_BOTH"
  let ?chunks = "concat (map (\<lambda>b. if b = [] then [] else to_hex (length b) @ crlf @ b @ crlf) ds)"
  let ?z = "point ?init (p + 2 + length (content_text True ds)) None (idle_impl HTTP11, w')"
  fix hp' assume chunking: "chunking m F hp'"
  have init: "hp_errno ?init = HPE_OK" "\<not> hp_upgrade ?init" by (simp_all add: http_parser_init_def)
  have content: "content_text True ds = ?chunks @ ''0'' @ crlf @ crlf"
    by (simp add: content_text_def transfer_chunked_termination_def crlf_def)
  have dq: "drop (p + 2) d = ?chunks @ ''0'' @ crlf @ crlf @ rest"
    using drop_append_rest [of p d "[CR, LF]" "content_text True ds @ rest"] d content by simp
  have "list_all (\<lambda>b. length b \<le> 10 ^ 18) ds" using chunked(2) by (simp add: framed_def)
  moreover have "deliver_pieces C (filter (\<lambda>b. b \<noteq> []) ds) w2 = Inr w3" using w3(1) by (simp add: received_pieces_def)
  ultimately obtain hp2 where hp2: "chunking m F hp2" and pieces: "reaches ?S d (point hp' (p + 2) None (after_head t u False, w2))
      (point hp2 (p + 2 + length ?chunks) None (after_head t u False, w3))"
    using reaches_pieces [OF dq _ chunking chunked(1), where t = t and u = u] by blast
  have "drop (p + 2 + length ?chunks) d = CHR ''0'' # CR # LF # CR # LF # rest"
    using drop_append_rest [OF dq] by (simp add: crlf_def)
  from reaches_last_chunk [OF this hp2 chunked(1) hp(4) on_chunk(1) on_chunk(3) on_message_end [OF w3(2), of _ t u] init]
  have "reaches ?S d (point hp2 (p + 2 + length ?chunks) None (after_head t u False, w3)) ?z"
    using content by (simp add: crlf_def add.assoc numeral_eq_Suc)
  with pieces show "reaches ?S d (point hp' (p + 2) None (after_head t u False, w2)) ?z" by (rule reaches_trans)
qed

text \<open>The same for a body of known length, or none.\<close>

lemma reaches_sized_content:
  assumes d: "drop p d = CR # LF # content_text False ds @ rest"
    and hp: "between_fields m F L n hp" "n + 2 \<le> HTTP_MAX_HEADER_SIZE" "plain_flags F" "m \<noteq> HTTP_CONNECT"
    and headers: "\<And>hp. headed m F L hp \<Longrightarrow> on_headers_complete (codec_settings C) hp x = Inr (0, (after_head t u False, w2))"
    and sized: "F_CHUNKED \<notin> F" "framed (F, L) ds"
    and w3: "deliver_pieces C (received_pieces False ds) w2 = Inr w3" "cc_complete C w3 = Inr w'"
  shows "reaches (codec_settings C) d (point hp p None x)
    (point (http_parser_init HTTP_BOTH) (p + 2 + length (content_text False ds)) None (idle_impl HTTP11, w'))"
proof -
  let ?init = "http_parser_init HTTP_BOTH"
  have init: "hp_errno ?init = HPE_OK" "\<not> hp_upgrade ?init" by (simp_all add: http_parser_init_def)
  note ends = on_message_end [OF w3(2), of _ t u]
  have content: "content_text False ds = concat ds" by (simp add: content_text_def)
  have fit: "length (concat ds) \<le> 10 ^ 18" "L = of_nat (length (concat ds)) \<or> L = ULLONG_MAX \<and> concat ds = []"
    using sized by (auto simp: framed_def)
  show ?thesis
  proof (cases "concat ds = []")
    case True
    then have eq: "w3 = w2" using w3(1) by (simp add: received_pieces_def)
    have "L = 0 \<or> L = ULLONG_MAX" using fit(2) True by auto
    from reaches_no_body [OF d hp headers sized(1) this ends [unfolded eq] init(1)]
    show ?thesis using True content by (simp add: add.assoc del: concat_eq_Nil_conv)
  next
    case False
    have d': "drop p d = CR # LF # concat ds @ rest" using d content by simp
    have db: "drop (p + 2) d = concat ds @ rest"
      using drop_append_rest [of p d "[CR, LF]" "concat ds @ rest"] d' by simp
    have "received_pieces False ds = [concat ds]" using False by (simp add: received_pieces_def del: concat_eq_Nil_conv)
    then have "cc_body C (concat ds) w2 = Inr w3" using w3(1) by (auto simp: res_bind_eq_Inr)
    then have piece: "on_data (codec_settings C) M_body hp (drop (p + 2) d) (length (concat ds)) (after_head t u False, w2)
        = Inr (0, (after_head t u False, w3))" for hp
      using db by (intro on_piece) simp
    have "L = of_nat (length (concat ds))" using fit(2) False by blast
    from reaches_sized_body [OF d' hp headers sized(1) this False fit(1) piece ends init]
    show ?thesis using content by (simp add: add.assoc)
  qed
qed

text \<open>A whole request: one message for the client, and the codec idle again.\<close>

lemma reaches_request:
  assumes "drop p d = head_text m (target_text path query fragment) fs @ crlf @ content_text (F_CHUNKED \<in> F) ds @ rest"
    and "m \<noteq> END" "m \<noteq> HTTP_CONNECT" "target_ok path query fragment" "path \<noteq> []"
    and "length (target_text path query fragment) \<le> max_uri_len"
    and "length (head_text m (target_text path query fragment) fs) + 2 \<le> HTTP_MAX_HEADER_SIZE"
    and "fields_framing fs ({}, ULLONG_MAX) = Some (F, L)" "framed (F, L) ds"
    and "received_request m (path, query, fragment) (F_CONNECTION_CLOSE \<notin> F) fs fresh = Inr r"
    and "ready w" "v = UNSET \<or> v = HTTP11"
  shows "\<exists>w'. deliver C r (received_pieces (F_CHUNKED \<in> F) ds) w = Inr w' \<and> ready w'
    \<and> reaches (codec_settings C) d (point (http_parser_init HTTP_BOTH) p None (idle_impl v, w))
      (point (http_parser_init HTTP_BOTH) (p + length (head_text m (target_text path query fragment) fs @ crlf
        @ content_text (F_CHUNKED \<in> F) ds)) None (idle_impl HTTP11, w'))"
proof -
  let ?S = "codec_settings C" and ?head = "head_text m (target_text path query fragment) fs"
  let ?content = "content_text (F_CHUNKED \<in> F) ds" and ?init = "http_parser_init HTTP_BOTH"
  obtain w' where w': "deliver C r (received_pieces (F_CHUNKED \<in> F) ds) w = Inr w'" "ready w'"
    using delivers [OF assms(11)] by blast
  obtain w1 where w1: "cc_begin C w = Inr (True, w1)" "cc_get C w1 = Decoded_request fresh" using begins [OF assms(11)] by blast
  obtain w2 w3 where w2: "cc_headers C (cc_put C (Decoded_request r) w1) = Inr w2"
    and w3: "deliver_pieces C (received_pieces (F_CHUNKED \<in> F) ds) w2 = Inr w3" "cc_complete C w3 = Inr w'"
    using w'(1) w1(1) by (auto simp: deliver_def res_bind_eq_Inr)
  obtain pend r0 where r0: "enter_fields None fs (with_target path query fragment fresh) = Inr (pend, r0)"
    "finish_head m (F_CONNECTION_CLOSE \<notin> F) pend r0 = Inr r"
    using assms(10) by (auto simp: received_request_def res_bind_eq_Inr)
  have "length ?head \<le> HTTP_MAX_HEADER_SIZE" using assms(7) by simp
  from reaches_head [OF assms(1-6) this assms(8) r0(1) w1, where v = v]
  obtain hp t u where hp: "between_fields m F L (length ?head) hp"
    and one: "reaches ?S d (point ?init p None (idle_impl v, w))
      (point hp (p + length ?head) None (in_head v t u pend, cc_put C (Decoded_request r0) w1))"
    by blast
  have d: "drop (p + length ?head) d = CR # LF # ?content @ rest"
    using drop_append_rest [OF assms(1)] by (simp add: crlf_def)
  have plain: "plain_flags F"
    using fields_framing_flags [OF assms(8)] assms(9) by (auto simp: plain_flags_def framed_def)
  have headers: "on_headers_complete ?S hp (in_head v t u pend, cc_put C (Decoded_request r0) w1)
      = Inr (0, (after_head t u False, w2))" if "headed m F L hp" for hp
    using on_head_end [OF that assms(12) r0(2) w2] .
  have fits: "length ?head + 2 \<le> HTTP_MAX_HEADER_SIZE" by (rule assms(7))
  have "reaches ?S d (point hp (p + length ?head) None (in_head v t u pend, cc_put C (Decoded_request r0) w1))
      (point ?init (p + length ?head + 2 + length ?content) None (idle_impl HTTP11, w'))"
  proof (cases "F_CHUNKED \<in> F")
    case True
    then show ?thesis
      using reaches_chunked_content [OF _ hp fits plain assms(3) headers True assms(9) _ w3(2), of _ d rest] d w3(1) by simp
  next
    case False
    then show ?thesis
      using reaches_sized_content [OF _ hp fits plain assms(3) headers False assms(9) _ w3(2), of _ d rest] d w3(1) by simp
  qed
  then have "reaches ?S d (point hp (p + length ?head) None (in_head v t u pend, cc_put C (Decoded_request r0) w1))
      (point ?init (p + length (?head @ crlf @ ?content)) None (idle_impl HTTP11, w'))"
    by (simp add: crlf_def add.assoc)
  with one w' show ?thesis by (blast intro: reaches_trans)
qed

text \<open>Any number of requests, one after the other.\<close>

lemma reaches_requests:
  assumes "drop p d = concat (map wire_text qs) @ rest" "list_all wire_ok qs" "list_all2 (received_as fresh) qs ms"
    and "ready w" "v = UNSET \<or> v = HTTP11"
  shows "\<exists>w' v'. deliver_all C ms w = Inr w' \<and> ready w' \<and> (v' = UNSET \<or> v' = HTTP11)
    \<and> reaches (codec_settings C) d (point (http_parser_init HTTP_BOTH) p None (idle_impl v, w))
      (point (http_parser_init HTTP_BOTH) (p + length (concat (map wire_text qs))) None (idle_impl v', w'))"
  using assms(3,1,2,4,5)
proof (induction qs ms arbitrary: p w v rule: list_all2_induct)
  case Nil
  then show ?case by auto
next
  case (Cons q qs m ms)
  obtain meth path query fragment fs ds where q: "q = (meth, (path, query, fragment), fs, ds)" using wire_cases by blast
  obtain r bs where m: "m = (r, bs)" by (cases m)
  obtain F L where F: "fields_framing fs ({}, ULLONG_MAX) = Some (F, L)" "framed (F, L) ds"
    using Cons.prems(2) by (auto simp: q wire_ok_def split: option.splits)
  then have flags: "wire_flags fs = F" by (simp add: wire_flags_def)
  have ok: "meth \<noteq> END" "meth \<noteq> HTTP_CONNECT" "target_ok path query fragment" "path \<noteq> []"
    "length (target_text path query fragment) \<le> max_uri_len"
    "length (head_text meth (target_text path query fragment) fs) + 2 \<le> HTTP_MAX_HEADER_SIZE"
    using Cons.prems(2) by (simp_all add: q wire_ok_def)
  have d: "drop p d = head_text meth (target_text path query fragment) fs @ crlf @ content_text (F_CHUNKED \<in> F) ds
      @ concat (map wire_text qs) @ rest"
    using Cons.prems(1) by (simp add: q wire_text_def flags)
  have r: "received_request meth (path, query, fragment) (F_CONNECTION_CLOSE \<notin> F) fs fresh = Inr r"
    "bs = received_pieces (F_CHUNKED \<in> F) ds" using Cons.hyps(1) by (simp_all add: q m received_as_def flags)
  from reaches_request [OF d ok F r(1) Cons.prems(3,4)]
  obtain w1 where w1: "deliver C r bs w = Inr w1" "ready w1" and one: "reaches (codec_settings C) d
      (point (http_parser_init HTTP_BOTH) p None (idle_impl v, w))
      (point (http_parser_init HTTP_BOTH) (p + length (wire_text q)) None (idle_impl HTTP11, w1))"
    by (auto simp: r(2) q wire_text_def flags)
  have "drop (p + length (wire_text q)) d = concat (map wire_text qs) @ rest"
    using drop_append_rest [of p d "wire_text q" "concat (map wire_text qs) @ rest"] Cons.prems(1) by simp
  from Cons.IH [OF this _ w1(2), of HTTP11] Cons.prems(2)
  obtain w' v' where w': "deliver_all C ms w1 = Inr w'" "ready w'" "v' = UNSET \<or> v' = HTTP11"
    and more: "reaches (codec_settings C) d (point (http_parser_init HTTP_BOTH) (p + length (wire_text q)) None (idle_impl HTTP11, w1))
      (point (http_parser_init HTTP_BOTH) (p + length (wire_text q) + length (concat (map wire_text qs))) None (idle_impl v', w'))"
    by auto
  have "reaches (codec_settings C) d (point (http_parser_init HTTP_BOTH) p None (idle_impl v, w))
      (point (http_parser_init HTTP_BOTH) (p + length (concat (map wire_text (q # qs)))) None (idle_impl v', w'))"
    using reaches_trans [OF one more] by (simp add: add.assoc)
  moreover have "deliver_all C (m # ms) w = Inr w'" using w1(1) w'(1) by (simp add: m)
  ultimately show ?case using w'(2,3) by blast
qed

lemma safe: "settings_ok (\<lambda>_. True) (codec_inv (\<lambda>_. True)) (codec_settings C)"
  by (rule codec_settings_ok) (auto simp: client_ok_def yields_def dest: fatal split: sum.splits)

lemma decode_requests:
  assumes "list_all wire_ok qs" "list_all2 (received_as fresh) qs ms" "ready w" "v = UNSET \<or> v = HTTP11"
    and "de_impl dec = idle_impl v" "\<not> de_skip_next_header dec" "\<not> de_ignore_content_len dec"
  shows "\<exists>w' v'. deliver_all C ms w = Inr w' \<and> ready w' \<and> (v' = UNSET \<or> v' = HTTP11)
    \<and> codec_decode C (concat (map wire_text qs)) dec w = Inr (True, dec\<lparr>de_impl := idle_impl v'\<rparr>, w')"
proof -
  let ?d = "concat (map wire_text qs)" and ?init = "http_parser_init HTTP_BOTH" and ?S = "codec_settings C"
  have init: "hp_errno ?init = HPE_OK" "hp_state ?init = s_start_req_or_res" by (simp_all add: http_parser_init_def)
  have "drop 0 ?d = ?d @ []" by simp
  from reaches_requests [OF this assms(1-4)] obtain w' v' where w': "deliver_all C ms w = Inr w'" "ready w'" "v' = UNSET \<or> v' = HTTP11"
    and run: "reaches ?S ?d (point ?init 0 None (idle_impl v, w)) (point ?init (length ?d) None (idle_impl v', w'))"
    by auto
  show ?thesis
  proof (cases "?d = []")
    case True
    have "qs = []"
    proof (cases qs)
      case (Cons q qs')
      obtain m path query fragment fs ds where "q = (m, (path, query, fragment), fs, ds)" using wire_cases by blast
      then show ?thesis using True Cons by (simp add: wire_text_def head_text_def space_def)
    qed simp
    then have "ms = []" using assms(2) by simp
    moreover have "dec\<lparr>de_impl := idle_impl v\<rparr> = dec" using assms(5) by simp
    ultimately show ?thesis using assms(3,4) \<open>qs = []\<close> by (auto simp: codec_decode_def decode_loop.simps)
  next
    case False
    have "finish_data ?S ?d (point ?init (length ?d) None (idle_impl v', w'))
        = Inr (Return (length ?d) (point ?init (length ?d) None (idle_impl v', w')))"
      using init(1) by (simp add: finish_data_def marks_set_def CALLBACK_DATA_NOADVANCE_def callback_data_def)
    then have "runs ?S ?d (start_execution ?init (idle_impl v, w))
        (Inr (Return (length ?d) (point ?init (length ?d) None (idle_impl v', w'))))"
      using run runs_end [of "point ?init (length ?d) None (idle_impl v', w')" ?d ?S]
      by (simp add: point_start [OF init(2)] reaches_def)
    moreover have "codec_inv (\<lambda>_. True) (idle_impl v, w)" by (simp add: url_inv_def codec_states http_parser_url_init_def)
    ultimately have "http_parser_execute ?S ?d ?init (idle_impl v, w) = Inr (length ?d, ?init, (idle_impl v', w'))"
      using execute_runs [OF safe _ parser_ok_init init(1) False] by fastforce
    then have "impl_decode C ?d (idle_impl v, w) = Inr (length ?d, (idle_impl v', w'))"
      by (simp add: impl_decode_def idle_parser)
    then have "codec_decode C ?d dec w = Inr (True, dec\<lparr>de_impl := idle_impl v'\<rparr>, w')"
      using False assms(5-7) init(1)
      by (cases ?d) (simp_all add: codec_decode_def decode_loop.simps on_parser_error_def idle_parser Let_def)
    then show ?thesis using w' by blast
  qed
qed

end

end
