(* ===== verification/Request_Exchange.thy ===== *)
theory Request_Exchange
  imports Request_Decoding
begin

text \<open>
  From the encoder of one side to the user of the other: requests that are encoded one after the
  other and read in one piece by the HTTP/1 handler of a server become as many exchanges.
\<close>

section \<open>The message that the fields lead to\<close>

definition lower_names :: "(string \<times> string) list \<Rightarrow> bool" where
  "lower_names fs \<longleftrightarrow> distinct (map fst fs) \<and> (\<forall>f\<in>set fs. map tolower (fst f) = fst f)"

definition chunked_field :: "string \<times> string \<Rightarrow> bool" where
  "chunked_field f \<longleftrightarrow> fst f = hf_transfer_encoding \<and> icompare (snd f) ''chunked''"

text \<open>Only one of the two framings is announced.\<close>

definition one_framing :: "(string \<times> string) list \<Rightarrow> bool" where
  "one_framing fs \<longleftrightarrow> list_ex chunked_field fs \<longrightarrow> hf_content_len \<notin> fst ` set fs"

text \<open>What a name stands for once fields with different names are entered.\<close>

definition field_values :: "(string \<times> string) list \<Rightarrow> (string \<Rightarrow> string list) \<Rightarrow> string \<Rightarrow> string list" where
  "field_values fs old k = (case map_of fs k of
     Some v \<Rightarrow> [v]
   | None \<Rightarrow> if k = hf_content_len \<and> list_ex chunked_field fs then [] else old k)"

definition enterable :: "(string \<times> string) list \<Rightarrow> http_request \<Rightarrow> bool" where
  "enterable fs r \<longleftrightarrow> sd_wf r \<and> lower_names fs \<and> one_framing fs
    \<and> (\<forall>f\<in>set fs. headers (fst f) r = [] \<or> fst f \<in> {hf_connection, hf_content_len})"

definition start_line :: "http_request \<Rightarrow> http_method \<times> (string \<times> string \<times> string) \<times> proto_version" where
  "start_line r = (rq_method r, (rq_path r, rq_query r, rq_fragment r), sd_protocol r)"

fun enter_all :: "(string \<times> string) list \<Rightarrow> http_request \<Rightarrow> http_request result" where
  "enter_all [] r = Inr r"
| "enter_all (f # fs) r = res_bind (header (fst f) (snd f) r) (enter_all fs)"

lemma enter_fields_all:
  "enter_fields pend (fs @ [f]) r = res_bind (pending_header pend r) (\<lambda>r. res_bind (enter_all fs r) (\<lambda>r. Inr (Some f, r)))"
proof (induction fs arbitrary: pend r)
  case (Cons g fs)
  then show ?case by (auto simp: res_bind_def split: sum.splits)
qed (simp add: res_bind_def split: sum.splits)

lemma enter_all_append: "enter_all (fs @ gs) r = res_bind (enter_all fs r) (enter_all gs)"
proof (induction fs arbitrary: r)
  case (Cons f fs)
  then show ?case by (cases "header (fst f) (snd f) r") simp_all
qed simp

lemma header_line:
  assumes "header k v r = Inr r'"
  shows "start_line r' = start_line r" "sd_chunked r' = (sd_chunked r \<or> map tolower k = hf_transfer_encoding \<and> icompare v ''chunked'')"
  using assms
  by (auto simp: header_def start_line_def insert_header_def remove_header_def Let_def split: if_splits sum.splits)

lemma enter_all_values:
  assumes "enter_all fs r = Inr r'" "enterable fs r"
  shows "sd_wf r' \<and> start_line r' = start_line r \<and> sd_chunked r' = (sd_chunked r \<or> list_ex chunked_field fs)
    \<and> (\<forall>k. headers k r' = field_values fs (\<lambda>k. headers k r) k)"
  using assms
proof (induction fs arbitrary: r)
  case Nil
  then show ?case by (auto simp: field_values_def enterable_def)
next
  case (Cons f fs)
  obtain k v where f: "f = (k, v)" by (cases f)
  obtain r1 where r1: "header k v r = Inr r1" "enter_all fs r1 = Inr r'"
    using Cons.prems(1) by (auto simp: f res_bind_eq_Inr)
  have wf: "sd_wf r" and low: "map tolower k = k" and new: "k \<notin> fst ` set fs"
    and old: "headers k r = [] \<or> k \<in> {hf_connection, hf_content_len}"
    using Cons.prems(2) by (auto simp: enterable_def lower_names_def f)
  have at_k: "headers k r1 = [v]"
    using headers_after_header(1) [OF wf r1(1)] low old by (auto simp: in_unique_names)
  have elsewhere: "headers j r1 = (if j = hf_content_len \<and> chunked_field f then [] else headers j r)" if "j \<noteq> k" for j
    using headers_after_header(2) [OF wf r1(1), of j] low that by (auto simp: chunked_field_def f)
  have ok: "enterable fs r1"
    unfolding enterable_def
  proof (intro conjI ballI)
    show "sd_wf r1" using sd_wf_header [OF wf r1(1)] .
    show "lower_names fs" "one_framing fs"
      using Cons.prems(2) by (auto simp: enterable_def lower_names_def one_framing_def)
  next
    fix g assume g: "g \<in> set fs"
    then have "fst g \<noteq> k" using new by force
    then show "headers (fst g) r1 = [] \<or> fst g \<in> {hf_connection, hf_content_len}"
      using elsewhere g Cons.prems(2) by (auto simp: enterable_def)
  qed
  have "headers j r' = field_values (f # fs) (\<lambda>k. headers k r) j" for j
  proof (cases "j = k")
    case True
    have "map_of fs k = None" using new by (simp add: map_of_eq_None_iff)
    moreover have "\<not> (k = hf_content_len \<and> list_ex chunked_field fs)"
      using Cons.prems(2) f by (auto simp: enterable_def one_framing_def)
    ultimately show ?thesis using Cons.IH [OF r1(2) ok] at_k True by (auto simp: field_values_def f)
  next
    case False
    then show ?thesis using Cons.IH [OF r1(2) ok] elsewhere [OF False] by (auto simp: field_values_def f split: option.splits)
  qed
  then show ?case
    using Cons.IH [OF r1(2) ok] header_line [OF r1(1)] low by (auto simp: f chunked_field_def)
qed

lemma set_protocol_line:
  assumes "set_protocol HTTP11 r = Inr r'" "sd_wf r"
  shows "sd_wf r'" "start_line r' = (rq_method r, (rq_path r, rq_query r, rq_fragment r), HTTP11)"
    "sd_chunked r' = sd_chunked r" "k \<noteq> hf_connection \<Longrightarrow> headers k r' = headers k r"
  using assms sd_wf_apply_op [of r "Op_protocol HTTP11" r']
  by (auto simp: set_protocol_def start_line_def Let_def remove_header_def headers_def split: if_splits)

lemma set_keepalive_line:
  assumes "set_keepalive keep r = Inr r'" "sd_wf r"
  shows "sd_wf r'" "start_line r' = start_line r" "sd_chunked r' = sd_chunked r"
    "headers hf_connection r' = [if keep then hv_keepalive else hv_connection_close]"
    "k \<noteq> hf_connection \<Longrightarrow> headers k r' = headers k r"
  using assms sd_wf_apply_op [of r "Op_keepalive keep" r'] sd_wf_inv [OF assms(2)]
  by (auto simp: set_keepalive_def header_connection start_line_def insert_header_def remove_header_def
      headers_def values_insert mm_inv_erase)

lemma host_from_header_line:
  "sd_wf (host_from_header r) = sd_wf r" "start_line (host_from_header r) = start_line r"
  "sd_chunked (host_from_header r) = sd_chunked r" "headers k (host_from_header r) = headers k r"
  by (simp_all add: host_from_header_def start_line_def sd_wf_def headers_def Let_def)

lemma field_values_append:
  assumes "lower_names (fs @ gs)" "one_framing (fs @ gs)"
  shows "field_values gs (field_values fs old) k = field_values (fs @ gs) old k"
proof -
  have "map_of gs k = Some v \<Longrightarrow> map_of fs k = None" for v
    using assms(1) map_of_SomeD [of gs k v] by (force simp: lower_names_def map_of_eq_None_iff)
  moreover have "map_of fs hf_content_len = None \<or> \<not> list_ex chunked_field gs"
    using assms(2) by (auto simp: one_framing_def map_of_eq_None_iff)
  ultimately show ?thesis by (auto simp: field_values_def map_add_def split: option.splits)
qed

text \<open>The message of a request with at least one field: everything but its \<open>connection\<close> header.\<close>

lemma received_values:
  assumes "received_request m (path, query, fragment) keep fs r = Inr r'" "fs \<noteq> []" "enterable fs r" "\<not> sd_chunked r"
  shows "sd_wf r'" "start_line r' = (m, (path, query, fragment), HTTP11)" "sd_chunked r' = list_ex chunked_field fs"
    "headers hf_connection r' = [if keep then hv_keepalive else hv_connection_close]"
    "k \<noteq> hf_connection \<Longrightarrow> headers k r' = field_values fs (\<lambda>k. headers k r) k"
proof -
  obtain gs f where fs: "fs = gs @ [f]" using assms(2) by (metis append_butlast_last_id)
  let ?r0 = "with_target path query fragment r"
  have r0: "sd_wf ?r0 = sd_wf r" "headers k ?r0 = headers k r" "sd_chunked ?r0 = sd_chunked r"
    "start_line ?r0 = (rq_method r, (path, query, fragment), sd_protocol r)" for k
    by (simp_all add: with_target_def sd_wf_def headers_def start_line_def)
  obtain r1 r2 r3 where r1: "enter_all gs ?r0 = Inr r1" and r2: "set_protocol HTTP11 r1 = Inr r2"
    and r3: "header (fst f) (snd f) r2 = Inr r3"
    and r4: "set_keepalive keep (host_from_header (r3\<lparr>rq_method := m\<rparr>)) = Inr r'"
    using assms(1) by (auto simp: received_request_def fs enter_fields_all finish_head_def res_bind_eq_Inr)
  have "enterable gs ?r0" using assms(3) r0 by (auto simp: enterable_def lower_names_def one_framing_def fs)
  note one = enter_all_values [OF r1 this]
  then have wf1: "sd_wf r1" by blast
  note two = set_protocol_line [OF r2 wf1]
  have old: "headers (fst f) r2 = [] \<or> fst f \<in> {hf_connection, hf_content_len}"
  proof (cases "fst f \<in> {hf_connection, hf_content_len}")
    case False
    have "map_of gs (fst f) = None" using assms(3) by (auto simp: enterable_def lower_names_def fs map_of_eq_None_iff)
    moreover have "headers (fst f) r = []" using assms(3) False by (auto simp: enterable_def fs)
    ultimately show ?thesis using one two(4) [of "fst f"] r0 False by (simp add: field_values_def)
  qed simp
  have "enter_all [f] r2 = Inr r3" using r3 by simp
  moreover have "enterable [f] r2"
    using assms(3) two(1) old by (auto simp: enterable_def lower_names_def one_framing_def chunked_field_def fs)
  ultimately have three: "sd_wf r3 \<and> start_line r3 = start_line r2 \<and> sd_chunked r3 = (sd_chunked r2 \<or> list_ex chunked_field [f])
    \<and> (\<forall>k. headers k r3 = field_values [f] (\<lambda>k. headers k r2) k)"
    by (rule enter_all_values)
  have m: "sd_wf (r3\<lparr>rq_method := m\<rparr>) = sd_wf r3" "headers k (r3\<lparr>rq_method := m\<rparr>) = headers k r3"
    "start_line (r3\<lparr>rq_method := m\<rparr>) = (m, snd (start_line r3))" for k
    by (simp_all add: sd_wf_def headers_def start_line_def)
  have wf4: "sd_wf (host_from_header (r3\<lparr>rq_method := m\<rparr>))" using three m by (simp add: host_from_header_line)
  note four = set_keepalive_line [OF r4 wf4]
  show "sd_wf r'" by (rule four(1))
  show "headers hf_connection r' = [if keep then hv_keepalive else hv_connection_close]" by (rule four(4))
  show "sd_chunked r' = list_ex chunked_field fs"
    using one two(3) three four(3) assms(4) r0(3) by (auto simp: host_from_header_line fs)
  have "snd (start_line r2) = ((path, query, fragment), HTTP11)"
    using two(2) one r0(4) by (auto simp: start_line_def)
  then show "start_line r' = (m, (path, query, fragment), HTTP11)"
    using three four(2) m(3) by (simp add: host_from_header_line)
  show "headers k r' = field_values fs (\<lambda>k. headers k r) k" if k: "k \<noteq> hf_connection"
  proof -
    have "headers k r' = field_values [f] (\<lambda>k. headers k r2) k"
      using four(5) [OF k] three m(2) by (simp add: host_from_header_line)
    also have "\<dots> = field_values [f] (field_values gs (\<lambda>k. headers k r)) k"
      using two(4) [OF k] one r0(2) by (auto simp: field_values_def split: option.splits)
    also have "\<dots> = field_values fs (\<lambda>k. headers k r) k"
      using field_values_append [of gs "[f]" "\<lambda>k. headers k r" k] assms(3) by (simp add: enterable_def fs)
    finally show ?thesis .
  qed
qed

text \<open>The fields whose framing is understood are entered without a failure.\<close>

lemma field_framing_header:
  assumes "field_framing f x = Some y" "map tolower (fst f) = fst f"
  shows "\<exists>r'. header (fst f) (snd f) r = Inr r'"
proof -
  have "\<exists>n. stoull (snd f) = Inr n" if cl: "fst f = hf_content_len"
  proof -
    obtain n where n: "snd f = to_dec n" "n \<le> 10 ^ 18"
      using assms(1) cl by (cases f; cases x) (auto simp: field_framing_def split: option.splits if_splits)
    have "unat (of_nat n :: 64 word) = n" using n(2) by (simp add: unat_of_nat take_bit_nat_eq_self)
    then show ?thesis using n(1) stoull_to_dec [of "of_nat n"] by metis
  qed
  then show ?thesis using header_total [of "fst f" "snd f" r] assms(2) by simp
qed

lemma enter_all_total:
  assumes "fields_framing fs x = Some y" "\<forall>f\<in>set fs. map tolower (fst f) = fst f"
  shows "\<exists>r'. enter_all fs r = Inr r'"
  using assms
proof (induction fs arbitrary: x r)
  case (Cons f fs)
  obtain x1 where x1: "field_framing f x = Some x1" "fields_framing fs x1 = Some y"
    using Cons.prems(1) by (auto split: option.splits)
  obtain r1 where "header (fst f) (snd f) r = Inr r1"
    using field_framing_header [OF x1(1)] Cons.prems(2) by auto
  with Cons.IH [OF x1(2), of r1] Cons.prems(2) show ?case by simp
qed simp

lemma fields_framing_last: "fields_framing (gs @ [f]) x = Some y \<Longrightarrow> \<exists>z z'. field_framing f z = Some z'"
  by (induction gs arbitrary: x) (auto split: option.splits)

lemma framing_names: "fields_framing fs x \<noteq> None \<Longrightarrow> f \<in> set fs \<Longrightarrow> fst f \<noteq> []"
proof (induction fs arbitrary: x)
  case (Cons g fs)
  obtain x1 where x1: "field_framing g x = Some x1" "fields_framing fs x1 \<noteq> None"
    using Cons.prems(1) by (auto split: option.splits)
  have "fst g \<noteq> []"
    using x1(1) by (cases g; cases x)
      (auto simp: field_framing_def ordinary_name_def hf_connection_def hf_transfer_encoding_def hf_content_len_def split: if_splits)
  then show ?case using Cons.IH [OF x1(2)] Cons.prems(2) by auto
qed simp

lemma received_total:
  assumes "fields_framing fs x = Some y" "\<forall>f\<in>set fs. map tolower (fst f) = fst f" "fs \<noteq> []"
  shows "\<exists>r'. received_request m (path, query, fragment) keep fs r = Inr r'"
proof -
  obtain gs f where fs: "fs = gs @ [f]" using assms(3) by (metis append_butlast_last_id)
  obtain r' where "enter_all fs (with_target path query fragment r) = Inr r'"
    using enter_all_total [OF assms(1,2)] by blast
  then obtain r1 where r1: "enter_all gs (with_target path query fragment r) = Inr r1"
    by (auto simp: fs enter_all_append res_bind_eq_Inr)
  have "\<exists>r2. set_protocol HTTP11 r1 = Inr r2" by (simp add: set_protocol_def Let_def)
  then obtain r2 where r2: "set_protocol HTTP11 r1 = Inr r2" by blast
  obtain z z' where "field_framing f z = Some z'" using assms(1) fields_framing_last fs by blast
  then obtain r3 where r3: "header (fst f) (snd f) r2 = Inr r3" using field_framing_header [of f z z' r2] assms(2) fs by auto
  obtain r4 where "set_keepalive keep (host_from_header (r3\<lparr>rq_method := m\<rparr>)) = Inr r4" using set_keepalive_ok by blast
  then show ?thesis using r1 r2 r3 by (simp add: received_request_def fs enter_fields_all finish_head_def)
qed

text \<open>The object that a server starts with.\<close>

lemma default_request_fields:
  "sd_headers default_request = [(hf_connection, hv_connection_close), (hf_content_len, ''0'')]"
  "\<not> sd_chunked default_request" "sd_wf default_request"
proof -
  show "sd_headers default_request = [(hf_connection, hv_connection_close), (hf_content_len, ''0'')]" by code_simp
  show "\<not> sd_chunked default_request" by code_simp
  show "sd_wf default_request" by code_simp
qed

lemma default_request_headers:
  "headers k default_request =
    (if k = hf_connection then [hv_connection_close] else if k = hf_content_len then [''0''] else [])"
  by (simp add: headers_def default_request_fields mm_equal_range_def)

section \<open>Requests as they are sent\<close>

text \<open>The fields that a message is serialised as, one for every name.\<close>

definition wire_fields :: "'a http_structured_data_scheme \<Rightarrow> (string \<times> string) list" where
  "wire_fields r = map (\<lambda>k. (k, join (value_sep k) (headers k r))) (header_names_of r)"

definition sent_request :: "http_request \<times> string list \<Rightarrow> wire_request" where
  "sent_request = (\<lambda>(r, ds). (rq_method r, (if rq_path r = [] then slash else rq_path r, rq_query r, rq_fragment r),
     wire_fields r, ds))"

text \<open>
  The requests that this is about: well-formed objects of HTTP/1.1 with some header, whose flag for
  the chunked encoding is that of their headers and whose text the reading side takes.  The
  encoder writes another name for \<open>M-SEARCH\<close> than the parser knows.
\<close>

definition sendable :: "http_request \<times> string list \<Rightarrow> bool" where
  "sendable = (\<lambda>(r, ds). sd_wf r \<and> sd_headers r \<noteq> [] \<and> sd_protocol r = HTTP11 \<and> rq_method r \<noteq> HTTP_MSEARCH
     \<and> wire_ok (sent_request (r, ds)) \<and> sd_chunked r = (F_CHUNKED \<in> wire_flags (wire_fields r)))"

definition request_items :: "http_request \<times> string list \<Rightarrow> http_request item list" where
  "request_items = (\<lambda>(r, ds). I_headers r # map I_body ds @ [I_end])"

lemma wire_fields_names: "map fst (wire_fields r) = header_names_of r"
  by (simp add: wire_fields_def comp_def)

lemma in_header_names: "k \<in> set (header_names_of r) \<longleftrightarrow> headers k r \<noteq> []"
  by (auto simp: header_names_of_def headers_def mm_equal_range_def filter_empty_conv)

lemma map_of_wire_fields:
  "map_of (wire_fields r) k = (if headers k r = [] then None else Some (join (value_sep k) (headers k r)))"
proof -
  have "map_of (map (\<lambda>k. (k, f k)) ks) k = (if k \<in> set ks then Some (f k) else None)" for f :: "string \<Rightarrow> string" and ks
    by (induction ks) auto
  then show ?thesis using in_header_names [of k r] by (simp add: wire_fields_def)
qed

lemma wire_fields_lower:
  assumes "sd_wf r"
  shows "lower_names (wire_fields r)"
proof -
  have "sorted (map fst (sd_headers r))" "\<forall>e\<in>set (sd_headers r). map tolower (fst e) = fst e"
    using assms by (simp_all add: sd_wf_def mm_inv_def)
  then have "distinct (header_names_of r)" "\<forall>k\<in>set (header_names_of r). map tolower k = k"
    using sorted_remdups_adj_strict [of "map fst (sd_headers r)"] by (auto simp: strict_sorted_iff header_names_of_def)
  then show ?thesis
    unfolding lower_names_def wire_fields_names by (auto simp: wire_fields_def)
qed

lemma sendable_flags:
  assumes "sendable (r, ds)"
  obtains F L where "fields_framing (wire_fields r) ({}, ULLONG_MAX) = Some (F, L)" "framed (F, L) ds"
    "wire_flags (wire_fields r) = F" "sd_chunked r = (F_CHUNKED \<in> F)" "sd_wf r" "wire_fields r \<noteq> []"
proof -
  obtain F L where F: "fields_framing (wire_fields r) ({}, ULLONG_MAX) = Some (F, L)" "framed (F, L) ds"
    using assms by (auto simp: sendable_def sent_request_def wire_ok_def split: option.splits)
  moreover have "wire_flags (wire_fields r) = F" using F(1) by (simp add: wire_flags_def)
  moreover have "sd_chunked r = (F_CHUNKED \<in> F)" "sd_wf r" "wire_fields r \<noteq> []"
    using assms \<open>wire_flags (wire_fields r) = F\<close>
    by (auto simp: sendable_def wire_fields_def header_names_of_def)
  ultimately show ?thesis using that by blast
qed

lemma method_name:
  assumes "m \<noteq> END" "m \<noteq> HTTP_MSEARCH"
  shows "method_mapper ! http_method_num m = http_method_str m"
proof -
  have "\<forall>m\<in>set http_methods. m = END \<or> m = HTTP_MSEARCH \<or> method_mapper ! http_method_num m = http_method_str m"
    by code_simp
  moreover have "m \<in> set http_methods" by (cases m) (simp_all add: http_methods_def)
  ultimately show ?thesis using assms by blast
qed

text \<open>The start line and the headers.\<close>

lemma serialized_head:
  assumes "sendable (r, ds)"
  shows "request_serialize r = Inr (head_text (rq_method r)
      (target_text (if rq_path r = [] then slash else rq_path r) (rq_query r) (rq_fragment r)) (wire_fields r) @ crlf)"
proof -
  have wf: "sd_wf r" "sd_headers r \<noteq> []" "sd_protocol r = HTTP11" "rq_method r \<noteq> HTTP_MSEARCH"
    and "wire_ok (sent_request (r, ds))"
    using assms by (simp_all add: sendable_def)
  then have known: "rq_method r \<noteq> END" by (simp add: sent_request_def wire_ok_def)
  obtain F L where "fields_framing (wire_fields r) ({}, ULLONG_MAX) = Some (F, L)" using sendable_flags [OF assms] by blast
  then have ok: "fields_framing (wire_fields r) ({}, ULLONG_MAX) \<noteq> None" by simp
  let ?k = "fst (last (sd_headers r))"
  have "?k \<in> set (header_names_of r)" using wf(2) by (simp add: header_names_of_def)
  then have "(?k, join (value_sep ?k) (headers ?k r)) \<in> set (wire_fields r)" by (simp add: wire_fields_def)
  from framing_names [OF ok this] have "?k \<noteq> []" by simp
  then have "sd_serialize r = Inr (concat (map (\<lambda>g. field_line g @ crlf) (group_headers (sd_headers r))) @ crlf)"
    by (rule serialize_groups [OF wf(2)])
  also have "concat (map (\<lambda>g. field_line g @ crlf) (group_headers (sd_headers r))) = fields_text (wire_fields r)"
    using group_headers_values [OF sd_wf_inv [OF wf(1)]]
    by (simp add: fields_text_def wire_fields_def header_names_of_def headers_def field_line_def comp_def)
  finally have "sd_serialize r = Inr (fields_text (wire_fields r) @ crlf)" .
  moreover have "request_method r = http_method_str (rq_method r)"
    using method_name [OF known wf(4)] by (simp add: request_method_def)
  moreover have "request_target r = target_text (if rq_path r = [] then slash else rq_path r) (rq_query r) (rq_fragment r)"
    by (simp add: request_target_def target_text_def slash_def questionmark_def hash_def)
  ultimately show ?thesis
    using wf(3) by (simp add: request_serialize_def head_text_def protocol_def version_text_def http11_def crlf_def)
qed

lemma enc_pieces:
  assumes "enc_state c \<in> {HEADER, BODY}" "list_all (\<lambda>b. length b \<le> 10 ^ 18) ds"
  shows "enc_items ser (map I_body ds @ [I_end]) c = Inr (content_text (enc_chunked c) ds, c\<lparr>enc_state := ZERO\<rparr>)"
  using assms
proof (induction ds arbitrary: c)
  case Nil
  then show ?case by (auto simp: content_text_def encode_eom_def)
next
  case (Cons b ds)
  have "content_text (enc_chunked c) (b # ds) = (if b = [] then [] else if enc_chunked c
      then from_size_t (of_nat (length b)) @ crlf @ b @ crlf else b) @ content_text (enc_chunked c) ds"
    using from_size_t_length [of b] Cons.prems(2) by (simp add: content_text_def)
  then show ?case using Cons.IH [of "c\<lparr>enc_state := BODY\<rparr>"] Cons.prems by (simp add: encode_body_ok)
qed

text \<open>The encoder writes the text that the reading side's lemmas speak of.\<close>

lemma encoded_request:
  assumes "sendable q" "enc_state e = ZERO"
  shows "\<exists>e'. enc_items request_serialize (request_items q) e = Inr (wire_text (sent_request q), e') \<and> enc_state e' = ZERO"
proof -
  obtain r ds where q: "q = (r, ds)" by (cases q)
  note r = assms(1) [unfolded q]
  obtain F L where F: "fields_framing (wire_fields r) ({}, ULLONG_MAX) = Some (F, L)" "framed (F, L) ds"
    "wire_flags (wire_fields r) = F" "sd_chunked r = (F_CHUNKED \<in> F)" using sendable_flags [OF r] by blast
  have "list_all (\<lambda>b. length b \<le> 10 ^ 18) ds" using F(2) by (simp add: framed_def)
  then show ?thesis
    using serialized_head [OF r] enc_pieces [of "e\<lparr>enc_state := HEADER, enc_chunked := sd_chunked r\<rparr>" ds
        "request_serialize :: http_request \<Rightarrow> string result"]
      assms(2) F(3,4)
    by (simp add: q request_items_def sent_request_def wire_text_def encode_header_def)
qed

lemma encoded_requests:
  assumes "list_all sendable qs" "enc_state e = ZERO"
  shows "\<exists>e'. enc_items request_serialize (concat (map request_items qs)) e
      = Inr (concat (map (wire_text \<circ> sent_request) qs), e') \<and> enc_state e' = ZERO"
  using assms
proof (induction qs arbitrary: e)
  case (Cons q qs)
  obtain e1 where e1: "enc_items request_serialize (request_items q) e = Inr (wire_text (sent_request q), e1)" "enc_state e1 = ZERO"
    using encoded_request [of q e] Cons.prems by auto
  then show ?case using Cons.IH [of e1] Cons.prems(1) by (auto simp: enc_items_append)
qed simp

section \<open>Requests as they arrive\<close>

text \<open>
  The message that a request arrives as, up to its \<open>connection\<close> header: every header with one
  value, the constructor's \<open>content-length\<close> where the request announces no framing.
\<close>

definition arrives_as :: "http_request \<Rightarrow> http_request \<Rightarrow> bool" where
  "arrives_as r m \<longleftrightarrow> rq_method m = rq_method r \<and> rq_path m = (if rq_path r = [] then slash else rq_path r)
     \<and> rq_query m = rq_query r \<and> rq_fragment m = rq_fragment r \<and> sd_protocol m = sd_protocol r \<and> sd_chunked m = sd_chunked r
     \<and> (\<forall>k. k \<noteq> hf_connection \<longrightarrow> headers k m =
         (if headers k r \<noteq> [] then [join (value_sep k) (headers k r)]
          else if k = hf_content_len \<and> \<not> sd_chunked r then [''0''] else []))"

lemma field_framing_flag_iff:
  assumes "field_framing f (F, L) = Some (F', L')"
  shows "F_CHUNKED \<in> F' \<longleftrightarrow> F_CHUNKED \<in> F \<or> chunked_field f"
    "F_CONTENTLENGTH \<in> F' \<longleftrightarrow> F_CONTENTLENGTH \<in> F \<or> fst f = hf_content_len"
    "F_CONNECTION_CLOSE \<in> F' \<longleftrightarrow> F_CONNECTION_CLOSE \<in> F \<or> f = (hf_connection, hv_connection_close)"
proof -
  have "hv_keepalive \<noteq> hv_connection_close" by code_simp
  then show "F_CHUNKED \<in> F' \<longleftrightarrow> F_CHUNKED \<in> F \<or> chunked_field f"
    "F_CONTENTLENGTH \<in> F' \<longleftrightarrow> F_CONTENTLENGTH \<in> F \<or> fst f = hf_content_len"
    "F_CONNECTION_CLOSE \<in> F' \<longleftrightarrow> F_CONNECTION_CLOSE \<in> F \<or> f = (hf_connection, hv_connection_close)"
    using assms by (cases f; auto simp: field_framing_def chunked_field_def split: if_splits option.splits)+
qed

lemma fields_framing_flag_iff:
  assumes "fields_framing fs (F, L) = Some (F', L')"
  shows "(F_CHUNKED \<in> F' \<longleftrightarrow> F_CHUNKED \<in> F \<or> list_ex chunked_field fs)
    \<and> (F_CONTENTLENGTH \<in> F' \<longleftrightarrow> F_CONTENTLENGTH \<in> F \<or> hf_content_len \<in> fst ` set fs)
    \<and> (F_CONNECTION_CLOSE \<in> F' \<longleftrightarrow> F_CONNECTION_CLOSE \<in> F \<or> (hf_connection, hv_connection_close) \<in> set fs)"
  using assms
proof (induction fs arbitrary: F L)
  case (Cons f fs)
  obtain F1 L1 where "field_framing f (F, L) = Some (F1, L1)" "fields_framing fs (F1, L1) = Some (F', L')"
    using Cons.prems by (auto split: option.splits)
  then show ?case using Cons.IH [of F1 L1] field_framing_flag_iff [of f F L F1 L1] by auto
qed simp

lemma get_header_headers: "get_header k d = (case headers k d of [] \<Rightarrow> [] | v # _ \<Rightarrow> v)"
  using mm_find_values [of k "sd_headers d"]
  by (auto simp: get_header_def headers_def split: option.splits list.splits)

lemma message_persistent_header:
  assumes "headers hf_connection m = [if keep then hv_keepalive else hv_connection_close]" "sd_protocol m = HTTP11"
  shows "message_persistent m = keep"
proof -
  have "hv_keepalive \<noteq> hv_connection_close" "hv_connection_close \<noteq> []" by code_simp+
  moreover have "get_header hf_connection m = (if keep then hv_keepalive else hv_connection_close)"
    using assms(1) by (auto simp: get_header_headers)
  ultimately show ?thesis using assms(2) by (simp add: message_persistent_def)
qed

text \<open>What a sendable request is received as.\<close>

lemma sendable_received:
  assumes "sendable (r, ds)"
  shows "\<exists>m. received_as default_request (sent_request (r, ds)) (m, received_pieces (sd_chunked r) ds) \<and> sd_wf m
    \<and> arrives_as r m \<and> message_persistent m = (headers hf_connection r \<noteq> [hv_connection_close])"
proof -
  let ?fs = "wire_fields r" and ?path = "if rq_path r = [] then slash else rq_path r"
  obtain F L where F: "fields_framing ?fs ({}, ULLONG_MAX) = Some (F, L)" "framed (F, L) ds" "wire_flags ?fs = F"
    "sd_chunked r = (F_CHUNKED \<in> F)" "sd_wf r" "?fs \<noteq> []" using sendable_flags [OF assms] by blast
  note flags = fields_framing_flag_iff [OF F(1), simplified]
  note lower = wire_fields_lower [OF F(5)]
  let ?keep = "F_CONNECTION_CLOSE \<notin> F"
  obtain m where m: "received_request (rq_method r) (?path, rq_query r, rq_fragment r) ?keep ?fs default_request = Inr m"
    using received_total [OF F(1) _ F(6)] lower unfolding lower_names_def by blast
  have "one_framing ?fs" using flags F(2) by (auto simp: one_framing_def framed_def split: if_splits)
  then have "enterable ?fs default_request"
    using lower by (auto simp: enterable_def default_request_fields default_request_headers)
  note v = received_values [OF m F(6) this default_request_fields(2)]
  have "arrives_as r m"
    using v(2,3,5) flags F(4) assms
    by (auto simp: arrives_as_def start_line_def sendable_def field_values_def map_of_wire_fields default_request_headers)
  moreover have "?keep = (headers hf_connection r \<noteq> [hv_connection_close])"
  proof -
    have "length (headers hf_connection r) \<le> 1" using F(5) by (simp add: sd_wf_def unique_names_def)
    then have "(hf_connection, hv_connection_close) \<in> set ?fs \<longleftrightarrow> headers hf_connection r = [hv_connection_close]"
      by (cases "headers hf_connection r") (auto simp: wire_fields_def in_header_names)
    then show ?thesis using flags by simp
  qed
  moreover have "message_persistent m = ?keep" using v(2,4) by (simp add: message_persistent_header start_line_def)
  ultimately show ?thesis using m v(1) F(3,4) by (auto simp: received_as_def sent_request_def)
qed

section \<open>The handler of a server as the client of the codec\<close>

definition server_ready :: "('l, 'r, http_request, 'z) handler_http1_scheme \<Rightarrow> bool" where
  "server_ready w \<longleftrightarrow> hd_connector w \<and> hd_request_cb w \<and> hd_remote_objects w = [] \<and> hd_current_decoded w = default_request"

definition idle_decoder :: "http_decoder \<Rightarrow> bool" where
  "idle_decoder d \<longleftrightarrow> de_impl d \<in> {idle_impl UNSET, idle_impl HTTP11} \<and> \<not> de_skip_next_header d \<and> \<not> de_ignore_content_len d"

text \<open>The events of exchanges with these pieces of their bodies, numbered from \<open>n\<close> on.\<close>

fun exchange_events :: "nat \<Rightarrow> string list list \<Rightarrow> hd_event list" where
  "exchange_events n [] = []"
| "exchange_events n (bs # bss) = User_feedback (Some n) # map (Remote_task n) (T_headers # map T_body bs @ [T_finished])
     @ exchange_events (Suc n) bss"

text \<open>The exchange that a message leads to.\<close>

definition exchange_of :: "http_request \<times> string list \<Rightarrow> request option \<Rightarrow> bool" where
  "exchange_of q x \<longleftrightarrow> (\<exists>p m. set_keepalive p (fst q) = Inr m
     \<and> x = Some (request_new default_request\<lparr>sr_preamble := m, sr_terminated := True\<rparr>))"

lemma server_client:
  "cc_get (handler_client (server_traits j)) w = Decoded_request (hd_current_decoded w)"
  "cc_put (handler_client (server_traits j)) (Decoded_request r) w = w\<lparr>hd_current_decoded := r\<rparr>"
  "cc_begin (handler_client (server_traits j)) w = Inr (True, decoding_start (server_traits j) w)"
  "hd_current_decoded (decoding_start (server_traits j) w) = hd_current_decoded w"
  "cc_error (handler_client (server_traits j)) e w = Inr (b, w') \<Longrightarrow> b"
  by (auto simp: handler_client_def server_traits_def decoding_start_def decoder_begin_def get_user_handlers_def
      log_event_def Let_def res_bind_eq_Inr)

lemma deliver_server:
  "deliver (handler_client (server_traits j)) m bs w
    = handle_codec_events (server_traits j) (D_start # D_headers m # map D_body bs @ map (\<lambda>(k, v). D_trailer k v) [] @ [D_complete]) w"
proof -
  let ?C = "handler_client (server_traits j)" and ?v = "decoding_start (server_traits j) w"
  have pieces: "res_bind (deliver_pieces ?C bs w) (cc_complete ?C)
      = handle_codec_events (server_traits j) (map D_body bs @ [D_complete]) w" for w
  proof (induction bs arbitrary: w)
    case Nil
    then show ?case by (simp add: handler_client_def)
  next
    case (Cons b bs)
    then show ?case by (simp add: handler_client_def)
  qed
  have "cc_headers ?C (cc_put ?C (Decoded_request m) ?v) = decoded_headers_server (server_traits j) (?v\<lparr>hd_current_decoded := m\<rparr>)"
    by (simp add: handler_client_def server_traits_def)
  then show ?thesis by (simp add: deliver_def pieces server_client(3))
qed

lemma server_delivers:
  assumes "server_ready w"
  shows "\<exists>w'. deliver (handler_client (server_traits j)) m bs w = Inr w' \<and> server_ready w'
    \<and> hd_events w' = hd_events w @ exchange_events (hd_next w) [bs] \<and> hd_next w' = Suc (hd_next w)
    \<and> hd_local_objects w' = hd_local_objects w @ [hd_next w]
    \<and> (\<exists>x. hd_remotes w' = (hd_remotes w)(hd_next w := x) \<and> exchange_of (m, bs) x)
    \<and> co_persistent (hd_conn w') = (co_persistent (hd_conn w) \<and> message_persistent m)"
proof -
  obtain m' where m': "set_keepalive (co_persistent (hd_conn w) \<and> message_persistent m) m = Inr m'"
    using set_keepalive_ok by blast
  have w: "hd_connector w" "hd_request_cb w" "hd_remote_objects w = []" using assms by (simp_all add: server_ready_def)
  from exchange_state [OF w m', of j bs "[]"] show ?thesis
    unfolding deliver_server using w m' by (auto simp: server_ready_def exchange_of_def)
qed

interpretation server: request_client "handler_client (server_traits j)" server_ready default_request for j
proof (unfold_locales, goal_cases)
  case 3
  then show ?case by (simp add: server_client server_ready_def)
next
  case 4
  then show ?case by (rule server_client)
next
  case 5
  then show ?case using server_delivers by blast
qed (simp_all add: server_client)

lemma server_delivers_all:
  assumes "server_ready w"
  shows "\<exists>w'. deliver_all (handler_client (server_traits j)) ms w = Inr w'
    \<and> hd_events w' = hd_events w @ exchange_events (hd_next w) (map snd ms)
    \<and> hd_local_objects w' = hd_local_objects w @ [hd_next w..<hd_next w + length ms]
    \<and> (\<forall>i<hd_next w. hd_remotes w' i = hd_remotes w i)
    \<and> list_all2 exchange_of ms (map (hd_remotes w') [hd_next w..<hd_next w + length ms])
    \<and> co_persistent (hd_conn w') = (co_persistent (hd_conn w) \<and> list_all (message_persistent \<circ> fst) ms)"
  using assms
proof (induction ms arbitrary: w)
  case (Cons q ms)
  let ?n = "hd_next w"
  from server_delivers [OF Cons.prems, of j "fst q" "snd q"] obtain w1 x where
    w1: "deliver (handler_client (server_traits j)) (fst q) (snd q) w = Inr w1" "server_ready w1"
      "hd_events w1 = hd_events w @ exchange_events ?n [snd q]" "hd_next w1 = Suc ?n"
      "hd_local_objects w1 = hd_local_objects w @ [?n]"
      "co_persistent (hd_conn w1) = (co_persistent (hd_conn w) \<and> message_persistent (fst q))"
    and x: "hd_remotes w1 = (hd_remotes w)(?n := x)" "exchange_of q x" by auto
  from Cons.IH [OF w1(2)] obtain w' where
    w': "deliver_all (handler_client (server_traits j)) ms w1 = Inr w'"
      "hd_events w' = hd_events w1 @ exchange_events (Suc ?n) (map snd ms)"
      "hd_local_objects w' = hd_local_objects w1 @ [Suc ?n..<Suc ?n + length ms]"
      "\<forall>i<Suc ?n. hd_remotes w' i = hd_remotes w1 i"
      "list_all2 exchange_of ms (map (hd_remotes w') [Suc ?n..<Suc ?n + length ms])"
      "co_persistent (hd_conn w') = (co_persistent (hd_conn w1) \<and> list_all (message_persistent \<circ> fst) ms)"
    unfolding w1(4) by blast
  have upt: "[?n..<?n + length (q # ms)] = ?n # [Suc ?n..<Suc ?n + length ms]" by (simp add: upt_conv_Cons del: upt_Suc)
  have "hd_remotes w' ?n = x" "\<forall>i<?n. hd_remotes w' i = hd_remotes w i" using w'(4) x(1) by auto
  then show ?case
    using w1 w' x(2) unfolding upt by (intro exI [of _ w']) (simp add: comp_def)
qed simp

section \<open>From encoder to user\<close>

text \<open>An exchange whose request has ended and whose message is the one that was sent.\<close>

definition arrived :: "http_request \<times> string list \<Rightarrow> request option \<Rightarrow> bool" where
  "arrived q x \<longleftrightarrow> (case x of None \<Rightarrow> False | Some p \<Rightarrow> sr_terminated p \<and> arrives_as (fst q) (sr_preamble p))"

definition asks_to_close :: "http_request \<times> string list \<Rightarrow> bool" where
  "asks_to_close q \<longleftrightarrow> headers hf_connection (fst q) = [hv_connection_close]"

text \<open>A request and the message and pieces it becomes.\<close>

definition becomes :: "http_request \<times> string list \<Rightarrow> http_request \<times> string list \<Rightarrow> bool" where
  "becomes q m \<longleftrightarrow> received_as default_request (sent_request q) m \<and> sd_wf (fst m) \<and> arrives_as (fst q) (fst m)
     \<and> snd m = received_pieces (sd_chunked (fst q)) (snd q) \<and> message_persistent (fst m) = (\<not> asks_to_close q)"

lemma sendable_becomes: "list_all sendable qs \<Longrightarrow> \<exists>ms. list_all2 becomes qs ms"
proof (induction qs)
  case (Cons q qs)
  obtain r ds where q: "q = (r, ds)" by (cases q)
  then obtain m where "becomes q (m, received_pieces (sd_chunked r) ds)"
    using sendable_received [of r ds] Cons.prems by (auto simp: becomes_def asks_to_close_def)
  then show ?case using Cons by (auto simp: list_all2_Cons1)
qed (rule exI [of _ "[]"], simp)

lemma becomes_exchange:
  assumes "becomes q m" "exchange_of m x"
  shows "arrived q x"
proof -
  obtain p m' where m': "set_keepalive p (fst m) = Inr m'"
    and x: "x = Some (request_new default_request\<lparr>sr_preamble := m', sr_terminated := True\<rparr>)"
    using assms(2) by (auto simp: exchange_of_def)
  have "sd_wf (fst m)" "arrives_as (fst q) (fst m)" using assms(1) by (simp_all add: becomes_def)
  with set_keepalive_line [OF m'] show ?thesis by (auto simp: arrived_def x arrives_as_def start_line_def)
qed

lemma becomes_all:
  assumes "list_all2 becomes qs ms"
  shows "list_all2 (received_as default_request) (map sent_request qs) ms"
    "map snd ms = map (\<lambda>(r, ds). received_pieces (sd_chunked r) ds) qs"
    "list_all (message_persistent \<circ> fst) ms = list_all (\<lambda>q. \<not> asks_to_close q) qs"
    "list_all2 exchange_of ms xs \<Longrightarrow> list_all2 arrived qs xs" "length ms = length qs"
proof -
  show "list_all2 (received_as default_request) (map sent_request qs) ms"
    "map snd ms = map (\<lambda>(r, ds). received_pieces (sd_chunked r) ds) qs"
    "list_all (message_persistent \<circ> fst) ms = list_all (\<lambda>q. \<not> asks_to_close q) qs"
    using assms by (induction rule: list_all2_induct) (auto simp: becomes_def)
  show "list_all2 exchange_of ms xs \<Longrightarrow> list_all2 arrived qs xs"
    by (rule list_all2_trans [OF _ assms]) (use becomes_exchange in blast)
  show "length ms = length qs" using assms by (simp add: list_all2_lengthD)
qed

lemma encoded_requests_received:
  assumes "list_all sendable qs" "enc_state e = ZERO" "server_ready w" "idle_decoder (hd_decoder w)"
  shows "\<exists>text e' w'. enc_items request_serialize (concat (map request_items qs)) e = Inr (text, e') \<and> enc_state e' = ZERO
    \<and> hd_on_read (server_traits j) text w = Inr (True, w') \<and> server_ready w' \<and> idle_decoder (hd_decoder w')
    \<and> hd_events w' = hd_events w
        @ exchange_events (hd_next w) (map (\<lambda>(r, ds). received_pieces (sd_chunked r) ds) qs)
    \<and> hd_local_objects w' = hd_local_objects w @ [hd_next w..<hd_next w + length qs]
    \<and> list_all2 arrived qs (map (hd_remotes w') [hd_next w..<hd_next w + length qs])
    \<and> co_persistent (hd_conn w') = (co_persistent (hd_conn w) \<and> list_all (\<lambda>q. \<not> asks_to_close q) qs)"
proof -
  obtain ms where ms: "list_all2 becomes qs ms" using sendable_becomes [OF assms(1)] by blast
  note become = becomes_all [OF ms]
  obtain e' where e': "enc_items request_serialize (concat (map request_items qs)) e
      = Inr (concat (map (wire_text \<circ> sent_request) qs), e')" "enc_state e' = ZERO"
    using encoded_requests [OF assms(1,2)] by blast
  obtain v where v: "de_impl (hd_decoder w) = idle_impl v" "v = UNSET \<or> v = HTTP11"
    "\<not> de_skip_next_header (hd_decoder w)" "\<not> de_ignore_content_len (hd_decoder w)"
    using assms(4) by (auto simp: idle_decoder_def)
  have "list_all wire_ok (map sent_request qs)" using assms(1) by (auto simp: list_all_iff sendable_def)
  from server.decode_requests [OF this become(1) assms(3) v(2,1,3,4), where j = j] obtain w' v' where
    w': "deliver_all (handler_client (server_traits j)) ms w = Inr w'" "server_ready w'" "v' = UNSET \<or> v' = HTTP11"
    and decoded: "codec_decode (handler_client (server_traits j)) (concat (map (wire_text \<circ> sent_request) qs)) (hd_decoder w) w
      = Inr (True, (hd_decoder w)\<lparr>de_impl := idle_impl v'\<rparr>, w')"
    unfolding map_map by blast
  have run: "hd_on_read (server_traits j) (concat (map (wire_text \<circ> sent_request) qs)) w
      = Inr (True, w'\<lparr>hd_decoder := (hd_decoder w)\<lparr>de_impl := idle_impl v'\<rparr>\<rparr>)"
    by (simp add: hd_on_read_def decoded)
  show ?thesis
    using e' run server_delivers_all [OF assms(3), of j ms] w' v(3,4) become(2-5) unfolding become(5)
    by (auto simp: server_ready_def idle_decoder_def)
qed


definition sample_upload :: http_request where
  "sample_upload = http_structured_data.extend
     (sample_message\<lparr>sd_headers := [(hf_connection, hv_connection_close), (''host'', ''h''), (hf_transfer_encoding, hv_chunked)],
        sd_chunked := True\<rparr>)
     (http_request.fields False HTTP_POST [] [] [] [] [] [] [] Map.empty)"

definition sample_requests :: "(http_request \<times> string list) list" where
  "sample_requests = [(sample_request, []), (sample_upload, [''ab'', [], ''c''])]"

definition sample_server :: "(http_response, request, http_request) handler_http1" where
  "sample_server = sample_connection\<lparr>hd_request_cb := True\<rparr>"

lemma sample_names: "ordinary_name ''cookie''" "ordinary_name ''host''"
proof -
  have "map tokens ''cookie'' = ''cookie''" "map tokens ''host'' = ''host''"
    by (simp_all add: tokens_def IS_ALPHA_def LOWER_def)
  then show "ordinary_name ''cookie''" "ordinary_name ''host''"
    by (simp_all add: ordinary_name_def special_names_def)
qed

lemma sample_values: "plain_value ''a=1; b=2''" "plain_value ''h''"
proof -
  have "list_all (\<lambda>c. IS_HEADER_CHAR c \<and> \<not> is_eol c) ''a=1; b=2''" "list_all (\<lambda>c. IS_HEADER_CHAR c \<and> \<not> is_eol c) ''h''"
    by code_simp+
  then show "plain_value ''a=1; b=2''" "plain_value ''h''" by (simp_all add: plain_value_def HTTP_MAX_HEADER_SIZE_def)
qed

lemmas framing_names_values = field_framing_def hf_connection_def hf_transfer_encoding_def hf_content_len_def hv_keepalive_def
  hv_connection_close_def hv_chunked_def

lemmas wire_ok_texts = wire_ok_def wire_flags_def framed_def target_text_def head_text_def fields_text_def max_uri_len_def
  HTTP_MAX_HEADER_SIZE_def space_def colon_space_def crlf_def version_text_def

lemma sample_request_sendable: "sendable (sample_request, [])"
proof -
  have parts: "sd_wf sample_request" "sd_headers sample_request \<noteq> []" "sd_protocol sample_request = HTTP11"
    "rq_method sample_request = HTTP_GET" "\<not> sd_chunked sample_request"
    "wire_fields sample_request = [(''content-length'', ''0''), (''cookie'', ''a=1; b=2''), (''host'', ''h'')]"
    "rq_path sample_request = ''/p''" "rq_query sample_request = ''q=1''" "rq_fragment sample_request = []"
    by code_simp+
  have "read_base 10 0 ''0'' = Some 0" "to_dec 0 = ''0''" by code_simp+
  then have framing: "fields_framing [(''content-length'', ''0''), (''cookie'', ''a=1; b=2''), (''host'', ''h'')] ({}, ULLONG_MAX)
      = Some ({F_CONTENTLENGTH}, 0)"
    using sample_names sample_values by (simp add: framing_names_values)
  have "target_ok ''/p'' ''q=1'' []" by code_simp
  with parts show ?thesis
    by (simp add: sendable_def sent_request_def wire_ok_texts framing del: fields_framing.simps)
qed

lemma sample_upload_sendable:
  assumes "list_all (\<lambda>b. length b \<le> 10 ^ 18) ds"
  shows "sendable (sample_upload, ds)"
proof -
  have parts: "sd_wf sample_upload" "sd_headers sample_upload \<noteq> []" "sd_protocol sample_upload = HTTP11"
    "rq_method sample_upload = HTTP_POST" "sd_chunked sample_upload"
    "wire_fields sample_upload = [(''connection'', ''close''), (''host'', ''h''), (''transfer-encoding'', ''Chunked'')]"
    "rq_path sample_upload = []" "rq_query sample_upload = []" "rq_fragment sample_upload = []"
    by code_simp+
  have framing: "fields_framing [(''connection'', ''close''), (''host'', ''h''), (''transfer-encoding'', ''Chunked'')] ({}, ULLONG_MAX)
      = Some ({F_CHUNKED, F_CONNECTION_CLOSE}, ULLONG_MAX)"
    using sample_names sample_values by (simp add: framing_names_values)
  have "target_ok slash [] []" by code_simp
  with parts show ?thesis
    using assms by (simp add: sendable_def sent_request_def wire_ok_texts slash_def framing del: fields_framing.simps)
qed

lemma sample_server_fields:
  "hd_events sample_server = []" "hd_next sample_server = 0" "hd_local_objects sample_server = []"
  "server_ready sample_server" "idle_decoder (hd_decoder sample_server)"
  by (simp_all add: sample_server_def sample_connection_def handler_http1_new_def connector.defs handler_http1.defs
      server_ready_def idle_decoder_def http_decoder_new_def idle_impl_def codec_impl_new_def codec_reset_def)


end
