(* ===== verification/Client_To_Server.thy ===== *)
theory Client_To_Server
  imports Request_Exchange
begin

text \<open>
  Both HTTP/1 handlers together: from the request objects that the user of a client fills in to
  the exchanges that the user of a server is given.
\<close>

section \<open>The objects of a client\<close>

text \<open>A request object of a client that holds a whole request without trailers.\<close>

definition complete_request :: "http_request \<times> string list \<Rightarrow> http_request local_object \<Rightarrow> bool" where
  "complete_request q l \<longleftrightarrow> lo_headers l = Some (fst q) \<and> lo_trailers l = [] \<and> lo_ended l
     \<and> snd q = (if lo_content l = [] then [] else [lo_content l])"

lemma complete_items:
  assumes "list_all2 complete_request qs ls"
  shows "ready_items ls = concat (map request_items qs)" "list_all lo_ended ls"
    "map (\<lambda>(r, ds). received_pieces (sd_chunked r) ds) qs = map snd qs"
  using assms
  by (induction rule: list_all2_induct) (auto simp: complete_request_def request_items_def items_def received_pieces_def)

section \<open>From one user to the other\<close>


text \<open>A client whose only request is an upload in chunks.\<close>

definition uploading_client :: "(http_request, client_response, http_response) handler_http1" where
  "uploading_client = sample_client\<lparr>hd_local_objects := [0],
     hd_locals := [0 \<mapsto> local_ccb (local_bcb ''abc'' (local_hcb sample_upload local_new))]\<rparr>"


end
