(* ===== verification/Multiplexer.thy ===== *)
theory Multiplexer
  imports Exchange
begin

text \<open>
  \<open>src/src/http/client/client_connection_multiplexer.h/.cpp\<close>: several handlers share one
  client connection and its single timer.  The timer runs at the greatest common divisor of the
  requested intervals and every handler fires at a multiple of it.  Counters are \<open>size_t\<close>;
  handlers are held by weak pointers, so a list entry may have no object.
\<close>

section \<open>State\<close>

record mux_handler =
  mh_ecb :: bool
  mh_tcb :: bool
  mh_periodicity :: size_t

definition mux_handler_new :: mux_handler where
  "mux_handler_new = \<lparr>mh_ecb = False, mh_tcb = False, mh_periodicity = 0\<rparr>"

datatype mux_event = Mux_timeout nat | Mux_error nat error_code | Mux_connection_closed

record multiplexer =
  mx_handlers_list :: "nat list"
  mx_heap :: "nat \<rightharpoonup> mux_handler"
  mx_timeout_interval :: size_t
  mx_self_periodicity :: size_t
  mx_max_periodicity :: size_t
  mx_tick_count :: size_t
  mx_registered :: bool
  mx_connection_timer :: size_t
  mx_next :: nat
  mx_events :: "mux_event list"

definition multiplexer_new :: multiplexer where
  "multiplexer_new = \<lparr>mx_handlers_list = [], mx_heap = Map.empty, mx_timeout_interval = 0,
     mx_self_periodicity = 1, mx_max_periodicity = 1, mx_tick_count = 0, mx_registered = False,
     mx_connection_timer = 0, mx_next = 0, mx_events = []\<rparr>"

section \<open>Operations\<close>

definition mux_init :: "multiplexer \<Rightarrow> multiplexer" where
  "mux_init x = x\<lparr>mx_registered := True\<rparr>"

definition get_handler :: "multiplexer \<Rightarrow> nat \<times> multiplexer" where
  "get_handler x = (let n = mx_next x in
     (n, x\<lparr>mx_next := Suc n, mx_heap := (mx_heap x)(n \<mapsto> mux_handler_new),
           mx_handlers_list := mx_handlers_list x @ [n]\<rparr>))"

function GCD_t :: "size_t \<Rightarrow> size_t \<Rightarrow> size_t" where
  "GCD_t u v = (if v \<noteq> 0 then GCD_t v (u mod v) else u)"
  by pat_completeness auto
termination
proof (relation "measure (\<lambda>(u, v). unat v)")
  fix u v :: size_t
  assume "v \<noteq> 0"
  then have "unat u mod unat v < unat v" by (simp add: unat_gt_0)
  then show "((v, u mod v), (u, v)) \<in> measure (\<lambda>(u, v). unat v)"
    by (simp add: unat_mod_distrib)
qed simp

declare GCD_t.simps [simp del]

text \<open>
  The new interval is given in milliseconds as a signed 64-bit count.  Every live handler of the
  list is visited: one without a periodicity gets that of the new interval.
\<close>

definition new_periodicity :: "size_t \<Rightarrow> size_t \<Rightarrow> size_t \<Rightarrow> mux_handler \<Rightarrow> mux_handler" where
  "new_periodicity multiplier count interval h =
    (if mh_periodicity h = 0 then h\<lparr>mh_periodicity := count div interval\<rparr>
     else h\<lparr>mh_periodicity := mh_periodicity h * multiplier\<rparr>)"

definition update_handlers :: "(mux_handler \<Rightarrow> mux_handler) \<Rightarrow> nat list \<Rightarrow> (nat \<rightharpoonup> mux_handler) \<Rightarrow> (nat \<rightharpoonup> mux_handler)" where
  "update_handlers f ids h = fold (\<lambda>i h. case h i of None \<Rightarrow> h | Some s \<Rightarrow> h(i \<mapsto> f s)) ids h"

definition update_timeout :: "64 word \<Rightarrow> multiplexer \<Rightarrow> multiplexer result" where
  "update_timeout ms x =
    assert_that (0 <s ms)
      (let old = (if mx_timeout_interval x = 0 then ms else mx_timeout_interval x);
           count = ms
       in assert_that (count \<noteq> 0)
         (let interval = GCD_t count old;
              multiplier = old div interval
          in Inr (x\<lparr>mx_timeout_interval := interval,
                mx_self_periodicity := mx_self_periodicity x * multiplier,
                mx_tick_count := mx_tick_count x * multiplier,
                mx_max_periodicity := max (mx_max_periodicity x * multiplier) (count div interval),
                mx_heap := update_handlers (new_periodicity multiplier count interval)
                   (mx_handlers_list x) (mx_heap x),
                mx_connection_timer := interval\<rparr>)))"

text \<open>\<open>client_connection_handler\<close>: the handler registers its callback and forwards the interval.\<close>

definition handler_on_timeout :: "nat \<Rightarrow> 64 word \<Rightarrow> multiplexer \<Rightarrow> multiplexer result" where
  "handler_on_timeout i ms x = (case mx_heap x i of
     None \<Rightarrow> Inl Undefined_behaviour
   | Some h \<Rightarrow> update_timeout ms (x\<lparr>mx_heap := (mx_heap x)(i \<mapsto> h\<lparr>mh_tcb := True\<rparr>)\<rparr>))"

definition handler_on_error :: "nat \<Rightarrow> multiplexer \<Rightarrow> multiplexer" where
  "handler_on_error i x = x\<lparr>mx_heap := (mx_heap x)(i := map_option (\<lambda>h. h\<lparr>mh_ecb := True\<rparr>) (mx_heap x i))\<rparr>"

definition handler_timeout :: "nat \<Rightarrow> mux_handler \<Rightarrow> mux_event list" where
  "handler_timeout i h = (if mh_tcb h then [Mux_timeout i] else [])"

definition handler_error :: "error_code \<Rightarrow> nat \<Rightarrow> mux_handler \<Rightarrow> mux_event list" where
  "handler_error e i h = (if mh_ecb h then [Mux_error i e] else [])"

definition deregister_handlers :: "multiplexer \<Rightarrow> multiplexer" where
  "deregister_handlers x = x\<lparr>mx_registered := False, mx_connection_timer := 0\<rparr>"

definition clear_expired :: "multiplexer \<Rightarrow> multiplexer" where
  "clear_expired x =
    (let x = x\<lparr>mx_handlers_list := dropWhile (\<lambda>i. mx_heap x i = None) (mx_handlers_list x)\<rparr>
     in if mx_handlers_list x = [] then deregister_handlers x else x)"

definition fires :: "size_t \<Rightarrow> (nat \<rightharpoonup> mux_handler) \<Rightarrow> nat \<Rightarrow> mux_event list" where
  "fires tick heap i = (case heap i of
     None \<Rightarrow> []
   | Some s \<Rightarrow> if mh_periodicity s \<noteq> 0 \<and> tick mod mh_periodicity s = 0 then handler_timeout i s else [])"

definition mux_timeout :: "multiplexer \<Rightarrow> multiplexer" where
  "mux_timeout x =
    (let x = x\<lparr>mx_tick_count := mx_tick_count x + 1\<rparr>;
         x = x\<lparr>mx_events := mx_events x
           @ concat (map (fires (mx_tick_count x) (mx_heap x)) (mx_handlers_list x))\<rparr>
     in clear_expired x)"

definition broadcast_error :: "error_code \<Rightarrow> multiplexer \<Rightarrow> multiplexer" where
  "broadcast_error e x = x\<lparr>mx_events := mx_events x
     @ concat (map (\<lambda>i. case mx_heap x i of None \<Rightarrow> [] | Some h \<Rightarrow> handler_error e i h) (mx_handlers_list x))\<rparr>"

text \<open>What the connection calls while the multiplexer is registered.\<close>

definition mux_connection_error :: "error_code \<Rightarrow> multiplexer \<Rightarrow> multiplexer" where
  "mux_connection_error e x = (if mx_registered x
     then deregister_handlers ((broadcast_error e x)\<lparr>mx_handlers_list := []\<rparr>) else x)"

definition mux_request_sent :: "multiplexer \<Rightarrow> multiplexer" where
  "mux_request_sent x = (if mx_registered x then clear_expired x else x)"

definition mux_close :: "multiplexer \<Rightarrow> multiplexer" where
  "mux_close x = (let x = deregister_handlers (broadcast_error Connection_closed x)
     in x\<lparr>mx_events := mx_events x @ [Mux_connection_closed]\<rparr>)"

section \<open>Lemmas\<close>

lemma unat_GCD_t: "unat (GCD_t u v) = gcd (unat u) (unat v)"
proof (induction u v rule: GCD_t.induct)
  case (1 u v)
  then show ?case
    by (subst GCD_t.simps) (simp add: unat_mod_distrib gcd_red_nat [of "unat u" "unat v"] unat_eq_zero)
qed

text \<open>Each entry of the list is visited once, so a distinct list is a pointwise update.\<close>

lemma update_handlers_distinct:
  "distinct ids \<Longrightarrow> update_handlers f ids h i = (if i \<in> set ids then map_option f (h i) else h i)"
  unfolding update_handlers_def
  by (induction ids arbitrary: h) (auto split: option.splits)

text \<open>The exact quotient of a word by a divisor of its value.\<close>

lemma unat_div_mult:
  fixes a b :: size_t
  assumes "unat b dvd unat a"
  shows "unat (a div b) * unat b = unat a"
  using assms by (simp add: unat_div_distrib)

text \<open>
  Every handler with a periodicity fires at its own interval: \<open>want i\<close> is the interval in
  milliseconds that handler \<open>i\<close> asked for.
\<close>

definition on_schedule :: "(nat \<Rightarrow> nat) \<Rightarrow> multiplexer \<Rightarrow> nat \<Rightarrow> bool" where
  "on_schedule want x i \<longleftrightarrow> (case mx_heap x i of
     None \<Rightarrow> True
   | Some h \<Rightarrow> mh_periodicity h \<noteq> 0 \<and> mx_timeout_interval x \<noteq> 0
       \<and> unat (mh_periodicity h) * unat (mx_timeout_interval x) = want i)"

definition unscheduled :: "multiplexer \<Rightarrow> nat \<Rightarrow> bool" where
  "unscheduled x i \<longleftrightarrow> (case mx_heap x i of None \<Rightarrow> True | Some h \<Rightarrow> mh_periodicity h = 0)"

text \<open>Refining the interval rescales a periodicity without overflow.\<close>

lemma rescale:
  fixes p old interval :: size_t
  assumes "unat interval dvd unat old" "unat p * unat old = w" "w < 2 ^ 64" "unat interval \<noteq> 0"
  shows "unat (p * (old div interval)) * unat interval = w"
proof -
  let ?q = "old div interval"
  have q: "unat ?q * unat interval = unat old" using unat_div_mult [OF assms(1)] .
  have "unat p * unat ?q \<le> unat p * unat ?q * unat interval" using assms(4) by simp
  also have "\<dots> = w" using q assms(2) by (simp add: mult.assoc)
  finally have "unat p * unat ?q < 2 ^ 64" using assms(3) by simp
  then have "unat (p * ?q) = unat p * unat ?q"
    by (simp add: unat_word_ariths)
  then show ?thesis using q assms(2) by (simp add: mult.assoc)
qed


text \<open>The interval that serves both the old and the new request.\<close>

lemma common_interval:
  fixes ms old :: size_t
  assumes "ms \<noteq> 0"
  shows "GCD_t ms old \<noteq> 0" "unat (GCD_t ms old) dvd unat ms" "unat (GCD_t ms old) dvd unat old"
  using assms by (auto simp: unat_GCD_t simp flip: unat_eq_zero)

lemma exact_quotient:
  fixes a b :: size_t
  assumes "unat b dvd unat a" "a \<noteq> 0"
  shows "a div b \<noteq> 0"
  using unat_div_mult [OF assms(1)] assms(2) by (metis mult_zero_left unat_0 unat_eq_zero)

lemma handler_on_timeout_eq:
  fixes ms :: size_t
  assumes "0 <s ms" "mx_heap x i = Some h"
  defines "old \<equiv> if mx_timeout_interval x = 0 then ms else mx_timeout_interval x"
  shows "\<exists>x'. handler_on_timeout i ms x = Inr x'
    \<and> mx_timeout_interval x' = GCD_t ms old \<and> mx_handlers_list x' = mx_handlers_list x
    \<and> mx_heap x' = update_handlers (new_periodicity (old div GCD_t ms old) ms (GCD_t ms old))
       (mx_handlers_list x) ((mx_heap x)(i \<mapsto> h\<lparr>mh_tcb := True\<rparr>))"
proof -
  have "ms \<noteq> 0" using assms(1) by auto
  then show ?thesis
    using assms by (simp add: handler_on_timeout_def update_timeout_def Let_def)
qed

lemma scheduled_after_update:
  fixes ms old :: size_t
  assumes "ms \<noteq> 0" "old = (if interval = 0 then ms else interval)"
  assumes "mh_periodicity h \<noteq> 0 \<Longrightarrow>
    interval \<noteq> 0 \<and> unat (mh_periodicity h) * unat interval = w \<and> w < 2 ^ 64"
  defines "p \<equiv> mh_periodicity (new_periodicity (old div GCD_t ms old) ms (GCD_t ms old) h)"
  shows "unat p * unat (GCD_t ms old) = (if mh_periodicity h = 0 then unat ms else w)" "p \<noteq> 0"
proof -
  note ci = common_interval [OF assms(1), of old]
  have nz: "unat (GCD_t ms old) \<noteq> 0" using ci(1) by (simp add: unat_eq_zero)
  show *: "unat p * unat (GCD_t ms old) = (if mh_periodicity h = 0 then unat ms else w)"
  proof (cases "mh_periodicity h = 0")
    case True
    then show ?thesis using unat_div_mult [OF ci(2)] by (simp add: p_def new_periodicity_def)
  next
    case False
    then show ?thesis using rescale [OF ci(3) _ _ nz, of "mh_periodicity h" w] assms(2,3)
      by (simp add: p_def new_periodicity_def)
  qed
  have "(if mh_periodicity h = 0 then unat ms else w) \<noteq> 0"
    using assms(1,3) by (auto simp: unat_gt_0 simp flip: word_neq_0_conv)
  with * show "p \<noteq> 0" by (metis mult_zero_left unat_0)
qed

section \<open>What the multiplexer guarantees\<close>

text \<open>
  C25: the loop \<open>GCD\<close> on 64-bit words returns, and its result is the greatest common divisor.
\<close>

theorem gcd_loop_correct: "unat (GCD_t u v) = gcd (unat u) (unat v)"
  by (rule unat_GCD_t)

text \<open>
  C23: refining the shared timer keeps every handler on its own interval, exactly and without
  overflow, whatever the new interval is.  A handler that had no periodicity yet gets the new
  interval, whether or not it is the one that asked; one that had keeps its old interval, also
  when it is the one that asks for another.
\<close>

theorem shared_timer:
  fixes ms :: "64 word"
  assumes "0 <s ms" "mx_heap x i = Some h" "distinct (mx_handlers_list x)"
    and "\<forall>k\<in>set (mx_handlers_list x). unscheduled x k \<or> on_schedule want x k \<and> want k < 2 ^ 64"
  shows "\<exists>x'. handler_on_timeout i ms x = Inr x' \<and> mx_handlers_list x' = mx_handlers_list x
    \<and> (\<forall>k\<in>set (mx_handlers_list x).
         on_schedule (\<lambda>k. if unscheduled x k then unat ms else want k) x' k)"
proof -
  define old where "old = (if mx_timeout_interval x = 0 then ms else mx_timeout_interval x)"
  have ms: "ms \<noteq> 0" using assms(1) by auto
  obtain x' where x': "handler_on_timeout i ms x = Inr x'"
    "mx_timeout_interval x' = GCD_t ms old" "mx_handlers_list x' = mx_handlers_list x"
    "mx_heap x' = update_handlers (new_periodicity (old div GCD_t ms old) ms (GCD_t ms old))
       (mx_handlers_list x) ((mx_heap x)(i \<mapsto> h\<lparr>mh_tcb := True\<rparr>))"
    using handler_on_timeout_eq [OF assms(1,2)] unfolding old_def by metis
  have "on_schedule (\<lambda>k. if unscheduled x k then unat ms else want k) x' k"
    if k: "k \<in> set (mx_handlers_list x)" for k
  proof (cases "mx_heap x k")
    case None
    then show ?thesis using x'(4) k assms(2,3)
      by (auto simp: on_schedule_def update_handlers_distinct)
  next
    case (Some g)
    have "(case mx_heap x' k of None \<Rightarrow> False | Some g' \<Rightarrow> mh_periodicity g'
        = mh_periodicity (new_periodicity (old div GCD_t ms old) ms (GCD_t ms old) g))"
      using x'(4) k Some assms(2,3) by (auto simp: update_handlers_distinct new_periodicity_def)
    moreover have "mh_periodicity g \<noteq> 0 \<Longrightarrow> mx_timeout_interval x \<noteq> 0
        \<and> unat (mh_periodicity g) * unat (mx_timeout_interval x) = want k \<and> want k < 2 ^ 64"
      using assms(4) k Some by (auto simp: on_schedule_def unscheduled_def)
    note scheduled_after_update [OF ms old_def this]
    ultimately show ?thesis using x'(2) Some common_interval(1) [OF ms, of old]
      by (auto simp: on_schedule_def unscheduled_def split: option.splits)
  qed
  then show ?thesis using x'(1,3) by blast
qed


theorem shared_timer_witness:
  "\<exists>x'. handler_on_timeout 1 600 (\<lparr>mx_handlers_list = [0, 1, 2], mx_heap =
       [0 \<mapsto> \<lparr>mh_ecb = False, mh_tcb = True, mh_periodicity = 1\<rparr>, 1 \<mapsto> mux_handler_new],
     mx_timeout_interval = 500, mx_self_periodicity = 1, mx_max_periodicity = 1, mx_tick_count = 3,
     mx_registered = True, mx_connection_timer = 500, mx_next = 2, mx_events = []\<rparr>) = Inr x'
   \<and> on_schedule (\<lambda>k. if k = 0 then 500 else 600) x' 0
   \<and> on_schedule (\<lambda>k. if k = 0 then 500 else 600) x' 1"
  using shared_timer [of 600 "\<lparr>mx_handlers_list = [0, 1, 2], mx_heap =
       [0 \<mapsto> \<lparr>mh_ecb = False, mh_tcb = True, mh_periodicity = 1\<rparr>, 1 \<mapsto> mux_handler_new],
     mx_timeout_interval = 500, mx_self_periodicity = 1, mx_max_periodicity = 1, mx_tick_count = 3,
     mx_registered = True, mx_connection_timer = 500, mx_next = 2, mx_events = []\<rparr>"
     1 mux_handler_new "\<lambda>k. 500"]
  by (fastforce simp: unscheduled_def on_schedule_def mux_handler_new_def word_sless_alt split: option.splits)

text \<open>Ticks of the shared timer.\<close>

abbreviation ticks :: "nat \<Rightarrow> multiplexer \<Rightarrow> multiplexer" where
  "ticks n x \<equiv> (mux_timeout ^^ n) x"

lemma mux_timeout_frame [simp]:
  "mx_heap (mux_timeout x) = mx_heap x"
  "mx_tick_count (mux_timeout x) = mx_tick_count x + 1"
  "mx_timeout_interval (mux_timeout x) = mx_timeout_interval x"
  "mx_handlers_list (mux_timeout x) = dropWhile (\<lambda>i. mx_heap x i = None) (mx_handlers_list x)"
  "mx_events (mux_timeout x) = mx_events x
     @ concat (map (fires (mx_tick_count x + 1) (mx_heap x)) (mx_handlers_list x))"
  by (simp_all add: mux_timeout_def clear_expired_def deregister_handlers_def Let_def)

lemma ticks_frame [simp]:
  "mx_heap (ticks n x) = mx_heap x"
  "mx_tick_count (ticks n x) = mx_tick_count x + of_nat n"
  "mx_timeout_interval (ticks n x) = mx_timeout_interval x"
  by (induction n) (simp_all add: algebra_simps)

text \<open>The removal of expired handlers never takes a live one.\<close>

lemma live_stays:
  assumes "i \<in> set (mx_handlers_list x)" "mx_heap x i \<noteq> None"
  shows "i \<in> set (mx_handlers_list (ticks n x))"
proof (induction n)
  case (Suc n)
  have "i \<in> set xs \<Longrightarrow> \<not> P i \<Longrightarrow> i \<in> set (dropWhile P xs)"
    for P xs by (induction xs) auto
  with Suc assms(2) show ?case by simp
qed (use assms in simp)

lemma ticks_events_mono: "\<exists>es. mx_events (ticks (m + n) x) = mx_events (ticks m x) @ es"
  by (induction n) auto

lemma unat_size_t: "n < 2 ^ 64 \<Longrightarrow> unat (of_nat n :: size_t) = n"
  by (simp add: unat_of_nat take_bit_nat_eq_self)

lemma fires_at:
  assumes "mx_heap x i = Some h" "mh_tcb h" "on_schedule want x i"
  shows "Mux_timeout i \<in> set (fires t (mx_heap x) i)
     \<longleftrightarrow> want i dvd unat t * unat (mx_timeout_interval x)"
proof -
  have h: "mh_periodicity h \<noteq> 0" "mx_timeout_interval x \<noteq> 0"
    "unat (mh_periodicity h) * unat (mx_timeout_interval x) = want i"
    using assms(1,3) by (simp_all add: on_schedule_def)
  have "t mod mh_periodicity h = 0 \<longleftrightarrow> unat (mh_periodicity h) dvd unat t"
    by (simp add: dvd_eq_mod_eq_0 flip: unat_eq_zero unat_mod_distrib)
  moreover have "unat (mx_timeout_interval x) \<noteq> 0" using h(2) by (simp add: unat_eq_zero)
  ultimately show ?thesis using h assms(1,2)
    by (auto simp: fires_def handler_timeout_def simp flip: h(3))
qed

text \<open>
  C24: a live handler with a callback that is on schedule is called within its interval: from any
  state, after as many ticks as its periodicity counts (its interval in units of the shared
  timer), its callback has run at least once, and it ran at an instant divisible by its interval.
\<close>

theorem handler_is_called:
  assumes "i \<in> set (mx_handlers_list x)" "mx_heap x i = Some h" "mh_tcb h" "on_schedule want x i"
    and "unat (mx_tick_count x) + unat (mh_periodicity h) < 2 ^ 64"
  shows "\<exists>n es. n < unat (mh_periodicity h)
     \<and> want i dvd (unat (mx_tick_count x) + Suc n) * unat (mx_timeout_interval x)
     \<and> mx_events (ticks (unat (mh_periodicity h)) x) = mx_events (ticks n x) @ es
     \<and> Mux_timeout i \<in> set es"
proof -
  define p where "p = unat (mh_periodicity h)"
  define t where "t = unat (mx_tick_count x)"
  have p0: "p > 0" using assms(2,4) by (simp add: p_def on_schedule_def unat_gt_0)
  define n where "n = p - 1 - t mod p"
  have n: "n < p" using p0 by (simp add: n_def)
  have "t + Suc n = p * (t div p) + p"
  proof -
    have "t mod p < p" using p0 by simp
    then have "t mod p + Suc n = p" unfolding n_def by simp
    then show ?thesis using mult_div_mod_eq [of p t] by linarith
  qed
  then have dvd: "p dvd t + Suc n" by (metis dvd_add dvd_refl dvd_triv_left)
  have pw: "p * unat (mx_timeout_interval x) = want i"
    using assms(2,4) by (simp add: p_def on_schedule_def)
  then have wdvd: "want i dvd (t + Suc n) * unat (mx_timeout_interval x)"
    using dvd by (metis mult_dvd_mono dvd_refl)
  have "t + Suc n < 2 ^ 64" using assms(5) n by (simp add: t_def p_def)
  then have "unat (of_nat (t + Suc n) :: size_t) = t + Suc n"
    by (rule unat_size_t)
  moreover have "mx_tick_count x + of_nat n + 1 = of_nat (t + Suc n)" by (simp add: t_def)
  ultimately have tick: "unat (mx_tick_count x + of_nat n + 1) = t + Suc n"
    by (simp only:)
  have sch: "on_schedule want (ticks n x) i" using assms(2,4) by (simp add: on_schedule_def)
  have "Mux_timeout i \<in> set (fires (mx_tick_count x + of_nat n + 1) (mx_heap x) i)"
    using fires_at [of "ticks n x" i h want] assms(2,3) sch wdvd tick by simp
  moreover have "i \<in> set (mx_handlers_list (ticks n x))" using live_stays assms(1,2) by simp
  ultimately have "\<exists>es. mx_events (ticks (Suc n) x) = mx_events (ticks n x) @ es \<and> Mux_timeout i \<in> set es"
    by auto
  then obtain es where es: "mx_events (ticks (Suc n) x) = mx_events (ticks n x) @ es" "Mux_timeout i \<in> set es"
    by blast
  obtain es' where "mx_events (ticks (Suc n + (p - Suc n)) x) = mx_events (ticks (Suc n) x) @ es'"
    using ticks_events_mono by blast
  then have "mx_events (ticks p x) = mx_events (ticks n x) @ es @ es'" using n es(1) by simp
  then show ?thesis using n wdvd es(2)
    by (intro exI [of _ n] exI [of _ "es @ es'"]) (simp add: p_def t_def)
qed


theorem handler_is_called_witness:
  "\<exists>n es. n < 3 \<and> 1500 dvd (4 + Suc n) * 500
   \<and> mx_events (ticks 3 (\<lparr>mx_handlers_list = [7], mx_heap =
       [7 \<mapsto> \<lparr>mh_ecb = False, mh_tcb = True, mh_periodicity = 3\<rparr>],
     mx_timeout_interval = 500, mx_self_periodicity = 1, mx_max_periodicity = 3, mx_tick_count = 4,
     mx_registered = True, mx_connection_timer = 500, mx_next = 8, mx_events = []\<rparr>))
     = mx_events (ticks n (\<lparr>mx_handlers_list = [7], mx_heap =
       [7 \<mapsto> \<lparr>mh_ecb = False, mh_tcb = True, mh_periodicity = 3\<rparr>],
     mx_timeout_interval = 500, mx_self_periodicity = 1, mx_max_periodicity = 3, mx_tick_count = 4,
     mx_registered = True, mx_connection_timer = 500, mx_next = 8, mx_events = []\<rparr>)) @ es
   \<and> Mux_timeout 7 \<in> set es"
  using handler_is_called [of 7 "\<lparr>mx_handlers_list = [7], mx_heap =
       [7 \<mapsto> \<lparr>mh_ecb = False, mh_tcb = True, mh_periodicity = 3\<rparr>],
     mx_timeout_interval = 500, mx_self_periodicity = 1, mx_max_periodicity = 3, mx_tick_count = 4,
     mx_registered = True, mx_connection_timer = 500, mx_next = 8, mx_events = []\<rparr>"
     "\<lparr>mh_ecb = False, mh_tcb = True, mh_periodicity = 3\<rparr>" "\<lambda>_. 1500"]
  by (simp add: on_schedule_def del: ticks_frame mux_timeout_frame)

end
