(* ===== verification/H2_Body.thy ===== *)
theory H2_Body
  imports Exchange
begin

text \<open>
  What the streams of HTTP/2 share: the vocabulary of the library nghttp2 they talk to, and the
  outgoing half of a message.  \<open>src/src/http2/stream.h\<close> and \<open>stream_client.h\<close> declare
  the same members for it and the two source files the same helper functions; the record
  \<open>h2_out\<close> holds these members and both kinds of stream extend it.  The body is the list of
  pieces the user has written, with an index into the first of them; the library takes it through
  \<open>data_source_read_callback\<close>, whose two versions differ.
\<close>

section \<open>The library\<close>

text \<open>
  nghttp2 is not part of the repository.  A frame is what the callbacks read of it; a request is a
  call the code makes, and an answer what a callback hands back.
\<close>

datatype frame_type = Frame_data | Frame_headers | Frame_other

datatype headers_category = HCAT_REQUEST | HCAT_RESPONSE | HCAT_PUSH_RESPONSE | HCAT_HEADERS

record frame =
  fr_type :: frame_type
  fr_stream_id :: int
  fr_cat :: headers_category
  fr_flags :: "8 word"

definition FLAG_END_STREAM :: "8 word" where
  "FLAG_END_STREAM = 1"

definition end_stream_flag :: "frame \<Rightarrow> bool" where
  "end_stream_flag f \<longleftrightarrow> and (fr_flags f) FLAG_END_STREAM \<noteq> 0"

datatype settings_id = SETTINGS_MAX_CONCURRENT_STREAMS | SETTINGS_ENABLE_PUSH

type_synonym nv = "string \<times> string"

datatype ng_request = Submit_settings "(settings_id \<times> 32 word) list"
  | Submit_response int "nv list" nat
  | Submit_request "nv list" nat
  | Submit_headers int "nv list"
  | Submit_trailer int "nv list"
  | Resume_data int
  | Submit_goaway int
  | Submit_rst_stream int
  | Set_user_data int nat

datatype data_flag = DATA_FLAG_EOF | DATA_FLAG_NO_END_STREAM

datatype ng_answer = Answer int | Answer_data string "data_flag set"

definition NGHTTP2_ERR_DEFERRED :: int where "NGHTTP2_ERR_DEFERRED = -508"
definition NGHTTP2_ERR_FLOODED :: int where "NGHTTP2_ERR_FLOODED = -904"
definition NGHTTP2_ERR_CALLBACK_FAILURE :: int where "NGHTTP2_ERR_CALLBACK_FAILURE = -902"

section \<open>The outgoing half of a stream\<close>

record h2_out =
  so_id :: int
  so_headers_sent :: bool
  so_body_sent :: bool
  so_resume_needed :: bool
  so_eof :: bool
  so_errored :: bool
  so_closed :: bool
  so_body :: "string list"
  so_body_index :: nat
  so_nva :: "nv list option"
  so_nvlen :: nat
  so_trailers :: "(string, string) mmap"
  so_trailers_nva :: "nv list option"
  so_trailers_nvlen :: nat
  so_prepared_headers :: "(string, string) mmap"

definition has_trailers :: "'a h2_out_scheme \<Rightarrow> bool" where
  "has_trailers s \<longleftrightarrow> length (so_trailers s) > 0"

definition body_empty :: "'a h2_out_scheme \<Rightarrow> bool" where
  "body_empty s \<longleftrightarrow> length (so_body s) = 0
     \<or> length (so_body s) = 1 \<and> length (hd (so_body s)) = so_body_index s"

definition stream_defer :: "'a h2_out_scheme \<Rightarrow> bool" where
  "stream_defer s \<longleftrightarrow> \<not> so_eof s \<and> \<not> has_trailers s \<and> body_empty s"

fun body_length_loop :: "nat \<Rightarrow> nat \<Rightarrow> bool \<Rightarrow> string list \<Rightarrow> nat" where
  "body_length_loop index r first [] = r"
| "body_length_loop index r first (chunk # chunks) =
    (let r = r + length chunk in
     if first then body_length_loop index (r - index) False chunks
     else body_length_loop index r False chunks)"

definition body_length :: "'a h2_out_scheme \<Rightarrow> nat" where
  "body_length s = body_length_loop (so_body_index s) 0 True (so_body s)"

definition is_last_frame :: "nat \<Rightarrow> 'a h2_out_scheme \<Rightarrow> bool" where
  "is_last_frame n s \<longleftrightarrow> so_eof s \<and> \<not> has_trailers s \<and> body_length s = n"

definition body_eof :: "'a h2_out_scheme \<Rightarrow> bool" where
  "body_eof s \<longleftrightarrow> body_empty s \<and> (so_eof s \<or> has_trailers s)"

text \<open>Copying from the first piece, which is dropped once it is used up.\<close>

definition take_chunk :: "nat \<Rightarrow> 'a h2_out_scheme \<Rightarrow> string \<times> 'a h2_out_scheme" where
  "take_chunk n s =
    (let first = hd (so_body s);
         len = length first - so_body_index s;
         r = min len n;
         bytes = take r (drop (so_body_index s) first);
         s = s\<lparr>so_body_index := so_body_index s + r\<rparr>
     in (bytes, if so_body_index s = length first
                then s\<lparr>so_body := tl (so_body s), so_body_index := 0\<rparr> else s))"

definition data_source_read_callback :: "nat \<Rightarrow> 'a h2_out_scheme \<Rightarrow> ng_answer \<times> 'a h2_out_scheme" where
  "data_source_read_callback n s =
    (if stream_defer s then (Answer NGHTTP2_ERR_DEFERRED, s\<lparr>so_resume_needed := True\<rparr>)
     else (let flags = (if has_trailers s then {DATA_FLAG_NO_END_STREAM} else {});
               (bytes, s) = (if \<not> body_empty s then take_chunk n s else ([], s))
           in if body_eof s \<or> is_last_frame n s
              then (Answer_data bytes (insert DATA_FLAG_EOF flags), s\<lparr>so_body_sent := True\<rparr>)
              else (Answer_data bytes flags, s)))"

text \<open>The client's version decides on the end before it takes the bytes.\<close>

definition client_data_source_read_callback ::
  "nat \<Rightarrow> 'a h2_out_scheme \<Rightarrow> ng_answer \<times> 'a h2_out_scheme" where
  "client_data_source_read_callback n s =
    (if stream_defer s then (Answer NGHTTP2_ERR_DEFERRED, s\<lparr>so_resume_needed := True\<rparr>)
     else (let eof = (body_eof s \<or> is_last_frame n s);
               s = (if eof then s\<lparr>so_body_sent := True\<rparr> else s);
               flags = (if eof then {DATA_FLAG_EOF} else {}) \<union> (if has_trailers s then {DATA_FLAG_NO_END_STREAM} else {})
           in if body_empty s then (Answer_data [] flags, s)
              else (let (bytes, s) = take_chunk n s in (Answer_data bytes flags, s))))"

section \<open>The header block\<close>

text \<open>
  Headers of the same name are joined into one: the new entry is added and the one found is
  erased.
\<close>

fun prepare_headers :: "(string \<times> string) list \<Rightarrow> (string, string) mmap \<Rightarrow> (string, string) mmap" where
  "prepare_headers [] m = m"
| "prepare_headers (h # hs) m =
    (case mm_find (fst h) m of
       Some found \<Rightarrow> prepare_headers hs (remove1 found (mm_insert (fst h) (snd found @ '', '' @ snd h) m))
     | None \<Rightarrow> prepare_headers hs (mm_insert (fst h) (snd h) m))"

definition connection_header :: "string \<times> string \<Rightarrow> bool" where
  "connection_header h \<longleftrightarrow> icompare (fst h) ''connection'' \<or> icompare (fst h) ''keep-alive''
     \<or> icompare (fst h) ''upgrade'' \<or> icompare (fst h) ''proxy-connection''"

definition client_connection_header :: "string \<times> string \<Rightarrow> bool" where
  "client_connection_header h \<longleftrightarrow> icompare (fst h) ''connection'' \<or> icompare (fst h) ''keep-alive''
     \<or> icompare (fst h) ''host'' \<or> icompare (fst h) ''upgrade'' \<or> icompare (fst h) ''proxy-connection''"

definition trailers_encoding ::
  "'a http_structured_data_scheme \<Rightarrow> 'a http_structured_data_scheme result" where
  "trailers_encoding d =
    (if has ''transfer-encoding'' d
     then header ''transfer-encoding'' ''trailers'' (remove_header ''transfer-encoding'' d)
     else Inr d)"

text \<open>
  The array is allocated for \<open>nvlen\<close> entries, whatever is written to it afterwards; writing
  behind its end is undefined.
\<close>

definition fill_headers :: "nat \<Rightarrow> nv list \<Rightarrow> nv list result" where
  "fill_headers nvlen entries = (if length entries \<le> nvlen then Inr entries else Inl Undefined_behaviour)"

section \<open>The queue of bytes\<close>

text \<open>The index points into the first piece, or just behind it.\<close>

definition body_wf :: "'a h2_out_scheme \<Rightarrow> bool" where
  "body_wf s \<longleftrightarrow> (case so_body s of [] \<Rightarrow> so_body_index s = 0 | c # cs \<Rightarrow> so_body_index s \<le> length c)"

definition queued :: "'a h2_out_scheme \<Rightarrow> string" where
  "queued s = drop (so_body_index s) (concat (so_body s))"

text \<open>What bounds the number of reads: a byte or a piece less with each.\<close>

definition body_size :: "'a h2_out_scheme \<Rightarrow> nat" where
  "body_size s = length (queued s) + length (so_body s)"

lemma body_updates [simp]:
  "queued (s\<lparr>so_body_sent := b\<rparr>) = queued s" "queued (s\<lparr>so_resume_needed := b\<rparr>) = queued s"
  "body_wf (s\<lparr>so_body_sent := b\<rparr>) = body_wf s" "body_wf (s\<lparr>so_resume_needed := b\<rparr>) = body_wf s"
  "body_size (s\<lparr>so_body_sent := b\<rparr>) = body_size s" "body_eof (s\<lparr>so_body_sent := b\<rparr>) = body_eof s"
  "has_trailers (s\<lparr>so_body_sent := b\<rparr>) = has_trailers s" "body_empty (s\<lparr>so_body_sent := b\<rparr>) = body_empty s"
  by (simp_all add: queued_def body_wf_def body_size_def body_eof_def body_empty_def has_trailers_def
      split: list.splits)

lemma body_length_loop_False: "body_length_loop i r False cs = r + length (concat cs)"
  by (induction cs arbitrary: r) simp_all

lemma body_length_queued: "body_wf s \<Longrightarrow> body_length s = length (queued s)"
  by (cases "so_body s") (simp_all add: body_length_def body_length_loop_False queued_def body_wf_def)

lemma queued_empty: "body_wf s \<Longrightarrow> body_empty s \<Longrightarrow> queued s = []"
  by (cases "so_body s"; cases "tl (so_body s)") (simp_all add: body_empty_def queued_def)

lemma take_chunk_props:
  assumes "body_wf s" "\<not> body_empty s" "take_chunk n s = (bytes, s')"
  shows "bytes @ queued s' = queued s" "body_wf s'" "length bytes \<le> n"
    and "0 < n \<Longrightarrow> body_size s' < body_size s"
    and "so_eof s' = so_eof s" "so_trailers s' = so_trailers s"
proof (atomize (full), goal_cases)
  case 1
  obtain c cs where b: "so_body s = c # cs"
    using assms(2) by (cases "so_body s") (auto simp: body_empty_def)
  have le: "so_body_index s \<le> length c" using assms(1) b by (simp add: body_wf_def)
  let ?r = "min (length c - so_body_index s) n"
  show ?case
  proof (cases "so_body_index s + ?r = length c")
    case True
    then have all: "take ?r (drop (so_body_index s) c) = drop (so_body_index s) c"
      by (intro take_all) simp
    have "length c - so_body_index s \<le> n" using True le by linarith
    then show ?thesis
      using assms(3) b le True all
      by (auto simp: take_chunk_def Let_def queued_def body_wf_def body_size_def split: list.splits)
  next
    case False
    then have n: "?r = n" "so_body_index s + n < length c" using le by linarith+
    have "take n (drop (so_body_index s) c) @ drop (so_body_index s + n) c = drop (so_body_index s) c"
      by (metis add.commute append_take_drop_id drop_drop)
    then show ?thesis
      using assms(3) b n
      by (auto simp: take_chunk_def Let_def queued_def body_wf_def body_size_def min_def)
  qed
qed

text \<open>
  One read: what it hands out and what stays queued are the bytes that were queued; the end is
  announced when nothing is left to send, or when as much is left as was asked for.
\<close>

lemma read_callback_cases:
  assumes "body_wf s" "data_source_read_callback n s = (a, s')"
  obtains (deferred) "stream_defer s" "a = Answer NGHTTP2_ERR_DEFERRED" "s' = s\<lparr>so_resume_needed := True\<rparr>"
  | (read) bytes flags where "\<not> stream_defer s" "a = Answer_data bytes flags"
    "bytes @ queued s' = queued s" "body_wf s'" "length bytes \<le> n"
    "so_eof s' = so_eof s" "so_trailers s' = so_trailers s"
    "DATA_FLAG_NO_END_STREAM \<in> flags \<longleftrightarrow> has_trailers s"
    "DATA_FLAG_EOF \<in> flags \<longleftrightarrow> body_eof s' \<or> so_eof s \<and> \<not> has_trailers s \<and> length (queued s') = n"
    "body_empty s \<Longrightarrow> DATA_FLAG_EOF \<in> flags"
    "\<not> body_empty s \<Longrightarrow> 0 < n \<Longrightarrow> body_size s' < body_size s"
proof (cases "stream_defer s")
  case True
  then show ?thesis using assms(2) deferred by (simp add: data_source_read_callback_def)
next
  case False
  show ?thesis
  proof (cases "body_empty s")
    case True
    have eof: "body_eof s" using False True by (auto simp: stream_defer_def body_eof_def)
    have s': "a = Answer_data [] (insert DATA_FLAG_EOF (if has_trailers s then {DATA_FLAG_NO_END_STREAM} else {}))"
      "s' = s\<lparr>so_body_sent := True\<rparr>"
      using assms(2) False True eof by (simp_all add: data_source_read_callback_def split: if_splits)
    show ?thesis by (rule read [OF False s'(1)]) (use True eof assms(1) s'(2) in auto)
  next
    case ne: False
    obtain bytes t where t: "take_chunk n s = (bytes, t)" by (cases "take_chunk n s")
    note p = take_chunk_props [OF assms(1) ne t]
    define eof where "eof = (body_eof t \<or> is_last_frame n t)"
    define fl where "fl = (if has_trailers s then {DATA_FLAG_NO_END_STREAM} else {})"
    have s': "a = Answer_data bytes (if eof then insert DATA_FLAG_EOF fl else fl)"
      "s' = (if eof then t\<lparr>so_body_sent := True\<rparr> else t)"
      using assms(2) False ne t by (auto simp: data_source_read_callback_def eof_def fl_def)
    have same: "queued s' = queued t" "body_wf s' = body_wf t" "body_size s' = body_size t" "so_eof s' = so_eof t"
      "so_trailers s' = so_trailers t" "body_eof s' = body_eof t"
      using s'(2) by auto
    have last: "is_last_frame n t \<longleftrightarrow> so_eof s \<and> \<not> has_trailers s \<and> length (queued t) = n"
      using p(2,5,6) by (simp add: is_last_frame_def body_length_queued has_trailers_def)
    show ?thesis
      by (rule read [OF False s'(1)])
        (use p same last ne in \<open>auto simp: eof_def fl_def split: if_splits\<close>)
  qed
qed

lemma read_callback_smaller:
  assumes "body_wf s" "data_source_read_callback n s = (Answer_data bytes flags, s')" "DATA_FLAG_EOF \<notin> flags" "0 < n"
  shows "body_size s' < body_size s"
  using assms(1,2) by (cases rule: read_callback_cases) (use assms(3,4) in auto)

text \<open>
  The library reads until the end is announced or nothing is there to read.  With room for at
  least one byte this comes to an end.
\<close>

function drain :: "nat \<Rightarrow> 'a h2_out_scheme \<Rightarrow> string \<times> 'a h2_out_scheme" where
  "drain n s =
    (if n = 0 \<or> \<not> body_wf s then ([], s)
     else (case data_source_read_callback n s of
       (Answer r, s') \<Rightarrow> ([], s')
     | (Answer_data bytes flags, s') \<Rightarrow>
         if DATA_FLAG_EOF \<in> flags then (bytes, s')
         else (let (rest, s'') = drain n s' in (bytes @ rest, s''))))"
  by pat_completeness auto
termination
  by (relation "measure (\<lambda>(n, s). body_size s)") (auto dest: read_callback_smaller [OF _ sym])

declare drain.simps [simp del]

lemma drain_step:
  assumes "body_wf s" "0 < n" "data_source_read_callback n s = (Answer_data bytes flags, s')"
  shows "drain n s = (if DATA_FLAG_EOF \<in> flags then (bytes, s') else map_prod ((@) bytes) id (drain n s'))"
  using assms by (subst drain.simps) (simp add: case_prod_beta prod_eq_iff)

lemma drain_deferred:
  assumes "body_wf s" "0 < n" "stream_defer s"
  shows "drain n s = ([], s\<lparr>so_resume_needed := True\<rparr>)"
  using assms by (subst drain.simps) (simp add: data_source_read_callback_def)

text \<open>As long as more may follow, or trailers do, every queued byte is handed out, in order.\<close>

lemma drain_complete_aux:
  "body_wf s \<Longrightarrow> 0 < n \<Longrightarrow> \<not> so_eof s \<or> has_trailers s \<Longrightarrow>
   fst (drain n s) = queued s \<and> queued (snd (drain n s)) = []"
proof (induction n s rule: drain.induct)
  case (1 n s)
  obtain a s' where r: "data_source_read_callback n s = (a, s')" by (cases "data_source_read_callback n s")
  from "1.prems"(1) r show ?case
  proof (cases rule: read_callback_cases)
    case deferred
    then have "queued s = []" using "1.prems"(1) by (intro queued_empty) (simp_all add: stream_defer_def)
    then show ?thesis using drain_deferred [OF "1.prems"(1,2) deferred(1)] by simp
  next
    case (read bytes flags)
    note step = drain_step [OF "1.prems"(1,2) r [unfolded read(2)]]
    have trailers: "has_trailers s' = has_trailers s" using read(7) by (simp add: has_trailers_def)
    show ?thesis
    proof (cases "DATA_FLAG_EOF \<in> flags")
      case True
      then have "body_eof s'" using read(9) "1.prems"(3) by blast
      then have "queued s' = []" using read(4) by (intro queued_empty) (simp_all add: body_eof_def)
      then show ?thesis using step True read(3) by simp
    next
      case False
      then have "fst (drain n s') = queued s' \<and> queued (snd (drain n s')) = []"
        using "1.IH" [OF _ r [symmetric] read(2) False] "1.prems" read(4,6) trailers by simp
      then show ?thesis using step False read(3) by simp
    qed
  qed
qed

text \<open>
  Once the end is known and there are no trailers, the read that leaves as many bytes as were
  asked for announces the end too early.
\<close>

lemma drain_piece:
  "so_body s = [c] \<Longrightarrow> so_body_index s \<le> length c \<Longrightarrow> 0 < n \<Longrightarrow> so_eof s \<Longrightarrow> \<not> has_trailers s \<Longrightarrow>
   m = length c - so_body_index s \<Longrightarrow>
   fst (drain n s) = take (if n dvd m \<and> n < m then m - n else m) (drop (so_body_index s) c)"
proof (induction m arbitrary: s rule: less_induct)
  case (less m)
  let ?i = "so_body_index s"
  have wf: "body_wf s" using less.prems(1,2) by (simp add: body_wf_def)
  have nd: "\<not> stream_defer s" using less.prems(4) by (simp add: stream_defer_def)
  show ?case
  proof (cases "m \<le> n")
    case True
    obtain flags s' where r: "data_source_read_callback n s = (Answer_data (drop ?i c) (insert DATA_FLAG_EOF flags), s')"
      using nd less.prems True
      by (cases "length c = ?i")
        (auto simp: data_source_read_callback_def body_empty_def take_chunk_def body_eof_def)
    show ?thesis using drain_step [OF wf less.prems(3) r] True less.prems(6) by simp
  next
    case False
    then have lt: "?i + n < length c" using less.prems(6) by linarith
    define t where "t = s\<lparr>so_body_index := ?i + n\<rparr>"
    have tc: "take_chunk n s = (take n (drop ?i c), t)"
    proof -
      have "min (length c - ?i) n = n" using lt by simp
      then show ?thesis using less.prems(1) lt by (simp add: take_chunk_def t_def Let_def)
    qed
    have ne: "\<not> body_empty s" using less.prems(1) lt by (simp add: body_empty_def)
    have t: "so_body t = [c]" "so_body_index t = ?i + n" "so_eof t" "\<not> has_trailers t" "\<not> body_eof t"
      using less.prems lt by (simp_all add: t_def has_trailers_def body_eof_def body_empty_def)
    have len: "body_length t = m - n" using t(1,2) less.prems(6) by (simp add: body_length_def)
    have r: "data_source_read_callback n s = (if m - n = n then (Answer_data (take n (drop ?i c)) {DATA_FLAG_EOF}, t\<lparr>so_body_sent := True\<rparr>)
        else (Answer_data (take n (drop ?i c)) {}, t))"
      using nd ne tc t len less.prems(5) by (simp add: data_source_read_callback_def is_last_frame_def)
    show ?thesis
    proof (cases "m - n = n")
      case True
      then have m2: "m = n + n" using False by linarith
      have "n dvd m" "n < m" using less.prems(3) by (simp_all add: m2)
      then show ?thesis
        using drain_step [OF wf less.prems(3) r [unfolded if_P [OF True]]] True by simp
    next
      case ne2: False
      define x where "x = (if n dvd (m - n) \<and> n < m - n then m - n - n else m - n)"
      have dvd: "n dvd m - n \<longleftrightarrow> n dvd m" using False by (simp add: dvd_minus_self)
      have "n < m - n" if "n dvd m"
        using that False ne2 dvd by (meson dvd_imp_le not_le order_le_neq_trans zero_less_diff)
      then have y: "(if n dvd m \<and> n < m then m - n else m) = n + x" using dvd False by (auto simp: x_def)
      have "fst (drain n t) = take x (drop (?i + n) c)"
        using less.IH [of "m - n" t] t less.prems(3,6) False lt by (simp add: x_def)
      moreover have "fst (drain n s) = take n (drop ?i c) @ fst (drain n t)"
        using drain_step [OF wf less.prems(3) r [unfolded if_not_P [OF ne2]]] by simp
      ultimately show ?thesis by (simp only: y take_add drop_drop add.commute [of n ?i])
    qed
  qed
qed

section \<open>The block that is built\<close>

definition join_values :: "string list \<Rightarrow> string" where
  "join_values vs = (case vs of [] \<Rightarrow> [] | v # vs \<Rightarrow> v @ concat (map (\<lambda>x. '', '' @ x) vs))"

text \<open>At most one value for a name: the joined values of the headers of that name.\<close>

definition block_values :: "string \<Rightarrow> (string \<times> string) list \<Rightarrow> string list" where
  "block_values k es = (case mm_values k es of [] \<Rightarrow> [] | vs \<Rightarrow> [join_values vs])"

definition block_of :: "(string \<times> string) list \<Rightarrow> (string, string) mmap \<Rightarrow> bool" where
  "block_of es m \<longleftrightarrow> mm_inv m \<and> (\<forall>k. mm_values k m = block_values k es)"

lemma join_values_snoc: "vs \<noteq> [] \<Longrightarrow> join_values (vs @ [x]) = join_values vs @ '', '' @ x"
  by (cases vs) (simp_all add: join_values_def)

lemma block_values_snoc:
  "block_values k (es @ [h]) = (if k \<noteq> fst h then block_values k es
     else case block_values k es of [] \<Rightarrow> [snd h] | v # _ \<Rightarrow> [v @ '', '' @ snd h])"
  by (auto simp: block_values_def mm_equal_range_def join_values_snoc [unfolded append_Cons append_Nil]
      join_values_def split: list.splits)

lemma mm_erase_none: "mm_values k m = [] \<Longrightarrow> mm_erase k m = m"
  by (simp add: mm_equal_range_def mm_erase_def filter_empty_conv)

lemma remove1_insert:
  "mm_inv m \<Longrightarrow> mm_values k m = [v] \<Longrightarrow> w \<noteq> v \<Longrightarrow>
    remove1 (k, v) (mm_insert k w m) = mm_insert k w (mm_erase k m)"
proof (induction m)
  case (Cons e m)
  have inv: "mm_inv m" using Cons.prems(1) by (simp add: mm_inv_Cons)
  consider "fst e = k" | "fst e < k" | "k < fst e" by (meson linorder_less_linear)
  then show ?case
  proof cases
    case 1
    then have "e = (k, v)" "mm_values k m = []" using Cons.prems(2) by (auto simp: mm_equal_range_def)
    then show ?thesis using mm_erase_none [of k m] by (simp add: mm_erase_def)
  next
    case 2
    then have "mm_values k m = [v]" using Cons.prems(2) by (auto simp: mm_equal_range_def split: if_splits)
    then show ?thesis using Cons.IH inv Cons.prems(3) 2 by (auto simp: mm_erase_def)
  next
    case 3
    then have "filter (\<lambda>e. fst e = k) (e # m) = []"
      using Cons.prems(1) by (fastforce simp: mm_inv_Cons filter_empty_conv)
    then show ?thesis using Cons.prems(2) by (simp add: mm_equal_range_def)
  qed
qed (simp add: mm_equal_range_def)

lemma mm_find_block:
  assumes "block_of es m"
  shows "mm_find k m = (case block_values k es of [] \<Rightarrow> None | v # _ \<Rightarrow> Some (k, v))"
proof (cases "mm_find k m")
  case None
  then show ?thesis using assms mm_find_values [of k m] by (simp add: block_of_def split: list.splits)
next
  case (Some e)
  then have "fst e = k" by (auto simp: mm_find_def find_Some_iff)
  then show ?thesis using assms mm_find_values [of k m] Some
    by (cases e) (auto simp: block_of_def split: list.splits)
qed

lemma prepare_headers_block: "block_of es m \<Longrightarrow> block_of (es @ hs) (prepare_headers hs m)"
proof (induction hs arbitrary: es m)
  case (Cons h hs)
  have inv: "mm_inv m" using Cons.prems by (simp add: block_of_def)
  show ?case
  proof (cases "block_values (fst h) es")
    case Nil
    then have "block_of (es @ [h]) (mm_insert (fst h) (snd h) m)"
      using Cons.prems by (auto simp: block_of_def block_values_snoc values_insert mm_inv_insert)
    from Cons.IH [OF this] show ?thesis using Nil mm_find_block [OF Cons.prems, of "fst h"] by simp
  next
    case (Cons v vs)
    let ?w = "v @ '', '' @ snd h"
    have val: "block_values (fst h) es = [v]"
      using local.Cons by (auto simp: block_values_def split: list.splits)
    then have one: "mm_values (fst h) m = [v]" using Cons.prems by (simp add: block_of_def)
    have eq: "remove1 (fst h, v) (mm_insert (fst h) ?w m) = mm_insert (fst h) ?w (mm_erase (fst h) m)"
      by (rule remove1_insert [OF inv one]) simp
    have "block_of (es @ [h]) (mm_insert (fst h) ?w (mm_erase (fst h) m))"
      using Cons.prems inv val by (auto simp: block_of_def block_values_snoc values_insert mm_inv_insert mm_inv_erase)
    from Cons.IH [OF this] show ?thesis
      using val mm_find_block [OF Cons.prems, of "fst h"] by (simp add: eq [unfolded append_Cons append_Nil])
  qed
qed simp

lemma block_of_Nil: "block_of [] []"
  by (simp add: block_of_def block_values_def)

lemma block_of_single: "block_of [h] [h]"
  by (cases h) (auto simp: block_of_def block_values_def mm_equal_range_def join_values_def mm_inv_def)

text \<open>In such a block every name occurs once, in ascending order.\<close>

lemma block_of_distinct:
  assumes "block_of es m"
  shows "sorted (map fst m) \<and> distinct (map fst m)"
proof -
  have "distinct (map fst m)" if "\<forall>k. length (filter (\<lambda>e. fst e = k) m) \<le> 1" for m :: "(string, string) mmap"
    using that
  proof (induction m)
    case (Cons e m)
    have "fst e \<notin> fst ` set m"
      using Cons.prems [rule_format, of "fst e"] by (auto simp: filter_empty_conv)
    moreover have "\<forall>k. length (filter (\<lambda>e. fst e = k) m) \<le> 1"
      using Cons.prems by (auto split: if_splits intro: le_trans [rotated])
    ultimately show ?case using Cons.IH by simp
  qed simp
  moreover have "length (filter (\<lambda>e. fst e = k) m) \<le> 1" for k
  proof -
    have "length (mm_values k m) \<le> 1" using assms by (auto simp: block_of_def block_values_def split: list.splits)
    then show ?thesis by (simp add: mm_equal_range_def)
  qed
  ultimately show ?thesis using assms by (simp add: block_of_def mm_inv_def)
qed

lemma block_names: "block_of es m \<Longrightarrow> fst ` set m = fst ` set es"
proof (rule set_eqI)
  fix k
  assume b: "block_of es m"
  have key: "k \<in> fst ` set m \<longleftrightarrow> mm_values k m \<noteq> []" for m :: "(string, string) mmap"
    by (auto simp: mm_equal_range_def filter_empty_conv image_iff)
  show "k \<in> fst ` set m \<longleftrightarrow> k \<in> fst ` set es"
    using b by (simp only: key) (auto simp: block_of_def block_values_def split: list.splits)
qed

end
