(* ===== verification/H2_Base.thy ===== *)
theory H2_Base
  imports H2_Body Connector
begin

text \<open>
  The parts of \<open>src/src/http2/session.h/.cpp\<close> and \<open>session_client.h/.cpp\<close> that are the
  same in both classes: the state of a session, its calls into nghttp2 and the loop in which the
  library calls back.  The code of nghttp2 is not part of the repository; it is the parameter
  \<open>nghttp2\<close>: a state with an answer to every call, and, once \<open>nghttp2_session_mem_recv\<close>
  or \<open>nghttp2_session_mem_send\<close> has been entered, a sequence of turns, each of which calls a
  registered callback or returns.  A callback may enter the library again.
\<close>

section \<open>The library as a parameter\<close>

datatype ng_callback = On_frame_recv frame | On_stream_close int "32 word" | On_begin_headers frame
  | On_header frame string string | On_data_chunk int string | Frame_send frame
  | Frame_not_send frame int | Before_frame_send frame | Data_source_read nat nat

datatype ng_turn = Call ng_callback | Return int string

record 'n nghttp2 =
  ng_submit :: "ng_request \<Rightarrow> 'n \<Rightarrow> int \<times> 'n"
  ng_user_data :: "'n \<Rightarrow> int \<Rightarrow> nat option"
  ng_want_read :: "'n \<Rightarrow> bool"
  ng_want_write :: "'n \<Rightarrow> bool"
  ng_last_proc_stream_id :: "'n \<Rightarrow> int"
  ng_enter_send :: "'n \<Rightarrow> 'n"
  ng_enter_recv :: "string \<Rightarrow> 'n \<Rightarrow> 'n"
  ng_turn :: "'n \<Rightarrow> ng_turn \<times> 'n"
  ng_resume :: "ng_answer \<Rightarrow> 'n \<Rightarrow> 'n"

section \<open>The state of a session\<close>

text \<open>
  Streams are addresses; the objects shared with the user have the address of their stream.  The
  calls into the library are a trace, like those into the socket.
\<close>

datatype h2_event = Outgoing_task nat local_task | Incoming_task nat remote_task
  | Session_event connection_event | H2_timeout_posted | H2_user_feedback nat

record 'n h2_base = "nat connector" +
  se_conn :: connection
  se_connector :: bool
  se_ng :: 'n
  se_gone :: bool
  se_stream_counter :: int
  se_max_concurrent_streams :: "32 word"
  se_pending :: "nat list"
  se_listeners :: "nat list"
  se_user_close :: bool
  se_origin :: ip_address
  se_next :: nat
  se_calls :: "ng_request list"
  se_events :: "h2_event list"

definition log_h2 :: "h2_event list \<Rightarrow> ('n, 'z) h2_base_scheme \<Rightarrow> ('n, 'z) h2_base_scheme" where
  "log_h2 es w = w\<lparr>se_events := se_events w @ es\<rparr>"

definition ng_call :: "'n nghttp2 \<Rightarrow> ng_request \<Rightarrow> ('n, 'z) h2_base_scheme \<Rightarrow> int \<times> ('n, 'z) h2_base_scheme" where
  "ng_call L r w = (let (rv, g) = ng_submit L r (se_ng w) in (rv, w\<lparr>se_ng := g, se_calls := se_calls w @ [r]\<rparr>))"

section \<open>Operations that need no stream\<close>

definition subscribe :: "nat \<Rightarrow> ('n, 'z) h2_base_scheme \<Rightarrow> ('n, 'z) h2_base_scheme result" where
  "subscribe s w = assert_that (s \<notin> set (se_listeners w)) (Inr (w\<lparr>se_listeners := se_listeners w @ [s]\<rparr>))"

definition unsubscribe :: "nat \<Rightarrow> ('n, 'z) h2_base_scheme \<Rightarrow> ('n, 'z) h2_base_scheme" where
  "unsubscribe s w = w\<lparr>se_listeners := removeAll s (se_listeners w)\<rparr>"

definition session_write_feedbacks :: "('n, 'z) h2_base_scheme \<Rightarrow> nat list \<times> ('n, 'z) h2_base_scheme" where
  "session_write_feedbacks w = (se_pending w, w\<lparr>se_pending := []\<rparr>)"

definition add_pending_callbacks :: "nat \<Rightarrow> ('n, 'z) h2_base_scheme \<Rightarrow> ('n, 'z) h2_base_scheme" where
  "add_pending_callbacks r w = w\<lparr>se_pending := se_pending w @ [r]\<rparr>"

definition finished_stream :: "('n, 'z) h2_base_scheme \<Rightarrow> ('n, 'z) h2_base_scheme" where
  "finished_stream w = w\<lparr>se_stream_counter := se_stream_counter w - 1\<rparr>"

definition session_should_stop :: "'n nghttp2 \<Rightarrow> ('n, 'z) h2_base_scheme \<Rightarrow> bool" where
  "session_should_stop L w \<longleftrightarrow> \<not> ng_want_read L (se_ng w) \<and> \<not> ng_want_write L (se_ng w)"

definition session_close :: "('n, 'z) h2_base_scheme \<Rightarrow> ('n, 'z) h2_base_scheme" where
  "session_close w = (let w = w\<lparr>se_user_close := True\<rparr> in if se_connector w then connector_close w else w)"

definition session_set_timeout :: "int \<Rightarrow> ('n, 'z) h2_base_scheme \<Rightarrow> ('n, 'z) h2_base_scheme" where
  "session_set_timeout ms w = (if se_connector w then connector_set_timeout ms w else w)"

definition session_trigger_timeout_event :: "('n, 'z) h2_base_scheme \<Rightarrow> ('n, 'z) h2_base_scheme result" where
  "session_trigger_timeout_event w = assert_that (se_connector w) (Inr (log_h2 [H2_timeout_posted] w))"

definition go_away :: "'n nghttp2 \<Rightarrow> ('n, 'z) h2_base_scheme \<Rightarrow> ('n, 'z) h2_base_scheme result" where
  "go_away L w =
    (let (r, w) = ng_call L (Submit_goaway (ng_last_proc_stream_id L (se_ng w))) w
     in if r < 0 then Inl (Thrown Failing_at_failing) else Inr (w\<lparr>se_gone := True\<rparr>))"

section \<open>The connector with a handler that can fail\<close>

text \<open>
  \<open>connector::do_write\<close> again, for a handler whose \<open>on_write\<close> may fail; it is the same
  function for one that does not.
\<close>

definition do_write_fallible ::
  "(('f, 'a) connector_scheme \<Rightarrow> (bool \<times> string \<times> ('f, 'a) connector_scheme) result)
   \<Rightarrow> (('f, 'a) connector_scheme \<Rightarrow> bool)
   \<Rightarrow> (('f, 'a) connector_scheme \<Rightarrow> 'f list \<times> ('f, 'a) connector_scheme)
   \<Rightarrow> ('f, 'a) connector_scheme \<Rightarrow> ('f, 'a) connector_scheme result" where
  "do_write_fallible on_write should_stop write_feedbacks w =
    (if cn_writing w \<or> cn_stopped w then Inr w
     else res_bind (on_write ((renew_ttl w)\<lparr>cn_out := []\<rparr>)) (\<lambda>(ok, out, w).
       let w = w\<lparr>cn_out := out\<rparr>
       in Inr (if \<not> ok
          then (let (cbs, w) = write_feedbacks w in log_io (map Post_first cbs) w)
          else if cn_out w = [] \<and> should_stop w
          then (let (cbs, w) = write_feedbacks w in stop (log_io (map Post_first cbs) w))
          else if cn_out w = [] then w
          else (let (cbs, w) = write_feedbacks (w\<lparr>cn_writing := True\<rparr>)
                in log_io [Async_write (cn_out w) cbs]
                     (w\<lparr>cn_inflight := cn_inflight w @ [cbs]\<rparr>)))))"

lemma do_write_fallible_total:
  "do_write_fallible (\<lambda>w. Inr (on_write w)) should_stop write_feedbacks w
    = Inr (do_write on_write should_stop write_feedbacks w)"
  by (simp add: do_write_fallible_def do_write_def case_prod_beta Let_def)

section \<open>Entering the library\<close>

text \<open>
  The turns of a call into the library; what a callback does is an argument.  The number of turns
  is bounded by \<open>n\<close>.
\<close>

fun ng_run ::
  "'n nghttp2 \<Rightarrow> (ng_callback \<Rightarrow> ('n, 'z) h2_base_scheme \<Rightarrow> (ng_answer \<times> ('n, 'z) h2_base_scheme) result)
   \<Rightarrow> nat \<Rightarrow> ('n, 'z) h2_base_scheme \<Rightarrow> (int \<times> string \<times> ('n, 'z) h2_base_scheme) result" where
  "ng_run L cb 0 w = Inl Out_of_turns"
| "ng_run L cb (Suc n) w = (case ng_turn L (se_ng w) of
     (Return r s, g) \<Rightarrow> Inr (r, s, w\<lparr>se_ng := g\<rparr>)
   | (Call c, g) \<Rightarrow> res_bind (cb c (w\<lparr>se_ng := g\<rparr>)) (\<lambda>(a, w).
       ng_run L cb n (w\<lparr>se_ng := ng_resume L a (se_ng w)\<rparr>)))"

definition mem_send ::
  "'n nghttp2 \<Rightarrow> (ng_callback \<Rightarrow> ('n, 'z) h2_base_scheme \<Rightarrow> (ng_answer \<times> ('n, 'z) h2_base_scheme) result)
   \<Rightarrow> nat \<Rightarrow> ('n, 'z) h2_base_scheme \<Rightarrow> (int \<times> string \<times> ('n, 'z) h2_base_scheme) result" where
  "mem_send L cb n w = ng_run L cb n (w\<lparr>se_ng := ng_enter_send L (se_ng w)\<rparr>)"

definition mem_recv ::
  "'n nghttp2 \<Rightarrow> (ng_callback \<Rightarrow> ('n, 'z) h2_base_scheme \<Rightarrow> (ng_answer \<times> ('n, 'z) h2_base_scheme) result)
   \<Rightarrow> nat \<Rightarrow> string \<Rightarrow> ('n, 'z) h2_base_scheme \<Rightarrow> (int \<times> string \<times> ('n, 'z) h2_base_scheme) result" where
  "mem_recv L cb n data w = ng_run L cb n (w\<lparr>se_ng := ng_enter_recv L data (se_ng w)\<rparr>)"

text \<open>Every callback ends with this test.\<close>

definition write_if_wanted ::
  "'n nghttp2 \<Rightarrow> (('n, 'z) h2_base_scheme \<Rightarrow> ('n, 'z) h2_base_scheme result)
   \<Rightarrow> ('n, 'z) h2_base_scheme \<Rightarrow> ('n, 'z) h2_base_scheme result" where
  "write_if_wanted L dw w = (if ng_want_write L (se_ng w) then dw w else Inr w)"

definition session_on_read ::
  "'n nghttp2 \<Rightarrow> (('n, 'z) h2_base_scheme \<Rightarrow> ('n, 'z) h2_base_scheme result)
   \<Rightarrow> (ng_callback \<Rightarrow> ('n, 'z) h2_base_scheme \<Rightarrow> (ng_answer \<times> ('n, 'z) h2_base_scheme) result)
   \<Rightarrow> nat \<Rightarrow> string \<Rightarrow> ('n, 'z) h2_base_scheme \<Rightarrow> (bool \<times> ('n, 'z) h2_base_scheme) result" where
  "session_on_read L dw cb n data w =
    res_bind (mem_recv L cb n data w) (\<lambda>(rv, _, w).
      if rv < 0 \<and> rv \<noteq> NGHTTP2_ERR_FLOODED \<and> rv \<noteq> NGHTTP2_ERR_CALLBACK_FAILURE then Inr (False, w)
      else res_bind (if rv < 0 then go_away L w else Inr w) (\<lambda>w.
        assert_that (unat (word_of_int rv :: 32 word) = length data)
          (res_bind (write_if_wanted L dw w) (\<lambda>w. Inr (True, w)))))"

text \<open>
  \<open>start\<close>, with the settings of the class; the failure of the library ends the process because
  \<open>start\<close> is \<open>noexcept\<close>.
\<close>

definition send_connection_header ::
  "'n nghttp2 \<Rightarrow> (('n, 'z) h2_base_scheme \<Rightarrow> ('n, 'z) h2_base_scheme result)
   \<Rightarrow> (('n, 'z) h2_base_scheme \<Rightarrow> (settings_id \<times> 32 word) list)
   \<Rightarrow> ('n, 'z) h2_base_scheme \<Rightarrow> ('n, 'z) h2_base_scheme result" where
  "send_connection_header L dw iv w =
    (let (r, w) = ng_call L (Submit_settings (iv w)) w
     in if r \<noteq> 0 then Inl (Thrown Setting_connection_failure) else dw w)"

definition session_start ::
  "'n nghttp2 \<Rightarrow> (('n, 'z) h2_base_scheme \<Rightarrow> ('n, 'z) h2_base_scheme result)
   \<Rightarrow> (('n, 'z) h2_base_scheme \<Rightarrow> (settings_id \<times> 32 word) list)
   \<Rightarrow> ('n, 'z) h2_base_scheme \<Rightarrow> (bool \<times> ('n, 'z) h2_base_scheme) result" where
  "session_start L dw iv w = noexcept_call
    (if \<not> se_connector w then Inr (False, w)
     else res_bind (send_connection_header L dw iv w) (\<lambda>w.
       res_bind (dw w) (\<lambda>w. Inr (True, w))))"

end
