(* ===== verification/H2_Session.thy ===== *)
theory H2_Session
  imports H2_Base
begin

text \<open>
  \<open>src/src/http2/stream.h/.cpp\<close> and \<open>src/src/http2/session.h/.cpp\<close>: the server's side
  of HTTP/2.  Streams live in a heap; the closures of a response and the user data of the library
  hold bare pointers to them, so that using one whose entry is gone is undefined behaviour.  The
  virtual call \<open>do_write\<close> is an argument of the operations (\<open>dw\<close>) until the library is
  entered, at the end.
\<close>

section \<open>State\<close>

record server_stream = h2_out +
  ss_status :: "int option"
  ss_request :: http_request
  ss_request_sent :: bool
  ss_req :: "nat option"
  ss_res :: "nat option"

record 'n session = "'n h2_base" +
  se_request_cb :: bool
  se_streams :: "nat \<rightharpoonup> server_stream"
  se_requests :: "nat \<rightharpoonup> request"
  se_responses :: "nat \<rightharpoonup> http_response local_object"

definition the_stream :: "nat \<Rightarrow> 'n session \<Rightarrow> server_stream result" where
  "the_stream i w = (case se_streams w i of None \<Rightarrow> Inl Undefined_behaviour | Some s \<Rightarrow> Inr s)"

definition put_stream :: "nat \<Rightarrow> server_stream \<Rightarrow> 'n session \<Rightarrow> 'n session" where
  "put_stream i s w = w\<lparr>se_streams := (se_streams w)(i \<mapsto> s)\<rparr>"

definition upd_stream :: "nat \<Rightarrow> (server_stream \<Rightarrow> server_stream) \<Rightarrow> 'n session \<Rightarrow> 'n session result" where
  "upd_stream i f w = res_bind (the_stream i w) (\<lambda>s. Inr (put_stream i (f s) w))"

section \<open>The life of a stream\<close>

text \<open>The member initialisers; \<open>status\<close> has none.\<close>

definition out_new :: "'z \<Rightarrow> 'z h2_out_scheme" where
  "out_new z = \<lparr>so_id = 0, so_headers_sent = False, so_body_sent = False, so_resume_needed = False,
     so_eof = False, so_errored = False, so_closed = False, so_body = [], so_body_index = 0, so_nva = None,
     so_nvlen = 0, so_trailers = [], so_trailers_nva = None, so_trailers_nvlen = 0, so_prepared_headers = [],
     \<dots> = z\<rparr>"

definition stream_new :: "nat \<Rightarrow> 'n session \<Rightarrow> (server_stream \<times> 'n session) result" where
  "stream_new i w =
    res_bind (subscribe i w) (\<lambda>w.
    res_bind (http_request_new False HTTP_GET) (\<lambda>r.
    res_bind (set_protocol HTTP11 r) (\<lambda>r.
      Inr (out_new \<lparr>ss_status = None,
             ss_request = set_origin (if se_connector w then se_origin w else Ip_v4 0) (set_channel HTTP20 r),
             ss_request_sent = False, ss_req = None, ss_res = None\<rparr>, w))))"

definition stream_set_handlers :: "nat \<Rightarrow> nat \<Rightarrow> server_stream \<Rightarrow> server_stream" where
  "stream_set_handlers req res s = s\<lparr>ss_req := Some req, ss_res := Some res\<rparr>"

text \<open>The closure that \<open>create_stream\<close> passes as destructor: the destructor of the class, then \<open>free\<close>.\<close>

definition stream_destroy :: "nat \<Rightarrow> 'n session \<Rightarrow> 'n session" where
  "stream_destroy i w = (unsubscribe i w)\<lparr>se_streams := (se_streams w)(i := None)\<rparr>"

definition stream_die :: "nat \<Rightarrow> 'n session \<Rightarrow> 'n session result" where
  "stream_die i w = res_bind (the_stream i w) (\<lambda>s.
     if so_eof s \<or> so_errored s then Inr (stream_destroy i w)
     else Inr (put_stream i (s\<lparr>so_closed := True\<rparr>) w))"

section \<open>The request\<close>

text \<open>What a moved-from request holds with the standard library: no headers and empty strings.\<close>

definition moved_request :: "http_request \<Rightarrow> http_request" where
  "moved_request r = r\<lparr>sd_headers := [], destination_headers := [], rq_schema := [], rq_urihost := [], rq_port := [],
     rq_path := [], rq_query := [], rq_fragment := [], rq_userinfo := [], rq_params := Map.empty\<rparr>"

text \<open>
  Moving a stream takes its id and its request; nothing else goes along, and the new stream is not
  subscribed.  No code of the repository does it.
\<close>

definition stream_move_new :: "server_stream \<Rightarrow> server_stream \<times> server_stream" where
  "stream_move_new old =
    ((out_new \<lparr>ss_status = None, ss_request = ss_request old, ss_request_sent = False, ss_req = None, ss_res = None\<rparr>)
       \<lparr>so_id := so_id old\<rparr>,
     old\<lparr>ss_request := moved_request (ss_request old)\<rparr>)"

definition stream_move_assign :: "server_stream \<Rightarrow> server_stream \<Rightarrow> server_stream \<times> server_stream" where
  "stream_move_assign s old =
    (s\<lparr>so_id := so_id old, ss_request := ss_request old\<rparr>, old\<lparr>ss_request := moved_request (ss_request old)\<rparr>)"

text \<open>A call on \<open>req\<close>, which is null after the end of the request.\<close>

definition on_req :: "(request \<Rightarrow> request \<times> remote_task list) \<Rightarrow> nat \<Rightarrow> 'n session \<Rightarrow> 'n session result" where
  "on_req f i w = res_bind (the_stream i w) (\<lambda>s.
     case ss_req s of
       None \<Rightarrow> Inl Undefined_behaviour
     | Some r \<Rightarrow> (case se_requests w r of
         None \<Rightarrow> Inl Undefined_behaviour
       | Some q \<Rightarrow> (let (q, ts) = f q in
           Inr (log_h2 (map (Incoming_task r) ts) (w\<lparr>se_requests := (se_requests w)(r \<mapsto> q)\<rparr>)))))"

definition on_request_header_complete :: "nat \<Rightarrow> 'n session \<Rightarrow> 'n session result" where
  "on_request_header_complete i w = res_bind (the_stream i w) (\<lambda>s.
     res_bind (on_req (request_headers (ss_request s)) i w) (\<lambda>w.
       upd_stream i (\<lambda>s. s\<lparr>ss_request := moved_request (ss_request s), ss_request_sent := True\<rparr>) w))"

definition stream_add_header :: "string \<Rightarrow> string \<Rightarrow> nat \<Rightarrow> 'n session \<Rightarrow> 'n session result" where
  "stream_add_header key val i w = res_bind (the_stream i w) (\<lambda>s.
     if \<not> ss_request_sent s
     then res_bind (header key val (ss_request s)) (\<lambda>r. Inr (put_stream i (s\<lparr>ss_request := r\<rparr>) w))
     else on_req (request_trailer key val) i w)"

definition stream_uri_host :: "string \<Rightarrow> nat \<Rightarrow> 'n session \<Rightarrow> 'n session result" where
  "stream_uri_host p i w = res_bind (the_stream i w) (\<lambda>s.
     res_bind (set_hostname p (ss_request s)) (\<lambda>r.
       Inr (put_stream i (s\<lparr>ss_request := r\<lparr>rq_urihost := p\<rparr>\<rparr>) w)))"

definition on_request_body :: "string \<Rightarrow> nat \<Rightarrow> 'n session \<Rightarrow> 'n session result" where
  "on_request_body d i w = on_req (request_body d) i w"

definition on_request_finished :: "nat \<Rightarrow> 'n session \<Rightarrow> 'n session result" where
  "on_request_finished i w = res_bind (on_req request_finished i w) (upd_stream i (\<lambda>s. s\<lparr>ss_req := None\<rparr>))"

section \<open>The response\<close>

definition submitted_headers :: "'a h2_out_scheme \<Rightarrow> nv list" where
  "submitted_headers s = (case so_nva s of None \<Rightarrow> [] | Some l \<Rightarrow> l)"

definition submit_trailers :: "'n nghttp2 \<Rightarrow> nat \<Rightarrow> server_stream \<Rightarrow> 'n session \<Rightarrow> 'n session result" where
  "submit_trailers L i s w =
    res_bind (fill_headers (so_nvlen s) (so_trailers s)) (\<lambda>a.
      Inr (snd (ng_call L (Submit_trailer (so_id s) a)
        (put_stream i (s\<lparr>so_trailers_nvlen := length (so_trailers s), so_trailers_nva := Some a\<rparr>) w))))"

definition stream_flush ::
  "'n nghttp2 \<Rightarrow> ('n session \<Rightarrow> 'n session result) \<Rightarrow> nat \<Rightarrow> 'n session \<Rightarrow> 'n session result" where
  "stream_flush L dw i w = noexcept_call (res_bind (the_stream i w) (\<lambda>s.
     if so_closed s then Inr w
     else case ss_status s of
       None \<Rightarrow> Inl Undefined_behaviour
     | Some status \<Rightarrow> res_bind
        (if status \<noteq> 101 then
           if so_resume_needed s
           then Inr (put_stream i (s\<lparr>so_resume_needed := False\<rparr>) (snd (ng_call L (Resume_data (so_id s)) w)))
           else if \<not> so_headers_sent s
           then (let (r, w) = ng_call L (Submit_response (so_id s) (submitted_headers s) i) w
                 in assert_that (r = 0) (Inr (put_stream i (s\<lparr>so_headers_sent := True\<rparr>) w)))
           else if so_body_sent s \<and> so_eof s then submit_trailers L i s w
           else Inr w
         else (let (r, w) = ng_call L (Submit_headers (so_id s) (submitted_headers s)) w
               in assert_that (r = 0) (Inr w)))
        dw))"

definition response_block :: "http_response \<Rightarrow> (string, string) mmap \<Rightarrow> (string, string) mmap result" where
  "response_block resp m =
    res_bind (trailers_encoding (filter_headers connection_header resp)) (\<lambda>resp.
      Inr (prepare_headers (all_headers resp)
        (mm_insert '':status'' (to_dec (unat (rs_status_code resp))) m)))"

definition stream_on_header ::
  "'n nghttp2 \<Rightarrow> ('n session \<Rightarrow> 'n session result) \<Rightarrow> http_response \<Rightarrow> nat \<Rightarrow> 'n session \<Rightarrow> 'n session result" where
  "stream_on_header L dw resp i w = res_bind (the_stream i w) (\<lambda>s.
     res_bind (response_block resp (so_prepared_headers s)) (\<lambda>block.
       let nvlen = length block in
       res_bind (fill_headers nvlen block) (\<lambda>a.
         stream_flush L dw i (put_stream i (s\<lparr>so_prepared_headers := block, so_nvlen := nvlen,
           so_nva := Some a, ss_status := Some (int (unat (rs_status_code resp)))\<rparr>) w))))"

definition stream_on_body ::
  "'n nghttp2 \<Rightarrow> ('n session \<Rightarrow> 'n session result) \<Rightarrow> string \<Rightarrow> nat \<Rightarrow> 'n session \<Rightarrow> 'n session result" where
  "stream_on_body L dw d i w =
    res_bind (upd_stream i (\<lambda>s. s\<lparr>so_body := so_body s @ [d]\<rparr>) w) (stream_flush L dw i)"

definition stream_on_trailer :: "string \<Rightarrow> string \<Rightarrow> nat \<Rightarrow> 'n session \<Rightarrow> 'n session result" where
  "stream_on_trailer key val i w = upd_stream i (\<lambda>s. s\<lparr>so_trailers := mm_insert key val (so_trailers s)\<rparr>) w"

text \<open>\<open>res\<close> is weak: the pair of callbacks is added only if the response is still there.\<close>

definition live_response :: "server_stream \<Rightarrow> 'n session \<Rightarrow> nat option" where
  "live_response s w = (case ss_res s of None \<Rightarrow> None | Some r \<Rightarrow> if se_responses w r = None then None else Some r)"

definition stream_on_eom ::
  "'n nghttp2 \<Rightarrow> ('n session \<Rightarrow> 'n session result) \<Rightarrow> nat \<Rightarrow> 'n session \<Rightarrow> 'n session result" where
  "stream_on_eom L dw i w = res_bind (the_stream i w) (\<lambda>s.
     let w = put_stream i (s\<lparr>so_eof := True\<rparr>) w in
     if so_closed s then stream_die i w
     else stream_flush L dw i (case live_response s w of None \<Rightarrow> w | Some r \<Rightarrow> add_pending_callbacks r w))"

definition on_res ::
  "(http_response local_object \<Rightarrow> http_response local_object \<times> local_task list) \<Rightarrow> nat \<Rightarrow> 'n session \<Rightarrow> 'n session" where
  "on_res f r w = (case se_responses w r of
     None \<Rightarrow> w
   | Some l \<Rightarrow> (let (l, ts) = f l in
       log_h2 (map (Outgoing_task r) ts) (w\<lparr>se_responses := (se_responses w)(r \<mapsto> l)\<rparr>)))"

definition stream_notify_error :: "error_code \<Rightarrow> nat \<Rightarrow> 'n session \<Rightarrow> 'n session result" where
  "stream_notify_error ec i w = res_bind (the_stream i w) (\<lambda>s.
     res_bind (if ss_req s \<noteq> None then on_req (request_error ec) i w else Inr w) (\<lambda>w.
       Inr (case live_response s w of None \<Rightarrow> w | Some r \<Rightarrow> on_res response_error r w)))"

section \<open>Callbacks\<close>

text \<open>
  The constructor of the session; \<open>g\<close> is the state of the library once its session has been
  created.
\<close>

definition session_new :: "32 word \<Rightarrow> 'n \<Rightarrow> 'n session" where
  "session_new max_concurrent_streams g =
     h2_base.extend (connector.extend connector_new
       (h2_base.fields connection_new False g False 0 max_concurrent_streams [] [] False (Ip_v4 0) 0 [] []))
     (session.fields False Map.empty Map.empty Map.empty)"

text \<open>The stream, its request and its response get the next free address.\<close>

definition create_stream :: "'n nghttp2 \<Rightarrow> int \<Rightarrow> 'n session \<Rightarrow> 'n session result" where
  "create_stream L sid w =
    (let i = se_next w in
     res_bind (stream_new i (w\<lparr>se_next := Suc i\<rparr>)) (\<lambda>(s, w).
     let w = put_stream i (s\<lparr>so_id := sid\<rparr>) w in
     if \<not> se_connector w then Inl Undefined_behaviour
     else res_bind (http_request_new False HTTP_GET) (\<lambda>r.
       let w = w\<lparr>se_requests := (se_requests w)(i \<mapsto> request_new r),
                 se_responses := (se_responses w)(i \<mapsto> local_new)\<rparr>;
           w = (if se_request_cb w then log_h2 [H2_user_feedback i] w else w)
       in res_bind (upd_stream i (stream_set_handlers i i) w) (\<lambda>w.
            let (rv, w) = ng_call L (Set_user_data sid i) w
            in Inr (w\<lparr>se_stream_counter := se_stream_counter w + 1\<rparr>)))))"

definition on_begin_headers_callback :: "'n nghttp2 \<Rightarrow> frame \<Rightarrow> 'n session \<Rightarrow> 'n session result" where
  "on_begin_headers_callback L f w =
    (if fr_type f \<noteq> Frame_headers \<or> fr_cat f \<noteq> HCAT_REQUEST then Inr w
     else create_stream L (fr_stream_id f) w)"

text \<open>The value of \<open>:path\<close>: the two loops, and the three pieces that are cut out.\<close>

definition decode_path :: "string \<Rightarrow> string \<times> string \<times> string" where
  "decode_path v =
    (let j = length (takeWhile (\<lambda>c. c \<noteq> CHR ''?'') v);
         decoded_path = take j v;
         k = j;
         j = k + length (takeWhile (\<lambda>c. c \<noteq> CHR ''#'') (drop k v));
         decoded_query = take (j - k) (drop k v);
         decoded_fragment = drop k v
     in (decoded_path, decoded_query, decoded_fragment))"

definition set_path :: "string \<Rightarrow> http_request \<Rightarrow> http_request" where
  "set_path v r =
    (let (path, query, fragment) = decode_path v;
         r = r\<lparr>rq_path := path\<rparr>;
         r = (if query \<noteq> [] then r\<lparr>rq_query := query\<rparr> else r)
     in if fragment \<noteq> [] then r\<lparr>rq_fragment := fragment\<rparr> else r)"

definition on_header_field :: "string \<Rightarrow> string \<Rightarrow> nat \<Rightarrow> 'n session \<Rightarrow> 'n session result" where
  "on_header_field name val i w =
    (if name = '':path'' then upd_stream i (\<lambda>s. s\<lparr>ss_request := set_path val (ss_request s)\<rparr>) w
     else if name = '':scheme'' then upd_stream i (\<lambda>s. s\<lparr>ss_request := (ss_request s)\<lparr>rq_schema := val\<rparr>\<rparr>) w
     else if name = '':method'' then upd_stream i (\<lambda>s. s\<lparr>ss_request := set_method val (ss_request s)\<rparr>) w
     else if name = '':authority'' then stream_uri_host val i w
     else stream_add_header name val i w)"

definition on_header_callback ::
  "'n nghttp2 \<Rightarrow> ('n session \<Rightarrow> 'n session result) \<Rightarrow> frame \<Rightarrow> string \<Rightarrow> string \<Rightarrow> 'n session \<Rightarrow> 'n session result" where
  "on_header_callback L dw f name val w =
    res_bind (if fr_type f = Frame_headers \<and> fr_cat f = HCAT_REQUEST
              then (case ng_user_data L (se_ng w) (fr_stream_id f) of
                      None \<Rightarrow> Inr w
                    | Some i \<Rightarrow> on_header_field name val i w)
              else Inr w)
      (write_if_wanted L dw)"

definition on_frame_recv_callback ::
  "'n nghttp2 \<Rightarrow> ('n session \<Rightarrow> 'n session result) \<Rightarrow> frame \<Rightarrow> 'n session \<Rightarrow> 'n session result" where
  "on_frame_recv_callback L dw f w =
    res_bind (case ng_user_data L (se_ng w) (fr_stream_id f) of
        None \<Rightarrow> Inr w
      | Some i \<Rightarrow>
          res_bind (if fr_type f = Frame_headers \<and> fr_cat f = HCAT_REQUEST then on_request_header_complete i w else Inr w)
            (\<lambda>w. if end_stream_flag f then on_request_finished i w else Inr w))
      (write_if_wanted L dw)"

definition on_stream_close_callback ::
  "'n nghttp2 \<Rightarrow> ('n session \<Rightarrow> 'n session result) \<Rightarrow> int \<Rightarrow> 'n session \<Rightarrow> 'n session result" where
  "on_stream_close_callback L dw sid w =
    (case ng_user_data L (se_ng w) sid of
       None \<Rightarrow> Inl Assert_failed
     | Some i \<Rightarrow> res_bind (stream_die i w) (write_if_wanted L dw))"

definition on_data_chunk_recv_callback ::
  "'n nghttp2 \<Rightarrow> ('n session \<Rightarrow> 'n session result) \<Rightarrow> int \<Rightarrow> string \<Rightarrow> 'n session \<Rightarrow> 'n session result" where
  "on_data_chunk_recv_callback L dw sid d w =
    (case ng_user_data L (se_ng w) sid of
       None \<Rightarrow> Inl Undefined_behaviour
     | Some i \<Rightarrow> res_bind (on_request_body d i w) (write_if_wanted L dw))"

definition frame_not_send_callback :: "'n nghttp2 \<Rightarrow> frame \<Rightarrow> 'n session \<Rightarrow> 'n session result" where
  "frame_not_send_callback L f w =
    (if fr_type f \<noteq> Frame_headers \<or> fr_cat f \<noteq> HCAT_REQUEST then Inr w
     else res_bind (case ng_user_data L (se_ng w) (fr_stream_id f) of None \<Rightarrow> Inr w | Some i \<Rightarrow> stream_die i w)
       (\<lambda>w. let (rc, w) = ng_call L (Submit_rst_stream (fr_stream_id f)) w
             in if rc \<noteq> 0 then Inl (Thrown Failing_at_failing) else Inr w))"

text \<open>The library reads the body through the pointer it was given with the response.\<close>

definition stream_data_source_read :: "nat \<Rightarrow> nat \<Rightarrow> 'n session \<Rightarrow> (ng_answer \<times> 'n session) result" where
  "stream_data_source_read i n w = res_bind (the_stream i w) (\<lambda>s.
     let (a, s) = data_source_read_callback n s in Inr (a, put_stream i s w))"

text \<open>All callbacks but the last return 0; \<open>before_frame_send\<close> is not registered on a server.\<close>

definition session_callback ::
  "'n nghttp2 \<Rightarrow> ('n session \<Rightarrow> 'n session result) \<Rightarrow> ng_callback \<Rightarrow> 'n session \<Rightarrow> (ng_answer \<times> 'n session) result" where
  "session_callback L dw c w =
    (let zero = (\<lambda>r. res_bind r (\<lambda>w. Inr (Answer 0, w))) in
     case c of
       On_frame_recv f \<Rightarrow> zero (on_frame_recv_callback L dw f w)
     | On_stream_close sid e \<Rightarrow> zero (on_stream_close_callback L dw sid w)
     | On_begin_headers f \<Rightarrow> zero (on_begin_headers_callback L f w)
     | On_header f name val \<Rightarrow> zero (on_header_callback L dw f name val w)
     | On_data_chunk sid d \<Rightarrow> zero (on_data_chunk_recv_callback L dw sid d w)
     | Frame_send f \<Rightarrow> zero (Inr w)
     | Frame_not_send f e \<Rightarrow> zero (frame_not_send_callback L f w)
     | Before_frame_send f \<Rightarrow> zero (Inr w)
     | Data_source_read i n \<Rightarrow> stream_data_source_read i n w)"

section \<open>Entering the library\<close>

definition session_on_write ::
  "'n nghttp2 \<Rightarrow> ('n session \<Rightarrow> 'n session result) \<Rightarrow> nat \<Rightarrow> 'n session \<Rightarrow> (bool \<times> string \<times> 'n session) result" where
  "session_on_write L dw n w =
    (if \<not> se_connector w then Inr (False, [], w)
     else res_bind (mem_send L (session_callback L dw) n w) (\<lambda>(consumed, bytes, w).
       if consumed < 0 then Inl (Thrown Session_send_failure) else Inr (True, bytes, w)))"

text \<open>
  The knot: \<open>do_write\<close> asks the connector, which asks the session for output, which enters the
  library, whose callbacks call \<open>do_write\<close>.  The bound is on the depth and on the turns of each
  call.
\<close>

fun session_do_write :: "'n nghttp2 \<Rightarrow> nat \<Rightarrow> 'n session \<Rightarrow> 'n session result" where
  "session_do_write L 0 w = Inl Out_of_turns"
| "session_do_write L (Suc n) w =
    (if se_connector w
     then do_write_fallible (session_on_write L (session_do_write L n) n) (session_should_stop L)
            session_write_feedbacks w
     else Inr w)"

definition server_on_read :: "'n nghttp2 \<Rightarrow> nat \<Rightarrow> string \<Rightarrow> 'n session \<Rightarrow> (bool \<times> 'n session) result" where
  "server_on_read L n data w =
    session_on_read L (session_do_write L n) (session_callback L (session_do_write L n)) n data w"

definition server_settings :: "'n session \<Rightarrow> (settings_id \<times> 32 word) list" where
  "server_settings w = [(SETTINGS_MAX_CONCURRENT_STREAMS, se_max_concurrent_streams w)]"

definition server_start :: "'n nghttp2 \<Rightarrow> nat \<Rightarrow> 'n session \<Rightarrow> (bool \<times> 'n session) result" where
  "server_start L n w = session_start L (session_do_write L n) server_settings w"

section \<open>The end of the connection\<close>

definition session_raise :: "error_code \<Rightarrow> 'n session \<Rightarrow> 'n session" where
  "session_raise e w = (let (c, evs) = connection_raise e (se_conn w)
     in log_h2 (map Session_event evs) (w\<lparr>se_conn := c\<rparr>))"

fun notify_listeners :: "error_code \<Rightarrow> nat list \<Rightarrow> 'n session \<Rightarrow> 'n session result" where
  "notify_listeners ec [] w = Inr w"
| "notify_listeners ec (s # ss) w = res_bind (stream_notify_error ec s w) (notify_listeners ec ss)"

definition session_notify_error :: "error_code \<Rightarrow> 'n session \<Rightarrow> 'n session result" where
  "session_notify_error ec w = notify_listeners ec (se_listeners w) w"

definition session_on_connector_nulled :: "'n session \<Rightarrow> 'n session result" where
  "session_on_connector_nulled w =
    (let err = (if se_user_close w then Connection_closed else Closed_by_client);
         w = session_raise err w;
         w = fold (on_res response_error) (se_pending w) w
     in session_notify_error err w)"

definition session_set_connector :: "bool \<Rightarrow> 'n session \<Rightarrow> 'n session result" where
  "session_set_connector conn w =
    (let w = w\<lparr>se_connector := conn\<rparr> in if \<not> se_connector w then session_on_connector_nulled w else Inr w)"

section \<open>What the user does with a response\<close>

text \<open>
  The closures of the response call the stream; \<open>end\<close> posts a task that calls
  \<open>on_eom\<close>.  The continuation of a response made this way is an empty function, and calling
  it throws.
\<close>

datatype response_call = C_headers http_response | C_body string | C_trailer string string | C_end
  | C_send_continue

definition response_call :: "'n nghttp2 \<Rightarrow> nat \<Rightarrow> nat \<Rightarrow> response_call \<Rightarrow> 'n session \<Rightarrow> 'n session result" where
  "response_call L n i c w =
    (let dw = session_do_write L n in
     case c of
       C_headers resp \<Rightarrow> stream_on_header L dw resp i w
     | C_body d \<Rightarrow> stream_on_body L dw d i w
     | C_trailer k v \<Rightarrow> stream_on_trailer k v i w
     | C_end \<Rightarrow> stream_on_eom L dw i w
     | C_send_continue \<Rightarrow> Inl (Thrown Bad_function_call))"

end
