(* ===== verification/H2_Client.thy ===== *)
theory H2_Client
  imports H2_Session
begin

text \<open>
  \<open>src/src/http2/stream_client.h/.cpp\<close> and \<open>src/src/http2/session_client.h/.cpp\<close>: the
  client's side of HTTP/2.  What the two classes share with those of the server is in
  \<open>H2_Body\<close> and \<open>H2_Base\<close>; here are the streams with their pseudo headers and the
  response they collect, the callbacks, and what the user does with a request.
\<close>

section \<open>State\<close>

record req_pseudo_headers =
  ps_method :: string
  ps_scheme :: string
  ps_authority :: string
  ps_path :: string

definition init_path :: "string \<Rightarrow> string \<Rightarrow> string" where
  "init_path path method = (if path \<noteq> [] then path else if method = ''OPTIONS'' then ''*'' else ''/'')"

definition pseudo_headers :: "http_request \<Rightarrow> req_pseudo_headers" where
  "pseudo_headers req = \<lparr>ps_method = request_method req, ps_scheme = rq_schema req,
     ps_authority = get_hostname req,
     ps_path = init_path (rq_path req) (request_method req)
       @ (if rq_query req \<noteq> [] then ''?'' @ rq_query req else [])\<rparr>"

definition no_pseudo_headers :: req_pseudo_headers where
  "no_pseudo_headers = \<lparr>ps_method = [], ps_scheme = [], ps_authority = [], ps_path = []\<rparr>"

record stream_client = h2_out +
  cs_status :: int
  cs_pseudo :: req_pseudo_headers
  cs_response :: http_response
  cs_headers_sent :: bool
  cs_res :: "nat option"
  cs_req :: "nat option"

text \<open>
  \<open>cl_memory\<close> is what the memory of a new \<open>http_response\<close> holds, whose constructor leaves
  the status uninitialised.
\<close>

record 'n session_client = "'n h2_base" +
  cl_streams :: "nat \<rightharpoonup> stream_client"
  cl_requests :: "nat \<rightharpoonup> http_request local_object"
  cl_responses :: "nat \<rightharpoonup> client_response"
  cl_memory :: "16 word"

definition the_client :: "nat \<Rightarrow> 'n session_client \<Rightarrow> stream_client result" where
  "the_client i w = (case cl_streams w i of None \<Rightarrow> Inl Undefined_behaviour | Some s \<Rightarrow> Inr s)"

definition put_client :: "nat \<Rightarrow> stream_client \<Rightarrow> 'n session_client \<Rightarrow> 'n session_client" where
  "put_client i s w = w\<lparr>cl_streams := (cl_streams w)(i \<mapsto> s)\<rparr>"

definition upd_client :: "nat \<Rightarrow> (stream_client \<Rightarrow> stream_client) \<Rightarrow> 'n session_client \<Rightarrow> 'n session_client result" where
  "upd_client i f w = res_bind (the_client i w) (\<lambda>s. Inr (put_client i (f s) w))"

text \<open>\<open>std::stoi\<close> in base ten, on 32-bit integers.\<close>

definition stoi :: "string \<Rightarrow> std_exception + int" where
  "stoi s =
    (let s1 = dropWhile isspace s;
         neg = (case s1 of c # _ \<Rightarrow> c = CHR ''-'' | [] \<Rightarrow> False);
         s2 = (case s1 of c # cs \<Rightarrow> if c = CHR ''-'' \<or> c = CHR ''+'' then cs else s1 | [] \<Rightarrow> s1);
         ds = takeWhile (is_digit_of 10) s2
     in if ds = [] then Inl Invalid_argument
        else (case read_base 10 0 ds of
                None \<Rightarrow> Inl Invalid_argument
              | Some n \<Rightarrow> (let v = (if neg then - int n else int n) in
                  if v < - (2 ^ 31) \<or> 2 ^ 31 \<le> v then Inl Out_of_range else Inr v)))"

section \<open>The life of a stream\<close>

definition stream_client_new :: "nat \<Rightarrow> 'n session_client \<Rightarrow> (stream_client \<times> 'n session_client) result" where
  "stream_client_new i w =
    res_bind (subscribe i w) (\<lambda>w.
    res_bind (http_response_new (cl_memory w)) (\<lambda>r.
    res_bind (set_protocol HTTP11 r) (\<lambda>r.
      Inr (out_new \<lparr>cs_status = 200, cs_pseudo = no_pseudo_headers,
             cs_response = set_origin (if se_connector w then se_origin w else Ip_v4 0) (set_channel HTTP20 r),
             cs_headers_sent = False, cs_res = None, cs_req = None\<rparr>, w))))"

definition stream_client_set_handlers :: "nat \<Rightarrow> nat \<Rightarrow> stream_client \<Rightarrow> stream_client" where
  "stream_client_set_handlers req res s = s\<lparr>cs_res := Some res, cs_req := Some req\<rparr>"

definition stream_client_destroy :: "nat \<Rightarrow> 'n session_client \<Rightarrow> 'n session_client" where
  "stream_client_destroy i w = (unsubscribe i w)\<lparr>cl_streams := (cl_streams w)(i := None)\<rparr>"

definition stream_client_die :: "nat \<Rightarrow> 'n session_client \<Rightarrow> 'n session_client result" where
  "stream_client_die i w = res_bind (the_client i w) (\<lambda>s.
     if so_eof s \<or> so_errored s then Inr (stream_client_destroy i w)
     else Inr (put_client i (s\<lparr>so_closed := True\<rparr>) w))"

section \<open>The response\<close>

definition moved_response :: "http_response \<Rightarrow> http_response" where
  "moved_response r = r\<lparr>sd_headers := [], destination_headers := [], rs_status_message := []\<rparr>"

definition stream_client_move_new :: "stream_client \<Rightarrow> stream_client \<times> stream_client" where
  "stream_client_move_new old =
    ((out_new \<lparr>cs_status = 200, cs_pseudo = no_pseudo_headers, cs_response = cs_response old,
        cs_headers_sent = False, cs_res = None, cs_req = None\<rparr>)\<lparr>so_id := so_id old\<rparr>,
     old\<lparr>cs_response := moved_response (cs_response old)\<rparr>)"

definition stream_client_move_assign :: "stream_client \<Rightarrow> stream_client \<Rightarrow> stream_client \<times> stream_client" where
  "stream_client_move_assign s old =
    (s\<lparr>so_id := so_id old, cs_response := cs_response old\<rparr>, old\<lparr>cs_response := moved_response (cs_response old)\<rparr>)"

text \<open>A call on \<open>res\<close>, which is null after the end of the response.\<close>

definition on_response ::
  "(client_response \<Rightarrow> client_response \<times> remote_task list) \<Rightarrow> nat \<Rightarrow> 'n session_client \<Rightarrow> 'n session_client result" where
  "on_response f i w = res_bind (the_client i w) (\<lambda>s.
     case cs_res s of
       None \<Rightarrow> Inl Undefined_behaviour
     | Some r \<Rightarrow> (case cl_responses w r of
         None \<Rightarrow> Inl Undefined_behaviour
       | Some q \<Rightarrow> (let (q, ts) = f q in
           Inr (log_h2 (map (Incoming_task r) ts) (w\<lparr>cl_responses := (cl_responses w)(r \<mapsto> q)\<rparr>)))))"

definition on_response_header_complete :: "nat \<Rightarrow> 'n session_client \<Rightarrow> 'n session_client result" where
  "on_response_header_complete i w = res_bind (the_client i w) (\<lambda>s.
     res_bind (on_response (client_response_headers (cs_response s)) i w) (\<lambda>w.
       upd_client i (\<lambda>s. s\<lparr>cs_response := moved_response (cs_response s), cs_headers_sent := True\<rparr>) w))"

definition stream_client_add_header :: "string \<Rightarrow> string \<Rightarrow> nat \<Rightarrow> 'n session_client \<Rightarrow> 'n session_client result" where
  "stream_client_add_header key val i w = res_bind (the_client i w) (\<lambda>s.
     if \<not> cs_headers_sent s
     then res_bind (header key val (cs_response s)) (\<lambda>r. Inr (put_client i (s\<lparr>cs_response := r\<rparr>) w))
     else on_response (client_response_trailer key val) i w)"

definition on_response_body :: "string \<Rightarrow> nat \<Rightarrow> 'n session_client \<Rightarrow> 'n session_client result" where
  "on_response_body d i w = on_response (client_response_body d) i w"

definition on_response_finished :: "nat \<Rightarrow> 'n session_client \<Rightarrow> 'n session_client result" where
  "on_response_finished i w = res_bind (on_response client_response_finished i w) (upd_client i (\<lambda>s. s\<lparr>cs_res := None\<rparr>))"

definition stream_client_uri_host :: "string \<Rightarrow> nat \<Rightarrow> 'n session_client \<Rightarrow> 'n session_client result" where
  "stream_client_uri_host p i w = res_bind (the_client i w) (\<lambda>s.
     res_bind (set_hostname p (cs_response s)) (\<lambda>r. Inr (put_client i (s\<lparr>cs_response := r\<rparr>) w)))"

definition stream_client_status :: "int \<Rightarrow> stream_client \<Rightarrow> stream_client" where
  "stream_client_status st s = s\<lparr>cs_status := st, cs_response := set_status (word_of_int st) (cs_response s)\<rparr>"

section \<open>The request\<close>

definition client_submit_trailers :: "'n nghttp2 \<Rightarrow> nat \<Rightarrow> stream_client \<Rightarrow> 'n session_client \<Rightarrow> 'n session_client result" where
  "client_submit_trailers L i s w =
    res_bind (fill_headers (so_nvlen s) (so_trailers s)) (\<lambda>a.
      Inr (snd (ng_call L (Submit_trailer (so_id s) a)
        (put_client i (s\<lparr>so_trailers_nvlen := length (so_trailers s), so_trailers_nva := Some a\<rparr>) w))))"

text \<open>The request is submitted without a data provider, and the library answers with the id of the stream.\<close>

definition stream_client_flush ::
  "'n nghttp2 \<Rightarrow> ('n session_client \<Rightarrow> 'n session_client result) \<Rightarrow> nat \<Rightarrow> 'n session_client \<Rightarrow> 'n session_client result" where
  "stream_client_flush L dw i w = noexcept_call (res_bind (the_client i w) (\<lambda>s.
     if so_closed s then Inr w
     else res_bind
        (if cs_status s \<noteq> 101 then
           if so_resume_needed s
           then Inr (put_client i (s\<lparr>so_resume_needed := False\<rparr>) (snd (ng_call L (Resume_data (so_id s)) w)))
           else if \<not> so_headers_sent s
           then (let (r, w) = ng_call L (Submit_request (submitted_headers s) i) w
                 in Inr (put_client i (s\<lparr>so_id := r, so_headers_sent := True\<rparr>) w))
           else if so_body_sent s \<and> so_eof s then client_submit_trailers L i s w
           else Inr w
         else (let (r, w) = ng_call L (Submit_headers (so_id s) (submitted_headers s)) w
               in assert_that (r = 0) (Inr w)))
        dw))"

definition request_block :: "http_request \<Rightarrow> (string, string) mmap \<Rightarrow> (string, string) mmap result" where
  "request_block req m =
    res_bind (trailers_encoding (filter_headers client_connection_header req)) (\<lambda>req.
      Inr (prepare_headers (all_headers req) m))"

definition pseudo_entries :: "req_pseudo_headers \<Rightarrow> nv list result" where
  "pseudo_entries p =
    assert_that (ps_method p \<noteq> []) (assert_that (ps_scheme p \<noteq> []) (assert_that (ps_path p \<noteq> [])
      (assert_that (ps_authority p \<noteq> [])
        (Inr [('':method'', ps_method p), ('':scheme'', ps_scheme p), ('':path'', ps_path p),
              ('':authority'', ps_authority p)]))))"

definition stream_client_on_header ::
  "'n nghttp2 \<Rightarrow> ('n session_client \<Rightarrow> 'n session_client result) \<Rightarrow> http_request \<Rightarrow> nat
   \<Rightarrow> 'n session_client \<Rightarrow> 'n session_client result" where
  "stream_client_on_header L dw req i w = res_bind (the_client i w) (\<lambda>s.
     let p = pseudo_headers req in
     res_bind (request_block req (so_prepared_headers s)) (\<lambda>block.
       let nvlen = length block + 4 in
       res_bind (pseudo_entries p) (\<lambda>ps.
       res_bind (fill_headers nvlen (ps @ block)) (\<lambda>a.
         stream_client_flush L dw i (put_client i (s\<lparr>cs_pseudo := p, so_prepared_headers := block,
           so_nvlen := nvlen, so_nva := Some a\<rparr>) w)))))"

definition stream_client_on_body ::
  "'n nghttp2 \<Rightarrow> ('n session_client \<Rightarrow> 'n session_client result) \<Rightarrow> string \<Rightarrow> nat
   \<Rightarrow> 'n session_client \<Rightarrow> 'n session_client result" where
  "stream_client_on_body L dw d i w =
    res_bind (upd_client i (\<lambda>s. s\<lparr>so_body := so_body s @ [d]\<rparr>) w) (stream_client_flush L dw i)"

definition stream_client_on_trailer :: "string \<Rightarrow> string \<Rightarrow> nat \<Rightarrow> 'n session_client \<Rightarrow> 'n session_client result" where
  "stream_client_on_trailer key val i w =
    upd_client i (\<lambda>s. s\<lparr>so_trailers := mm_insert key val (so_trailers s)\<rparr>) w"

definition stream_client_on_eom ::
  "'n nghttp2 \<Rightarrow> ('n session_client \<Rightarrow> 'n session_client result) \<Rightarrow> nat \<Rightarrow> 'n session_client \<Rightarrow> 'n session_client result" where
  "stream_client_on_eom L dw i w = res_bind (the_client i w) (\<lambda>s.
     let w = put_client i (s\<lparr>so_eof := True\<rparr>) w in
     if so_closed s then stream_client_die i w
     else stream_client_flush L dw i (case cs_req s of None \<Rightarrow> w | Some r \<Rightarrow> add_pending_callbacks r w))"

definition on_request ::
  "(http_request local_object \<Rightarrow> http_request local_object \<times> local_task list) \<Rightarrow> nat \<Rightarrow> 'n session_client \<Rightarrow> 'n session_client" where
  "on_request f r w = (case cl_requests w r of
     None \<Rightarrow> w
   | Some l \<Rightarrow> (let (l, ts) = f l in
       log_h2 (map (Outgoing_task r) ts) (w\<lparr>cl_requests := (cl_requests w)(r \<mapsto> l)\<rparr>)))"

definition stream_client_notify_error :: "error_code \<Rightarrow> nat \<Rightarrow> 'n session_client \<Rightarrow> 'n session_client result" where
  "stream_client_notify_error ec i w = res_bind (the_client i w) (\<lambda>s.
     res_bind (if cs_res s \<noteq> None then on_response (client_response_error ec) i w else Inr w) (\<lambda>w.
       Inr (case cs_req s of None \<Rightarrow> w | Some r \<Rightarrow> on_request client_request_error r w)))"

section \<open>Callbacks\<close>

definition session_client_new :: "32 word \<Rightarrow> 16 word \<Rightarrow> 'n \<Rightarrow> 'n session_client" where
  "session_client_new max_concurrent_streams memory g =
     h2_base.extend (connector.extend connector_new
       (h2_base.fields connection_new False g False 0 max_concurrent_streams [] [] False (Ip_v4 0) 0 [] []))
     (session_client.fields Map.empty Map.empty Map.empty memory)"

text \<open>The request gets an error callback of the session's, which calls \<open>die\<close>.\<close>

definition client_create_stream :: "'n nghttp2 \<Rightarrow> int \<Rightarrow> 'n session_client \<Rightarrow> (nat \<times> 'n session_client) result" where
  "client_create_stream L sid w =
    (let i = se_next w in
     res_bind (stream_client_new i (w\<lparr>se_next := Suc i\<rparr>)) (\<lambda>(s, w).
     let w = put_client i (s\<lparr>so_id := sid\<rparr>) w in
     if \<not> se_connector w then Inl Undefined_behaviour
     else res_bind (http_response_new (cl_memory w)) (\<lambda>r.
       let w = w\<lparr>cl_responses := (cl_responses w)(i \<mapsto> client_response_new r),
                 cl_requests := (cl_requests w)(i \<mapsto> local_new\<lparr>lo_error_cb := True\<rparr>)\<rparr>
       in res_bind (upd_client i (stream_client_set_handlers i i) w) (\<lambda>w.
            let w = (if 0 \<le> sid then snd (ng_call L (Set_user_data sid i) w) else w)
            in Inr (i, w\<lparr>se_stream_counter := se_stream_counter w + 1\<rparr>)))))"

definition client_get_user_handlers :: "'n nghttp2 \<Rightarrow> 'n session_client \<Rightarrow> (nat \<times> 'n session_client) result" where
  "client_get_user_handlers L w = client_create_stream L (-1) w"

definition client_on_begin_headers :: "'n nghttp2 \<Rightarrow> frame \<Rightarrow> 'n session_client \<Rightarrow> 'n session_client result" where
  "client_on_begin_headers L f w =
    (case ng_user_data L (se_ng w) (fr_stream_id f) of
       None \<Rightarrow> res_bind (client_create_stream L (fr_stream_id f) w) (\<lambda>(i, w). Inr w)
     | Some i \<Rightarrow> Inr w)"

definition client_header_field :: "string \<Rightarrow> string \<Rightarrow> nat \<Rightarrow> 'n session_client \<Rightarrow> 'n session_client result" where
  "client_header_field name val i w =
    (if name = '':authority'' then stream_client_uri_host val i w
     else if name = '':status''
     then (case stoi val of Inl e \<Rightarrow> Inl (Thrown e) | Inr st \<Rightarrow> upd_client i (stream_client_status st) w)
     else stream_client_add_header name val i w)"

definition client_on_header ::
  "'n nghttp2 \<Rightarrow> ('n session_client \<Rightarrow> 'n session_client result) \<Rightarrow> frame \<Rightarrow> string \<Rightarrow> string
   \<Rightarrow> 'n session_client \<Rightarrow> 'n session_client result" where
  "client_on_header L dw f name val w =
    res_bind (if fr_type f = Frame_headers \<and> fr_cat f \<noteq> HCAT_REQUEST
              then (case ng_user_data L (se_ng w) (fr_stream_id f) of
                      None \<Rightarrow> Inr w
                    | Some i \<Rightarrow> client_header_field name val i w)
              else Inr w)
      (write_if_wanted L dw)"

definition client_on_frame_recv ::
  "'n nghttp2 \<Rightarrow> ('n session_client \<Rightarrow> 'n session_client result) \<Rightarrow> frame \<Rightarrow> 'n session_client \<Rightarrow> 'n session_client result" where
  "client_on_frame_recv L dw f w =
    res_bind (case ng_user_data L (se_ng w) (fr_stream_id f) of
        None \<Rightarrow> Inr w
      | Some i \<Rightarrow>
          res_bind (if fr_type f = Frame_headers \<and> fr_cat f \<noteq> HCAT_REQUEST then on_response_header_complete i w else Inr w)
            (\<lambda>w. if end_stream_flag f then on_response_finished i w else Inr w))
      (write_if_wanted L dw)"

definition client_on_stream_close ::
  "'n nghttp2 \<Rightarrow> ('n session_client \<Rightarrow> 'n session_client result) \<Rightarrow> int \<Rightarrow> 'n session_client \<Rightarrow> 'n session_client result" where
  "client_on_stream_close L dw sid w =
    (case ng_user_data L (se_ng w) sid of
       None \<Rightarrow> Inl Assert_failed
     | Some i \<Rightarrow> res_bind (stream_client_die i w) (write_if_wanted L dw))"

definition client_on_data_chunk ::
  "'n nghttp2 \<Rightarrow> ('n session_client \<Rightarrow> 'n session_client result) \<Rightarrow> int \<Rightarrow> string \<Rightarrow> 'n session_client \<Rightarrow> 'n session_client result" where
  "client_on_data_chunk L dw sid d w =
    res_bind (case ng_user_data L (se_ng w) sid of None \<Rightarrow> Inr w | Some i \<Rightarrow> on_response_body d i w)
      (write_if_wanted L dw)"

definition client_frame_not_send :: "'n nghttp2 \<Rightarrow> frame \<Rightarrow> 'n session_client \<Rightarrow> 'n session_client result" where
  "client_frame_not_send L f w =
    (if fr_type f \<noteq> Frame_headers \<or> fr_cat f \<noteq> HCAT_REQUEST then Inr w
     else res_bind (case ng_user_data L (se_ng w) (fr_stream_id f) of None \<Rightarrow> Inr w | Some i \<Rightarrow> stream_client_die i w)
       (\<lambda>w. let (rc, w) = ng_call L (Submit_rst_stream (fr_stream_id f)) w
             in if rc \<noteq> 0 then Inl (Thrown Failing_at_failing) else Inr w))"

definition client_data_source_read :: "nat \<Rightarrow> nat \<Rightarrow> 'n session_client \<Rightarrow> (ng_answer \<times> 'n session_client) result" where
  "client_data_source_read i n w = res_bind (the_client i w) (\<lambda>s.
     let (a, s) = client_data_source_read_callback n s in Inr (a, put_client i s w))"

definition session_client_callback ::
  "'n nghttp2 \<Rightarrow> ('n session_client \<Rightarrow> 'n session_client result) \<Rightarrow> ng_callback \<Rightarrow> 'n session_client
   \<Rightarrow> (ng_answer \<times> 'n session_client) result" where
  "session_client_callback L dw c w =
    (let zero = (\<lambda>r. res_bind r (\<lambda>w. Inr (Answer 0, w))) in
     case c of
       On_frame_recv f \<Rightarrow> zero (client_on_frame_recv L dw f w)
     | On_stream_close sid e \<Rightarrow> zero (client_on_stream_close L dw sid w)
     | On_begin_headers f \<Rightarrow> zero (client_on_begin_headers L f w)
     | On_header f name val \<Rightarrow> zero (client_on_header L dw f name val w)
     | On_data_chunk sid d \<Rightarrow> zero (client_on_data_chunk L dw sid d w)
     | Frame_send f \<Rightarrow> zero (Inr w)
     | Frame_not_send f e \<Rightarrow> zero (client_frame_not_send L f w)
     | Before_frame_send f \<Rightarrow> zero (Inr w)
     | Data_source_read i n \<Rightarrow> client_data_source_read i n w)"

section \<open>Entering the library\<close>

text \<open>Unlike the server's, \<open>on_write\<close> looks for the connector after it has taken the bytes.\<close>

definition session_client_on_write ::
  "'n nghttp2 \<Rightarrow> ('n session_client \<Rightarrow> 'n session_client result) \<Rightarrow> nat \<Rightarrow> 'n session_client
   \<Rightarrow> (bool \<times> string \<times> 'n session_client) result" where
  "session_client_on_write L dw n w =
    res_bind (mem_send L (session_client_callback L dw) n w) (\<lambda>(consumed, bytes, w).
      if consumed < 0 then Inl (Thrown Session_send_failure) else Inr (se_connector w, bytes, w))"

fun session_client_do_write :: "'n nghttp2 \<Rightarrow> nat \<Rightarrow> 'n session_client \<Rightarrow> 'n session_client result" where
  "session_client_do_write L 0 w = Inl Out_of_turns"
| "session_client_do_write L (Suc n) w =
    (if se_connector w
     then do_write_fallible (session_client_on_write L (session_client_do_write L n) n) (session_should_stop L)
            session_write_feedbacks w
     else Inr w)"

definition session_client_on_read :: "'n nghttp2 \<Rightarrow> nat \<Rightarrow> string \<Rightarrow> 'n session_client \<Rightarrow> (bool \<times> 'n session_client) result" where
  "session_client_on_read L n data w =
    session_on_read L (session_client_do_write L n) (session_client_callback L (session_client_do_write L n)) n data w"

definition client_settings :: "'n session_client \<Rightarrow> (settings_id \<times> 32 word) list" where
  "client_settings w = [(SETTINGS_MAX_CONCURRENT_STREAMS, se_max_concurrent_streams w), (SETTINGS_ENABLE_PUSH, 0)]"

definition session_client_start :: "'n nghttp2 \<Rightarrow> nat \<Rightarrow> 'n session_client \<Rightarrow> (bool \<times> 'n session_client) result" where
  "session_client_start L n w = session_start L (session_client_do_write L n) client_settings w"

section \<open>The end of the connection\<close>

definition client_raise :: "error_code \<Rightarrow> 'n session_client \<Rightarrow> 'n session_client" where
  "client_raise e w = (let (c, evs) = connection_raise e (se_conn w)
     in log_h2 (map Session_event evs) (w\<lparr>se_conn := c\<rparr>))"

fun client_notify_listeners :: "error_code \<Rightarrow> nat list \<Rightarrow> 'n session_client \<Rightarrow> 'n session_client result" where
  "client_notify_listeners ec [] w = Inr w"
| "client_notify_listeners ec (s # ss) w = res_bind (stream_client_notify_error ec s w) (client_notify_listeners ec ss)"

definition client_notify_error :: "error_code \<Rightarrow> 'n session_client \<Rightarrow> 'n session_client result" where
  "client_notify_error ec w = client_notify_listeners ec (se_listeners w) w"

definition client_on_connector_nulled :: "'n session_client \<Rightarrow> 'n session_client result" where
  "client_on_connector_nulled w =
    (let err = (if se_user_close w then Connection_closed else Closed_by_client);
         w = client_raise err w;
         w = fold (on_request client_request_error) (se_pending w) w
     in client_notify_error err w)"

definition client_set_connector :: "bool \<Rightarrow> 'n session_client \<Rightarrow> 'n session_client result" where
  "client_set_connector conn w =
    (let w = w\<lparr>se_connector := conn\<rparr> in if \<not> se_connector w then client_on_connector_nulled w else Inr w)"

section \<open>What the user does with a request\<close>

text \<open>
  The closures of the request call the stream at once.  \<open>request_error_task\<close> is the closure
  that the session registers as error callback, run when the task that \<open>error\<close> posts has its
  turn.
\<close>

datatype request_call = R_headers http_request | R_body string | R_trailer string string | R_end

definition request_call :: "'n nghttp2 \<Rightarrow> nat \<Rightarrow> nat \<Rightarrow> request_call \<Rightarrow> 'n session_client \<Rightarrow> 'n session_client result" where
  "request_call L n i c w =
    (let dw = session_client_do_write L n in
     case c of
       R_headers req \<Rightarrow> stream_client_on_header L dw req i w
     | R_body d \<Rightarrow> stream_client_on_body L dw d i w
     | R_trailer k v \<Rightarrow> stream_client_on_trailer k v i w
     | R_end \<Rightarrow> stream_client_on_eom L dw i w)"

definition request_error_task :: "nat \<Rightarrow> 'n session_client \<Rightarrow> 'n session_client result" where
  "request_error_task i w = stream_client_die i w"

end
