(* ===== verification/H2_Safety.thy ===== *)
theory H2_Safety
  imports H2_Session
begin

text \<open>
  The server's session never misuses memory and fails no assertion while nghttp2 drives it, if the
  library keeps the documented order of its callbacks.  The order is a view of the library's
  state, a phase and a user pointer for every stream; \<open>conforming\<close> says that the library
  calls only what the phases allow.
\<close>

section \<open>The order of the callbacks\<close>

datatype phase = Idle | Opened | Receiving | Received | Closing | Gone

record ng_view =
  nv_phase :: "int \<Rightarrow> phase"
  nv_data :: "int \<Rightarrow> nat option"

definition live :: "phase \<Rightarrow> bool" where
  "live p \<longleftrightarrow> p \<in> {Opened, Receiving, Received}"

definition request_frame :: "frame \<Rightarrow> bool" where
  "request_frame f \<longleftrightarrow> fr_type f = Frame_headers \<and> fr_cat f = HCAT_REQUEST"

text \<open>
  A request opens an idle stream, its header fields precede the end of its frame, data follow it
  until the end of the stream; a stream that is being closed gets no further callback, and bodies
  are read only for streams that are open.  Other frames may come at any time, but only data and
  trailers end a stream.
\<close>

fun allowed :: "ng_callback \<Rightarrow> ng_view \<Rightarrow> bool" where
  "allowed (On_begin_headers f) V \<longleftrightarrow> request_frame f \<longrightarrow> nv_phase V (fr_stream_id f) = Idle"
| "allowed (On_header f k v) V \<longleftrightarrow> request_frame f \<longrightarrow> nv_phase V (fr_stream_id f) = Opened"
| "allowed (On_frame_recv f) V \<longleftrightarrow> nv_phase V (fr_stream_id f) \<noteq> Closing
     \<and> (if request_frame f then nv_phase V (fr_stream_id f) = Opened
        else end_stream_flag f \<longrightarrow> nv_phase V (fr_stream_id f) \<notin> {Opened, Received})"
| "allowed (On_data_chunk sid d) V \<longleftrightarrow> nv_phase V sid = Receiving"
| "allowed (On_stream_close sid e) V \<longleftrightarrow> live (nv_phase V sid)"
| "allowed (Frame_not_send f e) V \<longleftrightarrow> \<not> request_frame f"
| "allowed (Data_source_read i n) V \<longleftrightarrow> (\<exists>sid. live (nv_phase V sid) \<and> nv_data V sid = Some i)"
| "allowed (Frame_send f) V \<longleftrightarrow> True"
| "allowed (Before_frame_send f) V \<longleftrightarrow> True"

fun advance :: "ng_callback \<Rightarrow> ng_view \<Rightarrow> ng_view" where
  "advance (On_begin_headers f) V = (if request_frame f
     then \<lparr>nv_phase = (nv_phase V)(fr_stream_id f := Opened), nv_data = (nv_data V)(fr_stream_id f := None)\<rparr> else V)"
| "advance (On_frame_recv f) V =
    (if request_frame f then V\<lparr>nv_phase := (nv_phase V)(fr_stream_id f := if end_stream_flag f then Received else Receiving)\<rparr>
     else if end_stream_flag f \<and> nv_phase V (fr_stream_id f) = Receiving
     then V\<lparr>nv_phase := (nv_phase V)(fr_stream_id f := Received)\<rparr> else V)"
| "advance (On_stream_close sid e) V = V\<lparr>nv_phase := (nv_phase V)(sid := Closing)\<rparr>"
| "advance _ V = V"

text \<open>Between callbacks the library may forget the streams it has closed.\<close>

definition forgets :: "ng_view \<Rightarrow> ng_view \<Rightarrow> bool" where
  "forgets V V' \<longleftrightarrow> nv_data V' = nv_data V
     \<and> (\<forall>sid. nv_phase V' sid = nv_phase V sid \<or> nv_phase V sid = Closing \<and> nv_phase V' sid = Gone)"

definition visible :: "ng_view \<Rightarrow> int \<Rightarrow> nat option" where
  "visible V sid = (if nv_phase V sid \<in> {Idle, Gone} then None else nv_data V sid)"

fun answers :: "ng_request \<Rightarrow> ng_view \<Rightarrow> int \<Rightarrow> ng_view \<Rightarrow> bool" where
  "answers (Set_user_data sid i) V rv V' \<longleftrightarrow> live (nv_phase V sid) \<longrightarrow> V' = V\<lparr>nv_data := (nv_data V)(sid := Some i)\<rparr>"
| "answers (Submit_response sid h i) V rv V' \<longleftrightarrow> V' = V \<and> (live (nv_phase V sid) \<longrightarrow> rv = 0)"
| "answers (Submit_headers sid h) V rv V' \<longleftrightarrow> V' = V \<and> (live (nv_phase V sid) \<longrightarrow> rv = 0)"
| "answers _ V rv V' \<longleftrightarrow> V' = V"

definition conforming :: "'n nghttp2 \<Rightarrow> ('n \<Rightarrow> ng_view) \<Rightarrow> bool" where
  "conforming L V \<longleftrightarrow>
     (\<forall>g. case ng_turn L g of
         (Call c, g') \<Rightarrow> allowed c (V g) \<and> V g' = advance c (V g)
       | (Return r s, g') \<Rightarrow> forgets (V g) (V g'))
     \<and> (\<forall>g sid. ng_user_data L g sid = visible (V g) sid)
     \<and> (\<forall>g. forgets (V g) (V (ng_enter_send L g)))
     \<and> (\<forall>g d. forgets (V g) (V (ng_enter_recv L d g)))
     \<and> (\<forall>g a. forgets (V g) (V (ng_resume L a g)))
     \<and> (\<forall>g r. answers r (V g) (fst (ng_submit L r g)) (V (snd (ng_submit L r g))))"

section \<open>The invariant of the session\<close>

definition heap_ok :: "'n session \<Rightarrow> bool" where
  "heap_ok w \<longleftrightarrow> se_connector w \<and> distinct (se_listeners w) \<and> set (se_listeners w) = dom (se_streams w)
     \<and> (\<forall>i s. se_streams w i = Some s \<longrightarrow> i < se_next w \<and> body_wf s
          \<and> (\<forall>r. ss_req s = Some r \<longrightarrow> se_requests w r \<noteq> None))"

definition stream_in :: "phase \<Rightarrow> int \<Rightarrow> server_stream \<Rightarrow> bool" where
  "stream_in p sid s \<longleftrightarrow> so_id s = sid \<and> \<not> so_closed s \<and> ss_request_sent s = (p \<noteq> Opened)
     \<and> (ss_req s \<noteq> None) = (p \<noteq> Received)"

definition bound_streams :: "ng_view \<Rightarrow> 'n session \<Rightarrow> bool" where
  "bound_streams V w \<longleftrightarrow> (\<forall>sid. live (nv_phase V sid) \<longrightarrow>
     (\<exists>i s. nv_data V sid = Some i \<and> se_streams w i = Some s \<and> stream_in (nv_phase V sid) sid s))"

definition owned :: "ng_view \<Rightarrow> 'n session \<Rightarrow> bool" where
  "owned V w \<longleftrightarrow> (\<forall>i s. se_streams w i = Some s \<and> \<not> so_closed s \<longrightarrow>
     live (nv_phase V (so_id s)) \<and> nv_data V (so_id s) = Some i)"

definition session_inv :: "ng_view \<Rightarrow> 'n session \<Rightarrow> bool" where
  "session_inv V w \<longleftrightarrow> heap_ok w \<and> bound_streams V w \<and> owned V w"

text \<open>A result that is no misuse of memory and no failed assertion.\<close>

definition sound :: "('a \<Rightarrow> bool) \<Rightarrow> 'a result \<Rightarrow> bool" where
  "sound P r \<longleftrightarrow> (case r of Inr x \<Rightarrow> P x | Inl f \<Rightarrow> f \<noteq> Undefined_behaviour \<and> f \<noteq> Assert_failed)"

lemma sound_simps [simp]:
  "sound P (Inr x) = P x" "sound P (Inl f) \<longleftrightarrow> f \<noteq> Undefined_behaviour \<and> f \<noteq> Assert_failed"
  by (simp_all add: sound_def)

lemma sound_bind:
  assumes "sound P r" "\<And>x. P x \<Longrightarrow> sound Q (f x)"
  shows "sound Q (res_bind r f)"
  using assms by (cases r) simp_all

lemma sound_mono: "sound P r \<Longrightarrow> (\<And>x. P x \<Longrightarrow> Q x) \<Longrightarrow> sound Q r"
  by (cases r) simp_all

lemma session_inv_cong:
  assumes "se_connector w' = se_connector w" "se_listeners w' = se_listeners w" "se_next w' = se_next w"
    "se_streams w' = se_streams w" "se_requests w' = se_requests w"
  shows "session_inv V w' = session_inv V w"
  by (simp add: session_inv_def heap_ok_def bound_streams_def owned_def assms)

lemma live_phases [simp]: "live Gone = False" "live Closing = False" "live Idle = False"
  "live Opened" "live Receiving" "live Received"
  by (auto simp: live_def)

lemma forgets_live: "forgets V V' \<Longrightarrow> live (nv_phase V' sid) = live (nv_phase V sid)"
  unfolding forgets_def by (metis live_phases(1,2))

lemma forgets_phase: "forgets V V' \<Longrightarrow> live (nv_phase V sid) \<Longrightarrow> nv_phase V' sid = nv_phase V sid"
  unfolding forgets_def by auto

lemma session_inv_forgets:
  assumes "session_inv V w" "forgets V V'"
  shows "session_inv V' w"
proof -
  have d: "nv_data V' = nv_data V" using assms(2) by (simp add: forgets_def)
  have "bound_streams V' w"
    unfolding bound_streams_def
  proof (intro allI impI)
    fix sid
    assume "live (nv_phase V' sid)"
    then have l: "live (nv_phase V sid)" using forgets_live [OF assms(2)] by simp
    then show "\<exists>i s. nv_data V' sid = Some i \<and> se_streams w i = Some s \<and> stream_in (nv_phase V' sid) sid s"
      using assms(1) unfolding session_inv_def bound_streams_def d forgets_phase [OF assms(2) l] by blast
  qed
  moreover have "owned V' w"
    using assms(1) forgets_live [OF assms(2)] unfolding session_inv_def owned_def d by blast
  ultimately show ?thesis using assms(1) by (simp add: session_inv_def)
qed

lemma heap_ok_put:
  assumes "heap_ok w" "se_streams w i = Some s" "body_wf s'" "ss_req s' = None \<or> ss_req s' = ss_req s"
  shows "heap_ok (put_stream i s' w)"
proof -
  have "dom (se_streams (put_stream i s' w)) = dom (se_streams w)"
    using assms(2) by (auto simp: put_stream_def)
  then show ?thesis using assms unfolding heap_ok_def by (auto simp: put_stream_def)
qed

lemma session_inv_put:
  assumes "session_inv V w" "se_streams w i = Some s" "body_wf s'"
    "so_id s' = so_id s" "so_closed s' = so_closed s" "ss_request_sent s' = ss_request_sent s" "ss_req s' = ss_req s"
  shows "session_inv V (put_stream i s' w)"
proof -
  have same: "stream_in p sid s' = stream_in p sid s" for p sid
    using assms(4-7) by (simp add: stream_in_def)
  have "bound_streams V (put_stream i s' w)"
    unfolding bound_streams_def
  proof (intro allI impI)
    fix sid
    assume "live (nv_phase V sid)"
    then obtain j t where t: "nv_data V sid = Some j" "se_streams w j = Some t" "stream_in (nv_phase V sid) sid t"
      using assms(1) unfolding session_inv_def bound_streams_def by blast
    then show "\<exists>j t. nv_data V sid = Some j \<and> se_streams (put_stream i s' w) j = Some t
        \<and> stream_in (nv_phase V sid) sid t"
      using assms(2) same by (cases "j = i") (simp_all add: put_stream_def)
  qed
  moreover have "owned V (put_stream i s' w)"
    using assms unfolding session_inv_def owned_def by (auto simp: put_stream_def)
  ultimately show ?thesis using assms heap_ok_put by (auto simp: session_inv_def)
qed

lemma session_inv_connector [simp]:
  "session_inv V (log_io as w) = session_inv V w" "session_inv V (renew_ttl w) = session_inv V w"
  "session_inv V (stop w) = session_inv V w" "session_inv V (cancel_deadline w) = session_inv V w"
  "session_inv V (w\<lparr>cn_out := out\<rparr>) = session_inv V w" "session_inv V (w\<lparr>cn_writing := b\<rparr>) = session_inv V w"
  "session_inv V (w\<lparr>cn_inflight := fl\<rparr>) = session_inv V w" "session_inv V (w\<lparr>se_pending := ps\<rparr>) = session_inv V w"
  "session_inv V (w\<lparr>se_ng := g\<rparr>) = session_inv V w" "session_inv V (log_h2 es w) = session_inv V w"
  "session_inv V (w\<lparr>se_ng := g, se_calls := cs\<rparr>) = session_inv V w"
  "session_inv V (w\<lparr>se_gone := b\<rparr>) = session_inv V w"
  by (rule session_inv_cong; simp add: conn_ops log_h2_def)+

lemma written_session [simp]:
  "written (w\<lparr>se_ng := g\<rparr>) = written w" "written (w\<lparr>se_pending := ps\<rparr>) = written w"
  "se_pending (log_io as w) = se_pending w" "se_pending (renew_ttl w) = se_pending w"
  by (simp_all add: written_def conn_ops)

lemma se_ng_connector [simp]:
  "se_ng (log_io as w) = se_ng w" "se_ng (renew_ttl w) = se_ng w" "se_ng (stop w) = se_ng w"
  "se_ng (cancel_deadline w) = se_ng w" "se_ng (log_h2 es w) = se_ng w" "se_streams (log_h2 es w) = se_streams w"
  by (simp_all add: conn_ops log_h2_def)

section \<open>Steps on one stream\<close>

lemma the_stream_Some [simp]: "se_streams w i = Some s \<Longrightarrow> the_stream i w = Inr s"
  by (simp add: the_stream_def)

lemma put_stream_fields [simp]:
  "se_ng (put_stream i s w) = se_ng w" "se_streams (put_stream i s w) = (se_streams w)(i \<mapsto> s)"
  "se_connector (put_stream i s w) = se_connector w" "se_requests (put_stream i s w) = se_requests w"
  "se_listeners (put_stream i s w) = se_listeners w" "se_next (put_stream i s w) = se_next w"
  by (simp_all add: put_stream_def)

lemma live_stream:
  assumes "session_inv V w" "live (nv_phase V sid)"
  obtains i s where "nv_data V sid = Some i" "se_streams w i = Some s" "stream_in (nv_phase V sid) sid s" "body_wf s"
  using assms unfolding session_inv_def bound_streams_def heap_ok_def by blast

text \<open>Two streams of the library have different addresses.\<close>

lemma address_unique:
  assumes "session_inv V w" "live (nv_phase V sid)" "live (nv_phase V sid')" "nv_data V sid = nv_data V sid'"
  shows "sid = sid'"
proof -
  obtain i s where 1: "nv_data V sid = Some i" "se_streams w i = Some s" "so_id s = sid"
    using live_stream [OF assms(1,2)] by (metis stream_in_def)
  obtain j t where 2: "nv_data V sid' = Some j" "se_streams w j = Some t" "so_id t = sid'"
    using live_stream [OF assms(1,3)] by (metis stream_in_def)
  from 1 2 assms(4) show ?thesis by simp
qed

lemma on_req_ok:
  assumes "session_inv V w" "se_streams w i = Some s" "ss_req s \<noteq> None"
  shows "\<exists>w'. on_req f i w = Inr w' \<and> session_inv V w' \<and> se_streams w' = se_streams w \<and> se_ng w' = se_ng w"
proof -
  obtain r where r: "ss_req s = Some r" using assms(3) by auto
  then obtain q where q: "se_requests w r = Some q"
    using assms(1,2) unfolding session_inv_def heap_ok_def by blast
  obtain q' ts where f: "f q = (q', ts)" by (cases "f q")
  let ?w = "log_h2 (map (Incoming_task r) ts) (w\<lparr>se_requests := (se_requests w)(r \<mapsto> q')\<rparr>)"
  have "session_inv V (w\<lparr>se_requests := (se_requests w)(r \<mapsto> q')\<rparr>)"
    using assms(1) unfolding session_inv_def heap_ok_def bound_streams_def owned_def by auto
  moreover have "on_req f i w = Inr ?w" using assms(2) r q f by (simp add: on_req_def)
  ultimately show ?thesis by simp
qed

text \<open>One stream moves to another phase, together with its view.\<close>

lemma session_inv_phase:
  assumes "session_inv V w" "live (nv_phase V sid)" "nv_data V sid = Some i" "se_streams w i = Some s"
    and "body_wf s'" "stream_in p sid s'" "live p" "ss_req s' = None \<or> ss_req s' = ss_req s"
  shows "session_inv (V\<lparr>nv_phase := (nv_phase V)(sid := p)\<rparr>) (put_stream i s' w)"
proof -
  let ?V = "V\<lparr>nv_phase := (nv_phase V)(sid := p)\<rparr>" and ?w = "put_stream i s' w"
  obtain s0 where "se_streams w i = Some s0" "stream_in (nv_phase V sid) sid s0"
    using live_stream [OF assms(1,2)] assms(3) by (metis option.inject)
  then have sid: "so_id s = sid" "so_id s' = sid" using assms(4,6) by (simp_all add: stream_in_def)
  have "heap_ok ?w" using heap_ok_put [OF _ assms(4,5,8)] assms(1) by (simp add: session_inv_def)
  moreover have "bound_streams ?V ?w"
    unfolding bound_streams_def
  proof (intro allI impI)
    fix sid'
    assume l: "live (nv_phase ?V sid')"
    show "\<exists>j t. nv_data ?V sid' = Some j \<and> se_streams ?w j = Some t \<and> stream_in (nv_phase ?V sid') sid' t"
    proof (cases "sid' = sid")
      case False
      then have l': "live (nv_phase V sid')" using l by simp
      obtain j t where t: "nv_data V sid' = Some j" "se_streams w j = Some t" "stream_in (nv_phase V sid') sid' t"
        using live_stream [OF assms(1) l'] by metis
      have "j \<noteq> i" using address_unique [OF assms(1) l' assms(2)] t(1) assms(3) False by auto
      then show ?thesis using t False by simp
    qed (use assms(3,6) in simp)
  qed
  moreover have "owned ?V ?w"
    unfolding owned_def
  proof (intro allI impI)
    fix j t
    assume "se_streams ?w j = Some t \<and> \<not> so_closed t"
    then show "live (nv_phase ?V (so_id t)) \<and> nv_data ?V (so_id t) = Some j"
      using assms(1,3,7) sid by (cases "j = i") (auto simp: session_inv_def owned_def)
  qed
  ultimately show ?thesis by (simp add: session_inv_def)
qed

lemma header_complete_ok:
  assumes "session_inv V w" "nv_phase V sid = Opened" "nv_data V sid = Some i"
  shows "\<exists>w'. on_request_header_complete i w = Inr w' \<and> se_ng w' = se_ng w
    \<and> session_inv (V\<lparr>nv_phase := (nv_phase V)(sid := Receiving)\<rparr>) w'"
proof -
  have l: "live (nv_phase V sid)" using assms(2) by simp
  obtain s where s: "se_streams w i = Some s" "stream_in Opened sid s" "body_wf s"
    using live_stream [OF assms(1) l] assms(2,3) by (metis option.inject)
  then have "ss_req s \<noteq> None" by (simp add: stream_in_def)
  from on_req_ok [OF assms(1) s(1) this] obtain w1 where w1:
    "on_req (request_headers (ss_request s)) i w = Inr w1" "session_inv V w1" "se_streams w1 = se_streams w" "se_ng w1 = se_ng w"
    by blast
  let ?s = "s\<lparr>ss_request := moved_request (ss_request s), ss_request_sent := True\<rparr>"
  have "on_request_header_complete i w = Inr (put_stream i ?s w1)"
    using s(1) w1 by (simp add: on_request_header_complete_def upd_stream_def)
  moreover have "session_inv (V\<lparr>nv_phase := (nv_phase V)(sid := Receiving)\<rparr>) (put_stream i ?s w1)"
    by (rule session_inv_phase [OF w1(2) l assms(3), where s = s])
      (use s w1(3) in \<open>auto simp: stream_in_def body_wf_def split: list.splits\<close>)
  ultimately show ?thesis using w1(4) by simp
qed

lemma request_finished_ok:
  assumes "session_inv V w" "nv_phase V sid = Receiving" "nv_data V sid = Some i"
  shows "\<exists>w'. on_request_finished i w = Inr w' \<and> se_ng w' = se_ng w
    \<and> session_inv (V\<lparr>nv_phase := (nv_phase V)(sid := Received)\<rparr>) w'"
proof -
  have l: "live (nv_phase V sid)" using assms(2) by simp
  obtain s where s: "se_streams w i = Some s" "stream_in Receiving sid s" "body_wf s"
    using live_stream [OF assms(1) l] assms(2,3) by (metis option.inject)
  then have "ss_req s \<noteq> None" by (simp add: stream_in_def)
  from on_req_ok [OF assms(1) s(1) this] obtain w1 where w1:
    "on_req request_finished i w = Inr w1" "session_inv V w1" "se_streams w1 = se_streams w" "se_ng w1 = se_ng w"
    by blast
  have "on_request_finished i w = Inr (put_stream i (s\<lparr>ss_req := None\<rparr>) w1)"
    using s(1) w1 by (simp add: on_request_finished_def upd_stream_def)
  moreover have "session_inv (V\<lparr>nv_phase := (nv_phase V)(sid := Received)\<rparr>) (put_stream i (s\<lparr>ss_req := None\<rparr>) w1)"
    by (rule session_inv_phase [OF w1(2) l assms(3), where s = s])
      (use s w1(3) in \<open>auto simp: stream_in_def body_wf_def split: list.splits\<close>)
  ultimately show ?thesis using w1(4) by simp
qed

section \<open>The callbacks\<close>

abbreviation inv_now :: "('n \<Rightarrow> ng_view) \<Rightarrow> 'n session \<Rightarrow> bool" where
  "inv_now V w \<equiv> session_inv (V (se_ng w)) w"

definition keeps :: "('n \<Rightarrow> ng_view) \<Rightarrow> ('n session \<Rightarrow> 'n session result) \<Rightarrow> bool" where
  "keeps V f \<longleftrightarrow> (\<forall>w. inv_now V w \<longrightarrow> sound (inv_now V) (f w))"

lemma keepsD: "keeps V f \<Longrightarrow> inv_now V w \<Longrightarrow> sound (inv_now V) (f w)"
  by (simp add: keeps_def)

lemma write_if_wanted_ok: "keeps V dw \<Longrightarrow> inv_now V w \<Longrightarrow> sound (inv_now V) (write_if_wanted L dw w)"
  by (simp add: write_if_wanted_def keepsD)

lemma conforming_data:
  "conforming L V \<Longrightarrow> ng_user_data L g sid = visible (V g) sid"
  by (simp add: conforming_def)

lemma header_fault: "header k v d = Inl f \<Longrightarrow> \<exists>e. f = Terminated e"
  by (auto simp: header_def Let_def split: if_splits sum.splits)

lemma header_sound: "(\<And>d'. P d') \<Longrightarrow> sound P (header k v d)"
  using header_fault [of k v d] by (cases "header k v d") auto

text \<open>A header field changes the request of its stream, and nothing else.\<close>

lemma on_header_field_ok:
  assumes "session_inv V w" "nv_phase V sid = Opened" "nv_data V sid = Some i"
  shows "sound (\<lambda>w'. session_inv V w' \<and> se_ng w' = se_ng w) (on_header_field k v i w)"
proof -
  have l: "live (nv_phase V sid)" using assms(2) by simp
  obtain s where s: "se_streams w i = Some s" "stream_in Opened sid s" "body_wf s"
    using live_stream [OF assms(1) l] assms(2,3) by (metis option.inject)
  have put: "session_inv V (put_stream i (s\<lparr>ss_request := r\<rparr>) w)" for r
    by (rule session_inv_put [OF assms(1) s(1)]) (use s(3) in \<open>simp_all add: body_wf_def split: list.splits\<close>)
  have "\<not> ss_request_sent s" using s(2) by (simp add: stream_in_def)
  then show ?thesis
    using s(1) put
    by (auto simp: on_header_field_def upd_stream_def stream_add_header_def stream_uri_host_def set_hostname_def
        intro!: sound_bind [OF header_sound])
qed

lemma on_header_ok:
  assumes "conforming L V" "keeps V dw" "inv_now V w" "request_frame f \<Longrightarrow> nv_phase (V (se_ng w)) (fr_stream_id f) = Opened"
  shows "sound (inv_now V) (on_header_callback L dw f k v w)"
  unfolding on_header_callback_def
proof (rule sound_bind [where P = "inv_now V"])
  show "sound (inv_now V) (if fr_type f = Frame_headers \<and> fr_cat f = HCAT_REQUEST
      then case ng_user_data L (se_ng w) (fr_stream_id f) of None \<Rightarrow> Inr w | Some i \<Rightarrow> on_header_field k v i w else Inr w)"
  proof (cases "request_frame f")
    case True
    note ph = assms(4) [OF True]
    then obtain i where i: "nv_data (V (se_ng w)) (fr_stream_id f) = Some i"
      using live_stream [OF assms(3), of "fr_stream_id f"] by auto
    have "sound (inv_now V) (on_header_field k v i w)"
      by (rule sound_mono [OF on_header_field_ok [OF assms(3) ph i]]) simp
    then show ?thesis
      using True ph i by (simp add: request_frame_def conforming_data [OF assms(1)] visible_def)
  next
    case False
    then have "\<not> (fr_type f = Frame_headers \<and> fr_cat f = HCAT_REQUEST)" by (simp add: request_frame_def)
    then show ?thesis using assms(3) by (simp only: if_False sound_simps)
  qed
qed (rule write_if_wanted_ok [OF assms(2)])

lemma on_frame_recv_ok:
  assumes "conforming L V" "keeps V dw" "session_inv V0 w" "allowed (On_frame_recv f) V0"
    and "V (se_ng w) = advance (On_frame_recv f) V0"
  shows "sound (inv_now V) (on_frame_recv_callback L dw f w)"
  unfolding on_frame_recv_callback_def
proof (rule sound_bind [where P = "inv_now V"])
  let ?sid = "fr_stream_id f"
  let ?body = "case ng_user_data L (se_ng w) ?sid of None \<Rightarrow> Inr w
      | Some i \<Rightarrow> res_bind (if fr_type f = Frame_headers \<and> fr_cat f = HCAT_REQUEST then on_request_header_complete i w else Inr w)
          (\<lambda>w. if end_stream_flag f then on_request_finished i w else Inr w)"
  note data = conforming_data [OF assms(1)]
  show "sound (inv_now V) ?body"
  proof (cases "request_frame f")
    case True
    then have ph: "nv_phase V0 ?sid = Opened" using assms(4) by simp
    then obtain i where i: "nv_data V0 ?sid = Some i" using live_stream [OF assms(3), of ?sid] by auto
    have vis: "visible (V (se_ng w)) ?sid = Some i" using assms(5) True i by (simp add: visible_def)
    let ?V1 = "V0\<lparr>nv_phase := (nv_phase V0)(?sid := Receiving)\<rparr>"
    obtain w1 where w1: "on_request_header_complete i w = Inr w1" "se_ng w1 = se_ng w" "session_inv ?V1 w1"
      using header_complete_ok [OF assms(3) ph i] by blast
    show ?thesis
    proof (cases "end_stream_flag f")
      case False
      then show ?thesis using True vis w1 assms(5) by (simp add: request_frame_def data)
    next
      case fin: True
      obtain w2 where w2: "on_request_finished i w1 = Inr w2" "se_ng w2 = se_ng w1"
        "session_inv (?V1\<lparr>nv_phase := (nv_phase ?V1)(?sid := Received)\<rparr>) w2"
        using request_finished_ok [OF w1(3), of ?sid i] i by auto
      then show ?thesis using True fin vis w1 assms(5) by (simp add: request_frame_def data)
    qed
  next
    case False
    show ?thesis
    proof (cases "end_stream_flag f \<and> nv_phase V0 ?sid = Receiving")
      case True
      then obtain i where i: "nv_data V0 ?sid = Some i" using live_stream [OF assms(3), of ?sid] by auto
      have vis: "visible (V (se_ng w)) ?sid = Some i" using assms(5) True False i by (simp add: visible_def)
      obtain w2 where "on_request_finished i w = Inr w2" "se_ng w2 = se_ng w"
        "session_inv (V0\<lparr>nv_phase := (nv_phase V0)(?sid := Received)\<rparr>) w2"
        using request_finished_ok [OF assms(3), of ?sid i] i True by auto
      then show ?thesis using True False vis assms(5) by (auto simp: request_frame_def data)
    next
      case quiet: False
      have V: "V (se_ng w) = V0" using False quiet assms(5) by auto
      show ?thesis
      proof (cases "end_stream_flag f")
        case True
        then have "nv_phase V0 ?sid \<in> {Idle, Gone}"
          using quiet False assms(4) by (cases "nv_phase V0 ?sid") auto
        then show ?thesis using V assms(3) by (auto simp: data visible_def)
      next
        case no_end: False
        then show ?thesis using V assms(3) False by (auto simp: request_frame_def split: option.splits)
      qed
    qed
  qed
qed (rule write_if_wanted_ok [OF assms(2)])

lemma stream_die_ok:
  assumes "session_inv V w" "live (nv_phase V sid)" "nv_data V sid = Some i"
  shows "\<exists>w'. stream_die i w = Inr w' \<and> se_ng w' = se_ng w
    \<and> session_inv (V\<lparr>nv_phase := (nv_phase V)(sid := Closing)\<rparr>) w'"
proof -
  let ?V = "V\<lparr>nv_phase := (nv_phase V)(sid := Closing)\<rparr>"
  obtain s where s: "se_streams w i = Some s" "stream_in (nv_phase V sid) sid s"
    using live_stream [OF assms(1,2)] assms(3) by (metis option.inject)
  then have sid: "so_id s = sid" by (simp add: stream_in_def)
  define w' where "w' = (if so_eof s \<or> so_errored s then stream_destroy i w else put_stream i (s\<lparr>so_closed := True\<rparr>) w)"
  have die: "stream_die i w = Inr w'" using s(1) by (simp add: stream_die_def w'_def)
  have others: "se_streams w' j = se_streams w j" if "j \<noteq> i" for j
    using that by (simp add: w'_def stream_destroy_def unsubscribe_def)
  have gone: "se_streams w' i = None \<or> (\<exists>t. se_streams w' i = Some t \<and> so_closed t)"
    by (simp add: w'_def stream_destroy_def)
  have heap: "heap_ok w" using assms(1) by (simp add: session_inv_def)
  have "heap_ok w'"
  proof (cases "so_eof s \<or> so_errored s")
    case True
    then show ?thesis using heap
      by (auto simp: w'_def stream_destroy_def unsubscribe_def heap_ok_def distinct_removeAll split: if_splits)
  next
    case False
    have "body_wf s" using heap s(1) unfolding heap_ok_def by blast
    then have "body_wf (s\<lparr>so_closed := True\<rparr>)" by (simp add: body_wf_def split: list.splits)
    then show ?thesis using False heap_ok_put [OF heap s(1)] by (simp add: w'_def)
  qed
  moreover have "bound_streams ?V w'"
    unfolding bound_streams_def
  proof (intro allI impI)
    fix sid'
    assume l: "live (nv_phase ?V sid')"
    then have ne: "sid' \<noteq> sid" and l': "live (nv_phase V sid')" by (auto split: if_splits)
    obtain j t where t: "nv_data V sid' = Some j" "se_streams w j = Some t" "stream_in (nv_phase V sid') sid' t"
      using live_stream [OF assms(1) l'] by metis
    have "j \<noteq> i" using address_unique [OF assms(1) l' assms(2)] t(1) assms(3) ne by auto
    then show "\<exists>j t. nv_data ?V sid' = Some j \<and> se_streams w' j = Some t \<and> stream_in (nv_phase ?V sid') sid' t"
      using t ne others by simp
  qed
  moreover have "owned ?V w'"
    unfolding owned_def
  proof (intro allI impI)
    fix j t
    assume t: "se_streams w' j = Some t \<and> \<not> so_closed t"
    then have ji: "j \<noteq> i" using gone by auto
    then have o: "live (nv_phase V (so_id t)) \<and> nv_data V (so_id t) = Some j"
      using t others [OF ji] assms(1) by (auto simp: session_inv_def owned_def)
    then have "so_id t \<noteq> sid" using assms(3) ji by auto
    then show "live (nv_phase ?V (so_id t)) \<and> nv_data ?V (so_id t) = Some j" using o by simp
  qed
  moreover have "se_ng w' = se_ng w" by (simp add: w'_def stream_destroy_def unsubscribe_def)
  ultimately show ?thesis using die by (simp add: session_inv_def)
qed

lemma on_stream_close_ok:
  assumes "conforming L V" "keeps V dw" "session_inv V0 w" "live (nv_phase V0 sid)"
    and "V (se_ng w) = V0\<lparr>nv_phase := (nv_phase V0)(sid := Closing)\<rparr>"
  shows "sound (inv_now V) (on_stream_close_callback L dw sid w)"
proof -
  obtain i where i: "nv_data V0 sid = Some i" using live_stream [OF assms(3,4)] by metis
  obtain w' where w': "stream_die i w = Inr w'" "se_ng w' = se_ng w"
    "session_inv (V0\<lparr>nv_phase := (nv_phase V0)(sid := Closing)\<rparr>) w'"
    using stream_die_ok [OF assms(3,4) i] by blast
  have "inv_now V w'" using w'(2,3) assms(5) by simp
  then show ?thesis
    using write_if_wanted_ok [OF assms(2), of w' L] i w'(1) assms(5)
    by (simp add: on_stream_close_callback_def conforming_data [OF assms(1)] visible_def)
qed

lemma on_data_chunk_ok:
  assumes "conforming L V" "keeps V dw" "inv_now V w" "nv_phase (V (se_ng w)) sid = Receiving"
  shows "sound (inv_now V) (on_data_chunk_recv_callback L dw sid d w)"
proof -
  have l: "live (nv_phase (V (se_ng w)) sid)" using assms(4) by simp
  obtain i s where s: "nv_data (V (se_ng w)) sid = Some i" "se_streams w i = Some s" "stream_in Receiving sid s"
    using live_stream [OF assms(3) l] assms(4) by metis
  then have "ss_req s \<noteq> None" by (simp add: stream_in_def)
  from on_req_ok [OF assms(3) s(2) this] obtain w' where
    "on_req (request_body d) i w = Inr w'" "session_inv (V (se_ng w)) w'" "se_ng w' = se_ng w" by blast
  then show ?thesis
    using write_if_wanted_ok [OF assms(2), of w' L] s(1) assms(4)
    by (simp add: on_data_chunk_recv_callback_def conforming_data [OF assms(1)] visible_def on_request_body_def)
qed

lemma read_callback_stream:
  fixes s :: server_stream
  assumes "body_wf s" "data_source_read_callback n s = (a, s')"
  shows "body_wf s'" "so_id s' = so_id s" "so_closed s' = so_closed s" "ss_request_sent s' = ss_request_sent s"
    "ss_req s' = ss_req s"
proof -
  show "body_wf s'" by (rule read_callback_cases [OF assms]) (use assms(1) in simp_all)
  show "so_id s' = so_id s" "so_closed s' = so_closed s" "ss_request_sent s' = ss_request_sent s" "ss_req s' = ss_req s"
    using assms(2) by (auto simp: data_source_read_callback_def take_chunk_def Let_def split: if_splits)
qed

lemma data_source_read_ok:
  assumes "session_inv V w" "live (nv_phase V sid)" "nv_data V sid = Some i"
  shows "\<exists>a w'. stream_data_source_read i n w = Inr (a, w') \<and> se_ng w' = se_ng w \<and> session_inv V w'"
proof -
  obtain s where s: "se_streams w i = Some s" "body_wf s"
    using live_stream [OF assms(1,2)] assms(3) by (metis option.inject)
  obtain a s' where r: "data_source_read_callback n s = (a, s')" by (cases "data_source_read_callback n s")
  have "session_inv V (put_stream i s' w)"
    by (rule session_inv_put [OF assms(1) s(1)]) (simp_all add: read_callback_stream [OF s(2) r])
  then show ?thesis using s(1) r by (simp add: stream_data_source_read_def)
qed

lemma set_protocol_HTTP11: "\<exists>r'. set_protocol HTTP11 r = Inr r'"
  by (simp add: set_protocol_def Let_def)

text \<open>A new stream takes a fresh address.\<close>

text \<open>A new stream under the next number, bound to an id that was idle.\<close>

lemma session_inv_new_stream:
  assumes inv: "session_inv V0 w" and idle: "nv_phase V0 sid = Idle"
    and s: "s = (out_new \<lparr>ss_status = None, ss_request = q, ss_request_sent = False, ss_req = Some (se_next w),
      ss_res = Some (se_next w)\<rparr>)\<lparr>so_id := sid\<rparr>"
    and w1: "w1 = w\<lparr>se_next := Suc (se_next w), se_listeners := se_listeners w @ [se_next w],
      se_streams := (se_streams w)(se_next w \<mapsto> s), se_requests := (se_requests w)(se_next w \<mapsto> request_new r),
      se_responses := (se_responses w)(se_next w \<mapsto> local_new)\<rparr>"
    and V: "nv_phase V1 = (nv_phase V0)(sid := Opened)" "nv_data V1 = (nv_data V0)(sid := Some (se_next w))"
  shows "session_inv V1 w1"
proof -
  have heap: "heap_ok w" and bnd: "bound_streams V0 w" and own: "owned V0 w"
    using inv by (simp_all add: session_inv_def)
  have fresh: "se_streams w (se_next w) = None" "se_next w \<notin> set (se_listeners w)"
    using heap unfolding heap_ok_def by (metis domI domIff less_irrefl not_None_eq option.distinct(1))+
  have wf: "body_wf s" by (simp add: s out_new_def body_wf_def)
  have "heap_ok w1"
    using heap fresh wf unfolding heap_ok_def by (auto simp: w1 s out_new_def less_Suc_eq)
  moreover have "bound_streams V1 w1"
    unfolding bound_streams_def
  proof (intro allI impI)
    fix sid'
    assume l: "live (nv_phase V1 sid')"
    show "\<exists>j t. nv_data V1 sid' = Some j \<and> se_streams w1 j = Some t \<and> stream_in (nv_phase V1 sid') sid' t"
    proof (cases "sid' = sid")
      case True
      then show ?thesis by (simp add: V w1 stream_in_def s out_new_def)
    next
      case False
      then obtain j t where "nv_data V0 sid' = Some j" "se_streams w j = Some t" "stream_in (nv_phase V0 sid') sid' t"
        using bnd l unfolding bound_streams_def V by auto
      then show ?thesis using False fresh by (auto simp: V w1)
    qed
  qed
  moreover have "owned V1 w1"
    unfolding owned_def
  proof (intro allI impI)
    fix j t
    assume t: "se_streams w1 j = Some t \<and> \<not> so_closed t"
    show "live (nv_phase V1 (so_id t)) \<and> nv_data V1 (so_id t) = Some j"
    proof (cases "j = se_next w")
      case True
      then have "t = s" using t by (simp add: w1)
      then show ?thesis using True by (simp add: V s)
    next
      case False
      then have o: "live (nv_phase V0 (so_id t)) \<and> nv_data V0 (so_id t) = Some j"
        using own t by (auto simp: owned_def w1)
      then have "so_id t \<noteq> sid" using idle by auto
      then show ?thesis using o by (simp add: V)
    qed
  qed
  ultimately show ?thesis by (simp add: session_inv_def)
qed

lemma begin_headers_ok:
  assumes "conforming L V" "session_inv V0 w" "request_frame f \<Longrightarrow> nv_phase V0 (fr_stream_id f) = Idle"
    and "V (se_ng w) = advance (On_begin_headers f) V0"
  shows "sound (inv_now V) (on_begin_headers_callback L f w)"
proof (cases "request_frame f")
  case False
  then show ?thesis using assms(2,4) by (auto simp: on_begin_headers_callback_def request_frame_def)
next
  case True
  let ?sid = "fr_stream_id f" and ?i = "se_next w"
  note idle = assms(3) [OF True]
  have heap: "heap_ok w" using assms(2) by (simp add: session_inv_def)
  have fresh: "se_streams w ?i = None" "?i \<notin> set (se_listeners w)"
    using heap unfolding heap_ok_def by (metis domI domIff less_irrefl not_None_eq option.distinct(1))+
  obtain r where r: "http_request_new False HTTP_GET = Inr r" using http_request_new_wf by blast
  obtain r' where r': "set_protocol HTTP11 r = Inr r'" using set_protocol_HTTP11 by blast
  define s where "s = (out_new \<lparr>ss_status = None, ss_request = set_origin (se_origin w) (set_channel HTTP20 r'),
      ss_request_sent = False, ss_req = Some ?i, ss_res = Some ?i\<rparr>)\<lparr>so_id := ?sid\<rparr>"
  define w1 where "w1 = w\<lparr>se_next := Suc ?i, se_listeners := se_listeners w @ [?i], se_streams := (se_streams w)(?i \<mapsto> s),
      se_requests := (se_requests w)(?i \<mapsto> request_new r), se_responses := (se_responses w)(?i \<mapsto> local_new)\<rparr>"
  define w2 where "w2 = (if se_request_cb w then log_h2 [H2_user_feedback ?i] w1 else w1)"
  obtain rv g where g: "ng_submit L (Set_user_data ?sid ?i) (se_ng w) = (rv, g)"
    by (cases "ng_submit L (Set_user_data ?sid ?i) (se_ng w)")
  define w3 where "w3 = (w2\<lparr>se_ng := g, se_calls := se_calls w2 @ [Set_user_data ?sid ?i]\<rparr>)
      \<lparr>se_stream_counter := se_stream_counter w2 + 1\<rparr>"
  have conn: "se_connector w" using heap by (simp add: heap_ok_def)
  have "create_stream L ?sid w = Inr w3"
    using fresh r r' conn g
    by (simp add: create_stream_def stream_new_def subscribe_def Let_def put_stream_def upd_stream_def the_stream_def
        stream_set_handlers_def ng_call_def w3_def w2_def w1_def s_def log_h2_def out_new_def)
  then have run: "on_begin_headers_callback L f w = Inr w3"
    using True by (simp add: on_begin_headers_callback_def request_frame_def)
  let ?V1 = "advance (On_begin_headers f) V0"
  have "answers (Set_user_data ?sid ?i) (V (se_ng w)) rv (V g)"
    using assms(1) g unfolding conforming_def by (metis fst_conv snd_conv)
  then have Vg: "V g = ?V1\<lparr>nv_data := (nv_data ?V1)(?sid := Some ?i)\<rparr>"
    using assms(4) True by simp
  have V: "nv_phase (V g) = (nv_phase V0)(?sid := Opened)" "nv_data (V g) = (nv_data V0)(?sid := Some ?i)"
    using True by (simp_all add: Vg)
  have "session_inv (V g) w1"
    by (rule session_inv_new_stream [OF assms(2) idle s_def w1_def V])
  moreover have "session_inv (V g) w3 = session_inv (V g) w1"
    by (rule session_inv_cong) (simp_all add: w3_def w2_def log_h2_def)
  moreover have "se_ng w3 = g" by (simp add: w3_def)
  ultimately show ?thesis using run by simp
qed

section \<open>The knot\<close>

lemma callback_ok:
  assumes "conforming L V" "keeps V dw" "session_inv V0 w" "allowed c V0" "V (se_ng w) = advance c V0"
  shows "sound (\<lambda>(a, w). inv_now V w) (session_callback L dw c w)"
proof -
  have zero: "sound (\<lambda>(a, w). inv_now V w) (res_bind r (\<lambda>w. Inr (Answer 0, w)))" if "sound (inv_now V) r" for r
    using that by (rule sound_bind) simp
  show ?thesis
  proof (cases c)
    case (On_frame_recv f)
    have "sound (inv_now V) (on_frame_recv_callback L dw f w)"
      by (rule on_frame_recv_ok [OF assms(1-3)]) (use assms(3-5) On_frame_recv in auto)
    then show ?thesis using zero On_frame_recv by (simp add: session_callback_def)
  next
    case (On_stream_close sid e)
    have "sound (inv_now V) (on_stream_close_callback L dw sid w)"
      by (rule on_stream_close_ok [OF assms(1-3)]) (use assms(3-5) On_stream_close in simp_all)
    then show ?thesis using zero On_stream_close by (simp add: session_callback_def)
  next
    case (On_begin_headers f)
    have "sound (inv_now V) (on_begin_headers_callback L f w)"
      by (rule begin_headers_ok [OF assms(1,3)]) (use assms(3-5) On_begin_headers in simp_all)
    then show ?thesis using zero On_begin_headers by (simp add: session_callback_def)
  next
    case (On_header f k v)
    have "sound (inv_now V) (on_header_callback L dw f k v w)"
      by (rule on_header_ok [OF assms(1,2)]) (use assms(3-5) On_header in simp_all)
    then show ?thesis using zero On_header by (simp add: session_callback_def)
  next
    case (On_data_chunk sid d)
    have "sound (inv_now V) (on_data_chunk_recv_callback L dw sid d w)"
      by (rule on_data_chunk_ok [OF assms(1,2)]) (use assms(3-5) On_data_chunk in simp_all)
    then show ?thesis using zero On_data_chunk by (simp add: session_callback_def)
  next
    case (Frame_not_send f e)
    then have "frame_not_send_callback L f w = Inr w"
      using assms(4) by (auto simp: frame_not_send_callback_def request_frame_def)
    then show ?thesis using Frame_not_send assms(3,5) by (simp add: session_callback_def)
  next
    case (Data_source_read i n)
    then obtain sid where "live (nv_phase V0 sid)" "nv_data V0 sid = Some i" using assms(4) by auto
    then obtain a w' where "stream_data_source_read i n w = Inr (a, w')" "se_ng w' = se_ng w" "session_inv V0 w'"
      using data_source_read_ok [OF assms(3)] by blast
    then show ?thesis using Data_source_read assms(5) by (simp add: session_callback_def)
  qed (use assms(3,5) in \<open>simp_all add: session_callback_def\<close>)
qed

lemma conforming_resume:
  "conforming L V \<Longrightarrow> inv_now V w \<Longrightarrow> inv_now V (w\<lparr>se_ng := ng_resume L a (se_ng w)\<rparr>)"
  "conforming L V \<Longrightarrow> inv_now V w \<Longrightarrow> inv_now V (w\<lparr>se_ng := ng_enter_send L (se_ng w)\<rparr>)"
  "conforming L V \<Longrightarrow> inv_now V w \<Longrightarrow> inv_now V (w\<lparr>se_ng := ng_enter_recv L d (se_ng w)\<rparr>)"
  by (auto simp: conforming_def intro: session_inv_forgets)

lemma conforming_turn:
  assumes "conforming L V" "ng_turn L g = (t, g')"
  shows "case t of Call c \<Rightarrow> allowed c (V g) \<and> V g' = advance c (V g) | Return r s \<Rightarrow> forgets (V g) (V g')"
proof -
  have "case ng_turn L g of (Call c, g') \<Rightarrow> allowed c (V g) \<and> V g' = advance c (V g)
      | (Return r s, g') \<Rightarrow> forgets (V g) (V g')"
    using assms(1) [unfolded conforming_def, THEN conjunct1, THEN spec] .
  then show ?thesis using assms(2) by (cases t) simp_all
qed

lemma ng_run_ok:
  assumes "conforming L V" "keeps V dw"
  shows "inv_now V w \<Longrightarrow> sound (\<lambda>(r, s, w). inv_now V w) (ng_run L (session_callback L dw) n w)"
proof (induction n arbitrary: w)
  case (Suc n)
  obtain t g where t: "ng_turn L (se_ng w) = (t, g)" by (cases "ng_turn L (se_ng w)")
  show ?case
  proof (cases t)
    case (Call c)
    have "allowed c (V (se_ng w))" "V g = advance c (V (se_ng w))"
      using conforming_turn [OF assms(1) t] Call by simp_all
    then have "sound (\<lambda>(a, w). inv_now V w) (session_callback L dw c (w\<lparr>se_ng := g\<rparr>))"
      using Suc.prems by (intro callback_ok [OF assms]) simp_all
    then show ?thesis
      using t Call Suc.IH conforming_resume(1) [OF assms(1)] by (auto intro!: sound_bind)
  next
    case (Return r s)
    then have "forgets (V (se_ng w)) (V g)"
      using conforming_turn [OF assms(1) t] by simp
    then show ?thesis using t Return session_inv_forgets [OF Suc.prems] by simp
  qed
qed simp

lemma do_write_keeps: "conforming L V \<Longrightarrow> keeps V (session_do_write L n)"
proof (induction n)
  case (Suc n)
  have "sound (inv_now V) (session_do_write L (Suc n) w)" if inv: "inv_now V w" for w
  proof -
    have ow: "sound (\<lambda>(ok, out, w). inv_now V w) (session_on_write L (session_do_write L n) n ((renew_ttl w)\<lparr>cn_out := []\<rparr>))"
    proof -
      have "inv_now V ((renew_ttl w)\<lparr>cn_out := []\<rparr>)" using inv by simp
      from ng_run_ok [OF Suc.prems Suc.IH [OF Suc.prems] conforming_resume(2) [OF Suc.prems this], of n]
      show ?thesis using inv
        by (simp add: session_on_write_def mem_send_def) (auto elim!: sound_bind)
    qed
    show ?thesis using inv
      by (auto simp: do_write_fallible_def session_write_feedbacks_def Let_def intro!: sound_bind [OF ow])
  qed
  then show ?case by (simp add: keeps_def)
qed (simp add: keeps_def)

lemma on_read_safe:
  assumes "conforming L V" "inv_now V w"
  shows "case server_on_read L n d w of Inr (ok, w') \<Rightarrow> inv_now V w' | Inl f \<Rightarrow> f \<noteq> Undefined_behaviour"
proof -
  let ?dw = "session_do_write L n"
  note keeps = do_write_keeps [OF assms(1), of n]
  have run: "sound (\<lambda>(r, s, w). inv_now V w) (mem_recv L (session_callback L ?dw) n d w)"
    unfolding mem_recv_def by (rule ng_run_ok [OF assms(1) keeps conforming_resume(3) [OF assms]])
  show ?thesis
  proof (cases "mem_recv L (session_callback L ?dw) n d w")
    case (Inl f)
    then show ?thesis using run by (simp add: server_on_read_def session_on_read_def)
  next
    case (Inr x)
    obtain rv s w1 where x: "x = (rv, s, w1)" by (cases x)
    have inv: "inv_now V w1" using run Inr x by simp
    have ga: "inv_now V w2" if "go_away L w1 = Inr w2" for w2
    proof -
      obtain r g where g: "ng_submit L (Submit_goaway (ng_last_proc_stream_id L (se_ng w1))) (se_ng w1) = (r, g)"
        by (cases "ng_submit L (Submit_goaway (ng_last_proc_stream_id L (se_ng w1))) (se_ng w1)")
      have "answers (Submit_goaway (ng_last_proc_stream_id L (se_ng w1))) (V (se_ng w1)) r (V g)"
        using assms(1) g unfolding conforming_def by (metis fst_conv snd_conv)
      then show ?thesis using that inv g by (auto simp: go_away_def ng_call_def split: if_splits)
    qed
    have dw: "case write_if_wanted L ?dw w2 of Inr w3 \<Rightarrow> inv_now V w3 | Inl f \<Rightarrow> f \<noteq> Undefined_behaviour"
      if "inv_now V w2" for w2
      using write_if_wanted_ok [OF keeps that, of L] by (cases "write_if_wanted L ?dw w2") simp_all
    have fault: "f \<noteq> Undefined_behaviour" if "go_away L w1 = Inl f" for f
      using that by (auto simp: go_away_def Let_def split: if_splits prod.splits)
    let ?k = "\<lambda>w2. assert_that (unat (word_of_int rv :: 32 word) = length d)
        (res_bind (write_if_wanted L ?dw w2) (\<lambda>w. Inr (True, w)))"
    have k: "case ?k w2 of Inr (ok, w') \<Rightarrow> inv_now V w' | Inl f \<Rightarrow> f \<noteq> Undefined_behaviour" if "inv_now V w2" for w2
      using dw [OF that] by (cases "write_if_wanted L ?dw w2") (simp_all add: assert_that_def)
    have read: "server_on_read L n d w = (if rv < 0 \<and> rv \<noteq> NGHTTP2_ERR_FLOODED \<and> rv \<noteq> NGHTTP2_ERR_CALLBACK_FAILURE
        then Inr (False, w1) else res_bind (if rv < 0 then go_away L w1 else Inr w1) ?k)"
      using Inr x by (simp add: server_on_read_def session_on_read_def)
    show ?thesis
      using inv k [OF inv] k ga fault by (cases "go_away L w1") (simp_all add: read)
  qed
qed

text \<open>
  A call of the user is in order if the headers come first and at most once, and if the response
  has no more trailers than headers when it ends.
\<close>

fun call_ready :: "response_call \<Rightarrow> server_stream \<Rightarrow> bool" where
  "call_ready (C_headers r) s \<longleftrightarrow> \<not> so_headers_sent s"
| "call_ready (C_body d) s \<longleftrightarrow> ss_status s \<noteq> None \<and> length (so_trailers s) \<le> so_nvlen s"
| "call_ready C_end s \<longleftrightarrow> ss_status s \<noteq> None \<and> length (so_trailers s) \<le> so_nvlen s"
| "call_ready _ s \<longleftrightarrow> True"

lemma ng_call_ok:
  assumes "conforming L V" "inv_now V w" "ng_call L r w = (rv, w')" "\<And>sid i. r \<noteq> Set_user_data sid i"
  shows "inv_now V w'" "se_streams w' = se_streams w" "V (se_ng w') = V (se_ng w)"
    "r = Submit_response sid h i \<or> r = Submit_headers sid h \<Longrightarrow> live (nv_phase (V (se_ng w)) sid) \<Longrightarrow> rv = 0"
proof -
  obtain g where g: "ng_submit L r (se_ng w) = (rv, g)" "w' = w\<lparr>se_ng := g, se_calls := se_calls w @ [r]\<rparr>"
    using assms(3) by (cases "ng_submit L r (se_ng w)") (simp add: ng_call_def)
  have a: "answers r (V (se_ng w)) rv (V g)"
    using assms(1) g(1) unfolding conforming_def by (metis fst_conv snd_conv)
  have "V g = V (se_ng w)" using a assms(4) by (cases r) auto
  then show "inv_now V w'" "se_streams w' = se_streams w" "V (se_ng w') = V (se_ng w)"
    using g(2) assms(2) by simp_all
  show "rv = 0" if "r = Submit_response sid h i \<or> r = Submit_headers sid h" "live (nv_phase (V (se_ng w)) sid)"
    using that a by auto
qed

lemma sound_noexcept: "sound P r \<Longrightarrow> sound P (noexcept_call r)"
  by (cases r) (auto simp: noexcept_call_def split: fault.splits)

lemma flush_ok:
  assumes "conforming L V" "keeps V dw" "inv_now V w" "se_streams w i = Some s"
    and "ss_status s \<noteq> None" "length (so_trailers s) \<le> so_nvlen s \<or> \<not> so_headers_sent s"
  shows "sound (inv_now V) (stream_flush L dw i w)"
proof -
  obtain st where st: "ss_status s = Some st" using assms(5) by auto
  have wf: "body_wf s" using assms(3,4) unfolding session_inv_def heap_ok_def by blast
  note call = ng_call_ok [OF assms(1,3)]
  have put: "inv_now V (put_stream i t w')"
    if "inv_now V w'" "se_streams w' = se_streams w" "t = s\<lparr>so_resume_needed := False\<rparr> \<or> t = s\<lparr>so_headers_sent := True\<rparr>
      \<or> t = s\<lparr>so_trailers_nvlen := m, so_trailers_nva := a\<rparr>" for w' t m a
    using session_inv_put [OF that(1), of i s t] that(2,3) assms(4) wf
    by (auto simp: body_wf_def split: list.splits)
  show ?thesis
  proof (cases "so_closed s")
    case True
    then show ?thesis using assms(3,4) by (simp add: stream_flush_def)
  next
    case False
    then have l: "live (nv_phase (V (se_ng w)) (so_id s))"
      using assms(3,4) unfolding session_inv_def owned_def by blast
    obtain r1 w1 where c1: "ng_call L (Resume_data (so_id s)) w = (r1, w1)" by (cases "ng_call L (Resume_data (so_id s)) w")
    obtain r2 w2 where c2: "ng_call L (Submit_response (so_id s) (submitted_headers s) i) w = (r2, w2)"
      by (cases "ng_call L (Submit_response (so_id s) (submitted_headers s) i) w")
    obtain r3 w3 where c3: "ng_call L (Submit_headers (so_id s) (submitted_headers s)) w = (r3, w3)"
      by (cases "ng_call L (Submit_headers (so_id s) (submitted_headers s)) w")
    have zero: "r2 = 0" "r3 = 0" using call(4) [OF c2] call(4) [OF c3] l by auto
    have tr: "sound (inv_now V) (submit_trailers L i s w)" if "length (so_trailers s) \<le> so_nvlen s"
    proof -
      let ?w = "put_stream i (s\<lparr>so_trailers_nvlen := length (so_trailers s), so_trailers_nva := Some (so_trailers s)\<rparr>) w"
      have "inv_now V ?w" using assms(3) by (intro put) auto
      from ng_call_ok(1) [OF assms(1) this, of "Submit_trailer (so_id s) (so_trailers s)"]
      have "inv_now V (snd (ng_call L (Submit_trailer (so_id s) (so_trailers s)) ?w))"
        by (cases "ng_call L (Submit_trailer (so_id s) (so_trailers s)) ?w") simp
      then show ?thesis using that by (simp add: submit_trailers_def fill_headers_def)
    qed
    have "inv_now V (put_stream i (s\<lparr>so_resume_needed := False\<rparr>) w1)"
      by (rule put) (use call(1,2) [OF c1] in auto)
    moreover have "inv_now V (put_stream i (s\<lparr>so_headers_sent := True\<rparr>) w2)"
      by (rule put) (use call(1,2) [OF c2] in auto)
    moreover have "inv_now V w3" using call(1) [OF c3] by simp
    ultimately have "sound (inv_now V)
       (if st \<noteq> 101 then
           if so_resume_needed s
           then Inr (put_stream i (s\<lparr>so_resume_needed := False\<rparr>) (snd (ng_call L (Resume_data (so_id s)) w)))
           else if \<not> so_headers_sent s
           then (let (r, w) = ng_call L (Submit_response (so_id s) (submitted_headers s) i) w
                 in assert_that (r = 0) (Inr (put_stream i (s\<lparr>so_headers_sent := True\<rparr>) w)))
           else if so_body_sent s \<and> so_eof s then submit_trailers L i s w
           else Inr w
         else (let (r, w) = ng_call L (Submit_headers (so_id s) (submitted_headers s)) w
               in assert_that (r = 0) (Inr w)))"
      using tr assms(3,6) zero by (auto simp: c1 c2 c3)
    then show ?thesis
      using False st assms(4) by (auto simp: stream_flush_def intro!: sound_noexcept sound_bind keepsD [OF assms(2)])
  qed
qed

lemma destroy_closed:
  assumes "session_inv V w" "se_streams w i = Some s" "so_closed s"
  shows "session_inv V (stream_destroy i w)"
proof -
  have "heap_ok (stream_destroy i w)"
    using assms(1) by (auto simp: session_inv_def stream_destroy_def unsubscribe_def heap_ok_def distinct_removeAll split: if_splits)
  moreover have "bound_streams V (stream_destroy i w)"
    unfolding bound_streams_def
  proof (intro allI impI)
    fix sid
    assume l: "live (nv_phase V sid)"
    then obtain j t where t: "nv_data V sid = Some j" "se_streams w j = Some t" "stream_in (nv_phase V sid) sid t"
      using live_stream [OF assms(1) l] by metis
    then have "j \<noteq> i" using assms(2,3) by (auto simp: stream_in_def)
    then show "\<exists>j t. nv_data V sid = Some j \<and> se_streams (stream_destroy i w) j = Some t \<and> stream_in (nv_phase V sid) sid t"
      using t by (auto simp: stream_destroy_def unsubscribe_def)
  qed
  moreover have "owned V (stream_destroy i w)"
    using assms(1) by (auto simp: session_inv_def owned_def stream_destroy_def unsubscribe_def split: if_splits)
  ultimately show ?thesis by (simp add: session_inv_def)
qed

lemma response_block_sound: "sound (\<lambda>_. True) (response_block resp m)"
  by (auto simp: response_block_def trailers_encoding_def intro!: sound_bind header_sound)

lemma response_call_ok:
  assumes "conforming L V" "inv_now V w" "se_streams w i = Some s" "call_ready c s"
  shows "sound (inv_now V) (response_call L n i c w)"
proof -
  let ?dw = "session_do_write L n"
  note keeps = do_write_keeps [OF assms(1), of n]
  have wf: "body_wf s" using assms(2,3) unfolding session_inv_def heap_ok_def by blast
  have put: "inv_now V (put_stream i t w)"
    if "body_wf t" "so_id t = so_id s" "so_closed t = so_closed s" "ss_request_sent t = ss_request_sent s" "ss_req t = ss_req s" for t
    using session_inv_put [OF assms(2,3) that] by simp
  show ?thesis
  proof (cases c)
    case (C_headers resp)
    have "sound (inv_now V) (stream_flush L ?dw i (put_stream i (s\<lparr>so_prepared_headers := b,
        so_nvlen := length b, so_nva := Some b, ss_status := st\<rparr>) w))" if "st \<noteq> None" for b st
      by (rule flush_ok [OF assms(1) keeps put, where s = "s\<lparr>so_prepared_headers := b,
            so_nvlen := length b, so_nva := Some b, ss_status := st\<rparr>"])
        (use wf that C_headers assms(4) in \<open>simp_all add: body_wf_def split: list.splits\<close>)
    then show ?thesis
      using C_headers assms(3)
      by (auto simp: response_call_def stream_on_header_def fill_headers_def Let_def
          intro!: sound_bind [OF response_block_sound])
  next
    case (C_body d)
    let ?t = "s\<lparr>so_body := so_body s @ [d]\<rparr>"
    have "body_wf ?t" using wf by (auto simp: body_wf_def split: list.splits)
    then have "sound (inv_now V) (stream_flush L ?dw i (put_stream i ?t w))"
      by (intro flush_ok [OF assms(1) keeps put]) (use C_body assms(4) in auto)
    then show ?thesis using C_body assms(3) by (simp add: response_call_def stream_on_body_def upd_stream_def)
  next
    case (C_trailer k v)
    have "inv_now V (put_stream i (s\<lparr>so_trailers := mm_insert k v (so_trailers s)\<rparr>) w)"
      by (rule put) (use wf in \<open>simp_all add: body_wf_def split: list.splits\<close>)
    then show ?thesis using C_trailer assms(3) by (simp add: response_call_def stream_on_trailer_def upd_stream_def)
  next
    case C_end
    let ?t = "s\<lparr>so_eof := True\<rparr>"
    have inv: "inv_now V (put_stream i ?t w)"
      by (rule put) (use wf in \<open>simp_all add: body_wf_def split: list.splits\<close>)
    show ?thesis
    proof (cases "so_closed s")
      case True
      have "session_inv (V (se_ng w)) (stream_destroy i (put_stream i ?t w))"
        by (rule destroy_closed [where s = ?t]) (use inv True in simp_all)
      then show ?thesis using C_end assms(3) True
        by (simp add: response_call_def stream_on_eom_def stream_die_def stream_destroy_def unsubscribe_def)
    next
      case False
      have "inv_now V (add_pending_callbacks r (put_stream i ?t w))" for r
        using inv by (simp add: add_pending_callbacks_def)
      then have "sound (inv_now V) (stream_flush L ?dw i
          (case live_response s (put_stream i ?t w) of None \<Rightarrow> put_stream i ?t w | Some r \<Rightarrow> add_pending_callbacks r (put_stream i ?t w)))"
        using inv C_end assms(4)
        by (cases "live_response s (put_stream i ?t w)")
          (auto intro!: flush_ok [OF assms(1) keeps] simp: add_pending_callbacks_def)
      then show ?thesis using C_end assms(3) False by (simp add: response_call_def stream_on_eom_def Let_def)
    qed
  qed (simp add: response_call_def)
qed

section \<open>Reachable states\<close>

text \<open>
  A session starts on a connection when the library knows no stream; then the connector brings
  bytes or asks for output, and the user answers, in any order.
\<close>

inductive server_reach :: "'n nghttp2 \<Rightarrow> ('n \<Rightarrow> ng_view) \<Rightarrow> nat \<Rightarrow> 'n session \<Rightarrow> bool" for L V n where
  reach_new: "(\<And>sid. nv_phase (V g) sid = Idle) \<Longrightarrow>
    server_reach L V n ((session_new m g)\<lparr>se_connector := True, se_request_cb := b, se_origin := a\<rparr>)"
| reach_read: "server_reach L V n w \<Longrightarrow> server_on_read L n d w = Inr (ok, w') \<Longrightarrow> server_reach L V n w'"
| reach_write: "server_reach L V n w \<Longrightarrow> session_do_write L n w = Inr w' \<Longrightarrow> server_reach L V n w'"
| reach_call: "server_reach L V n w \<Longrightarrow> se_streams w i = Some s \<Longrightarrow> call_ready c s \<Longrightarrow>
    response_call L n i c w = Inr w' \<Longrightarrow> server_reach L V n w'"

lemma reach_inv:
  assumes "conforming L V"
  shows "server_reach L V n w \<Longrightarrow> inv_now V w"
proof (induction rule: server_reach.induct)
  case (reach_new g m b a)
  then show ?case
    by (simp add: session_inv_def heap_ok_def bound_streams_def owned_def session_new_def connector.defs h2_base.defs session.defs)
next
  case (reach_read w d ok w')
  then show ?case using on_read_safe [OF assms, of w n d] by simp
next
  case (reach_write w w')
  then show ?case using keepsD [OF do_write_keeps [OF assms], of w n] by simp
next
  case (reach_call w i s c w')
  then show ?case using response_call_ok [OF assms, of w i s c n] by simp
qed

end
