(* ===== verification/H2_Properties.thy ===== *)
theory H2_Properties
  imports H2_Safety
begin

text \<open>
  Properties of the server's side of HTTP/2: what reaches the peer of the body, the header block
  and the trailers of a response, what becomes of the path of a request, and how the session
  behaves when the library calls back.
\<close>

section \<open>A library that follows a script\<close>

text \<open>
  It makes the calls of its script that the phases allow and returns at the first that they do
  not; every submission succeeds.
\<close>

record scripted =
  sc_turns :: "ng_turn list"
  sc_view :: ng_view
  sc_want_write :: bool

definition scripted_turn :: "scripted \<Rightarrow> ng_turn \<times> scripted" where
  "scripted_turn g = (case sc_turns g of
     [] \<Rightarrow> (Return 0 [], g)
   | Return r s # ts \<Rightarrow> (Return r s, g\<lparr>sc_turns := ts\<rparr>)
   | Call c # ts \<Rightarrow>
       if (case c of Data_source_read i n \<Rightarrow> False | _ \<Rightarrow> allowed c (sc_view g))
       then (Call c, g\<lparr>sc_turns := ts, sc_view := advance c (sc_view g)\<rparr>) else (Return 0 [], g))"

definition scripted_library :: "scripted nghttp2" where
  "scripted_library = \<lparr>
     ng_submit = (\<lambda>r g. (0, case r of
        Set_user_data sid i \<Rightarrow> g\<lparr>sc_view := (sc_view g)\<lparr>nv_data := (nv_data (sc_view g))(sid := Some i)\<rparr>\<rparr>
      | _ \<Rightarrow> g)),
     ng_user_data = (\<lambda>g. visible (sc_view g)), ng_want_read = (\<lambda>g. True), ng_want_write = sc_want_write,
     ng_last_proc_stream_id = (\<lambda>g. 0), ng_enter_send = (\<lambda>g. g), ng_enter_recv = (\<lambda>d g. g),
     ng_turn = scripted_turn, ng_resume = (\<lambda>a g. g)\<rparr>"

definition idle_view :: ng_view where
  "idle_view = \<lparr>nv_phase = (\<lambda>sid. Idle), nv_data = (\<lambda>sid. None)\<rparr>"

lemma forgets_refl [simp]: "forgets V V"
  by (simp add: forgets_def)

lemma scripted_conforming: "conforming scripted_library sc_view"
proof -
  have "case scripted_turn g of (Call c, g') \<Rightarrow> allowed c (sc_view g) \<and> sc_view g' = advance c (sc_view g)
       | (Return r s, g') \<Rightarrow> forgets (sc_view g) (sc_view g')" for g
    by (auto simp: scripted_turn_def split: list.splits ng_turn.splits ng_callback.splits)
  moreover have "answers r (sc_view g) (fst (ng_submit scripted_library r g)) (sc_view (snd (ng_submit scripted_library r g)))" for r g
    by (cases r) (simp_all add: scripted_library_def)
  ultimately show ?thesis by (simp add: conforming_def) (simp add: scripted_library_def)
qed

section \<open>Memory safety\<close>


definition get_frame :: frame where
  "get_frame = \<lparr>fr_type = Frame_headers, fr_stream_id = 1, fr_cat = HCAT_REQUEST, fr_flags = 5\<rparr>"

definition scripted_session :: "ng_turn list \<Rightarrow> bool \<Rightarrow> scripted session" where
  "scripted_session ts b = (session_new 100 \<lparr>sc_turns = ts, sc_view = idle_view, sc_want_write = b\<rparr>)
     \<lparr>se_connector := True, se_request_cb := True, se_origin := Ip_v4 1\<rparr>"

definition get_turns :: "ng_turn list" where
  "get_turns = [Call (On_begin_headers get_frame), Call (On_header get_frame '':method'' ''GET''),
     Call (On_header get_frame '':path'' ''/''), Call (On_frame_recv get_frame), Return 3 []]"

text \<open>A session that has read a request: the stream is there and can be answered.\<close>

definition after_get :: "scripted session" where
  "after_get = snd (projr (server_on_read scripted_library (Suc (Suc (Suc (Suc (Suc (Suc 0)))))) ''abc'' (scripted_session get_turns False)))"

definition new_request :: http_request where
  "new_request = projr (http_request_new False HTTP_GET)"

definition stream_request :: http_request where
  "stream_request = projr (set_protocol HTTP11 new_request)"

lemma new_requests:
  "http_request_new False HTTP_GET = Inr new_request" "set_protocol HTTP11 new_request = Inr stream_request"
  using http_request_new_wf [of False HTTP_GET] set_protocol_HTTP11 [of new_request]
  by (auto simp: new_request_def stream_request_def)

lemmas script_steps = session_do_write.simps do_write_fallible_def session_on_write_def mem_send_def mem_recv_def
  session_on_read_def server_on_read_def session_callback_def on_begin_headers_callback_def on_header_callback_def
  on_frame_recv_callback_def on_stream_close_callback_def on_data_chunk_recv_callback_def create_stream_def
  stream_new_def subscribe_def put_stream_def upd_stream_def the_stream_def ng_call_def stream_set_handlers_def
  on_header_field_def on_req_def on_request_header_complete_def on_request_finished_def write_if_wanted_def
  scripted_library_def scripted_turn_def visible_def request_frame_def end_stream_flag_def FLAG_END_STREAM_def
  new_requests Let_def log_h2_def request_ops out_new_def

lemmas session_defs = session_new_def connector.defs h2_base.defs session.defs idle_view_def

lemma after_get_run:
  "\<exists>s. server_on_read scripted_library (Suc (Suc (Suc (Suc (Suc (Suc 0)))))) ''abc'' (scripted_session get_turns False) = Inr (True, after_get)
    \<and> se_streams after_get 0 = Some s \<and> \<not> so_headers_sent s \<and> se_listeners after_get = [0]"
  by (simp add: after_get_def script_steps scripted_session_def get_turns_def get_frame_def session_defs request_new_def
      remote_callbacks.defs request.defs)

lemma after_get_reach: "server_reach scripted_library sc_view (Suc (Suc (Suc (Suc (Suc (Suc 0)))))) after_get"
proof -
  have "server_reach scripted_library sc_view (Suc (Suc (Suc (Suc (Suc (Suc 0)))))) (scripted_session get_turns False)"
    unfolding scripted_session_def by (rule reach_new) (simp add: idle_view_def)
  then show ?thesis using after_get_run by (blast intro: reach_read)
qed


section \<open>Callbacks that write\<close>


text \<open>The server's session after a request, when it is asked for output and the stream is closed meanwhile.\<close>

definition closing_session :: "scripted session" where
  "closing_session = after_get\<lparr>se_ng := (se_ng after_get)\<lparr>sc_want_write := True,
     sc_turns := [Call (On_stream_close 1 0), Return 1 ''a'', Return 1 ''b'']\<rparr>\<rparr>"

lemma after_get_fields:
  "sc_view (se_ng after_get) = \<lparr>nv_phase = (\<lambda>sid. Idle)(1 := Received), nv_data = [1 \<mapsto> 0]\<rparr>"
  "se_connector after_get" "cn_inflight after_get = []" "cn_writing after_get = False" "cn_stopped after_get = False"
  by (simp_all add: after_get_def script_steps scripted_session_def get_turns_def get_frame_def session_defs request_new_def
      remote_callbacks.defs request.defs connector_new_def)


section \<open>Floods\<close>

text \<open>
  A peer that floods the session, and a callback that fails, end the process: the session
  answers with \<open>GOAWAY\<close> and then asserts that all bytes were consumed, comparing the negative
  error code with their number.
\<close>

theorem flood_aborts:
  assumes "mem_recv L (session_callback L (session_do_write L n)) n d w = Inr (rv, s, w1)"
    and "rv = NGHTTP2_ERR_FLOODED \<or> rv = NGHTTP2_ERR_CALLBACK_FAILURE"
    and "0 \<le> fst (ng_call L (Submit_goaway (ng_last_proc_stream_id L (se_ng w1))) w1)"
    and "length d \<le> MAXINBYTESPERLOOP"
  shows "server_on_read L n d w = Inl Assert_failed"
proof -
  have "rv = - 904 \<or> rv = - 902"
    using assms(2) by (simp add: NGHTTP2_ERR_FLOODED_def NGHTTP2_ERR_CALLBACK_FAILURE_def)
  moreover have "unat (word_of_int (- 904) :: 32 word) = 4294966392" "unat (word_of_int (- 902) :: 32 word) = 4294966394"
    by simp_all
  ultimately have "unat (word_of_int rv :: 32 word) = 4294966392 \<or> unat (word_of_int rv :: 32 word) = 4294966394"
    by (elim disjE) (simp_all only: simp_thms)
  then have "unat (word_of_int rv :: 32 word) > MAXINBYTESPERLOOP"
    unfolding MAXINBYTESPERLOOP_def by (elim disjE) linarith+
  then have ne: "unat (word_of_int rv :: 32 word) \<noteq> length d" using assms(4) by simp
  have neg: "rv < 0" using assms(2) by (auto simp: NGHTTP2_ERR_FLOODED_def NGHTTP2_ERR_CALLBACK_FAILURE_def)
  obtain r w2 where "ng_call L (Submit_goaway (ng_last_proc_stream_id L (se_ng w1))) w1 = (r, w2)" "0 \<le> r"
    using assms(3) by (cases "ng_call L (Submit_goaway (ng_last_proc_stream_id L (se_ng w1))) w1") auto
  then have "go_away L w1 = Inr (w2\<lparr>se_gone := True\<rparr>)" by (simp add: go_away_def)
  then show ?thesis using assms(1,2) ne neg by (auto simp: server_on_read_def session_on_read_def)
qed

lemma flood_aborts_witness:
  "server_on_read scripted_library (Suc (Suc 0)) ''xyz'' (scripted_session [Return (- 904) []] False) = Inl Assert_failed"
  by (rule flood_aborts [where rv = "- 904" and s = "[]" and ?w1.0 = "scripted_session [] False"];
    simp add: mem_recv_def scripted_library_def scripted_turn_def scripted_session_def session_defs
      NGHTTP2_ERR_FLOODED_def ng_call_def MAXINBYTESPERLOOP_def)

section \<open>The path of a request\<close>

lemma set_path_fields:
  assumes "decode_path v = (path, query, fragment)"
  shows "rq_path (set_path v r) = path" "rq_query (set_path v r) = (if query \<noteq> [] then query else rq_query r)"
    "rq_fragment (set_path v r) = (if fragment \<noteq> [] then fragment else rq_fragment r)"
  using assms by (simp_all add: set_path_def Let_def)

text \<open>
  C33: a query is taken over with its question mark, and once more as the fragment: the target
  that a request read from HTTP/2 is forwarded with is not the one it came with.
\<close>

theorem h2_target_corrupted:
  assumes "CHR ''?'' \<notin> set path" "path \<noteq> []" "CHR ''#'' \<notin> set query"
  shows "request_target (set_path (path @ ''?'' @ query) r)
    = path @ ''??'' @ query @ ''#?'' @ query"
proof -
  have 1: "takeWhile (\<lambda>c. c \<noteq> CHR ''?'') (path @ CHR ''?'' # query) = path"
    using assms(1) by (subst takeWhile_append2) auto
  have 2: "takeWhile (\<lambda>c. c \<noteq> CHR ''#'') query = query"
    using assms(3) by (auto simp: takeWhile_eq_all_conv)
  have "decode_path (path @ ''?'' @ query) = (path, ''?'' @ query, ''?'' @ query)"
    by (simp add: decode_path_def Let_def 1) (simp only: 2 order_refl)
  from set_path_fields [OF this, of r] show ?thesis
    using assms(2) by (simp add: request_target_def questionmark_def hash_def)
qed

lemma h2_target_corrupted_witness:
  "request_target (set_path ''/a?x=1'' new_request) = ''/a??x=1#?x=1''"
  using h2_target_corrupted [of "''/a''" "''x=1''" new_request] by simp

text \<open>A target without a query is taken over as it is.\<close>

lemma h2_target_plain:
  assumes "CHR ''?'' \<notin> set path" "path \<noteq> []" "rq_query r = []" "rq_fragment r = []"
  shows "request_target (set_path path r) = path"
proof -
  have "takeWhile (\<lambda>c. c \<noteq> CHR ''?'') path = path"
    using assms(1) by (auto simp: takeWhile_eq_all_conv)
  then have "decode_path path = (path, [], [])" by (simp only: decode_path_def Let_def) simp
  from set_path_fields [OF this, of r] show ?thesis using assms by (simp add: request_target_def)
qed

section \<open>The body of a response\<close>

text \<open>
  C9: while the end of a response is not known, or if trailers follow it, the library is handed
  every byte of the body, in order, in reads of any size; reading comes to an end.
\<close>

theorem body_delivered:
  assumes "body_wf s" "0 < n" "\<not> so_eof s \<or> has_trailers s"
  shows "fst (drain n s) = queued s \<and> queued (snd (drain n s)) = []"
  using drain_complete_aux [OF assms] .

definition two_pieces :: "unit h2_out_scheme" where
  "two_pieces = (out_new ())\<lparr>so_body := [''abc'', ''de''], so_body_index := 1\<rparr>"

lemma body_delivered_witness: "fst (drain 2 two_pieces) = ''bcde''"
  using body_delivered [of two_pieces 2]
  by (simp add: two_pieces_def body_wf_def out_new_def queued_def)



section \<open>The header block of a response\<close>

lemma values_fold_insert:
  "mm_inv m \<Longrightarrow> mm_inv (fold (\<lambda>h ret. mm_insert (fst h) (snd h) ret) hs m)
    \<and> mm_values k (fold (\<lambda>h ret. mm_insert (fst h) (snd h) ret) hs m) = mm_values k m @ mm_values k hs"
proof (induction hs arbitrary: m)
  case (Cons h hs)
  show ?case
    using Cons.IH [OF mm_inv_insert [OF Cons.prems, of "fst h" "snd h"]] values_insert [OF Cons.prems, of k "fst h" "snd h"]
    by (auto simp: mm_equal_range_def)
qed simp

lemma values_all_headers: "mm_values k (all_headers d) = headers k d"
  using values_fold_insert [of "[]" "sd_headers d" k] by (simp add: all_headers_def headers_def)

lemma trailers_encoding_eq:
  "trailers_encoding d = Inr (if has ''transfer-encoding'' d
     then insert_header ''transfer-encoding'' ''trailers'' (remove_header ''transfer-encoding'' d) else d)"
proof -
  have "header ''transfer-encoding'' ''trailers'' e = Inr (insert_header ''transfer-encoding'' ''trailers'' e)"
    for e :: "'a http_structured_data_scheme"
    by (simp add: header_def tolower_def icompare_def hf_connection_def hf_host_def hf_via_def hf_accept_encoding_def
        hf_content_len_def hf_transfer_encoding_def)
  then show ?thesis by (simp add: trailers_encoding_def)
qed

lemma values_filter_names:
  assumes "\<And>h. p h = q (fst h)"
  shows "headers k (filter_headers p d) = (if q k then [] else headers k d)"
proof -
  have "filter (\<lambda>e. \<not> p e) (mm_equal_range k (sd_headers d)) = (if q k then [] else mm_equal_range k (sd_headers d))"
    using assms by (auto simp: mm_equal_range_def filter_empty_conv intro!: filter_cong)
  then show ?thesis unfolding headers_filter by (simp add: headers_def)
qed

text \<open>The headers that are left out by name, and the transfer coding replaced.\<close>

lemma filtered_headers:
  fixes resp :: "'z http_structured_data_scheme"
  assumes "mm_inv (sd_headers resp)" and cn: "\<And>h. p h = p (fst h, [])" and te: "\<not> p (''transfer-encoding'', [])"
  obtains e hs where "trailers_encoding (filter_headers p resp) = Inr e" "e = resp\<lparr>sd_headers := hs\<rparr>"
    "\<And>k. headers k e = (if p (k, []) then []
      else if k = ''transfer-encoding'' \<and> has k resp then [''trailers''] else headers k resp)"
proof -
  define d where "d = filter_headers p resp"
  define e where "e = (if has ''transfer-encoding'' d
     then insert_header ''transfer-encoding'' ''trailers'' (remove_header ''transfer-encoding'' d) else d)"
  have inv: "mm_inv (sd_headers d)"
    using assms(1) by (simp add: d_def filter_headers_def filter_loop_filter mm_inv_filter)
  have hd: "headers k d = (if p (k, []) then [] else headers k resp)" for k
    unfolding d_def by (rule values_filter_names [where q = "\<lambda>k. p (k, [])"]) (rule cn)
  have has: "has ''transfer-encoding'' d = has ''transfer-encoding'' resp"
  proof -
    have get: "get_header k x = (case headers k x of [] \<Rightarrow> [] | v # _ \<Rightarrow> v)" for k and x :: "'z http_structured_data_scheme"
      using mm_find_values [of k "sd_headers x"]
      by (auto simp: get_header_def headers_def split: option.splits list.splits)
    show ?thesis using hd [of "''transfer-encoding''"] te by (simp add: has_def get)
  qed
  have he: "headers k e = (if p (k, []) then []
      else if k = ''transfer-encoding'' \<and> has k resp then [''trailers''] else headers k resp)" for k
  proof (cases "has ''transfer-encoding'' resp")
    case True
    have "headers k (insert_header ''transfer-encoding'' ''trailers'' (remove_header ''transfer-encoding'' d))
        = (if k = ''transfer-encoding'' then [''trailers''] else headers k d)"
      using inv by (simp add: mm_inv_erase)
    then show ?thesis using True has te hd [of k] by (auto simp: e_def)
  next
    case False
    then show ?thesis using has hd [of k] by (auto simp: e_def)
  qed
  have "trailers_encoding d = Inr e" by (simp add: trailers_encoding_eq e_def)
  moreover have "\<exists>hs. e = resp\<lparr>sd_headers := hs\<rparr>"
    by (cases "has ''transfer-encoding'' d") (auto simp: e_def d_def insert_header_def remove_header_def filter_headers_def)
  ultimately show ?thesis using that he unfolding d_def by blast
qed

text \<open>
  C10: the header block of a response names every header once, in ascending order, with its values
  joined; the headers that concern one connection are left out, and a transfer coding becomes
  \<open>trailers\<close>.
\<close>

theorem response_block_values:
  assumes "mm_inv (sd_headers resp)" "headers '':status'' resp = []"
  shows "\<exists>b. response_block resp [] = Inr b \<and> sorted (map fst b) \<and> distinct (map fst b)
    \<and> (\<forall>k. mm_values k b =
         (if k = '':status'' then [to_dec (unat (rs_status_code resp))]
          else if connection_header (k, []) then []
          else if k = ''transfer-encoding'' \<and> has k resp then [''trailers'']
          else block_values k (sd_headers resp)))"
proof -
  have cn: "connection_header h = connection_header (fst h, [])" for h by (simp add: connection_header_def)
  have te: "\<not> connection_header (''transfer-encoding'', [])"
    and st: "\<not> connection_header ('':status'', [])" by (code_simp)+
  obtain e hs where enc: "trailers_encoding (filter_headers connection_header resp) = Inr e" "e = resp\<lparr>sd_headers := hs\<rparr>"
    and he: "\<And>k. headers k e = (if connection_header (k, []) then []
      else if k = ''transfer-encoding'' \<and> has k resp then [''trailers''] else headers k resp)"
    by (rule filtered_headers [OF assms(1) cn te]) (rule that)
  let ?s = "('':status'', to_dec (unat (rs_status_code resp)))"
  let ?b = "prepare_headers (all_headers e) [?s]"
  have block: "block_of ([?s] @ all_headers e) ?b"
    by (rule prepare_headers_block [OF block_of_single])
  have run: "response_block resp [] = Inr ?b"
    using enc by (simp add: response_block_def)
  have "mm_values k ?b = (if k = '':status'' then [to_dec (unat (rs_status_code resp))]
          else if connection_header (k, []) then []
          else if k = ''transfer-encoding'' \<and> has k resp then [''trailers'']
          else block_values k (sd_headers resp))" for k
  proof -
    have "mm_values k ?b = (case mm_values k ([?s] @ all_headers e) of [] \<Rightarrow> [] | vs \<Rightarrow> [join_values vs])"
      using block by (simp add: block_of_def block_values_def)
    also have "mm_values k ([?s] @ all_headers e) = (if k = '':status'' then [snd ?s] else []) @ headers k e"
      by (simp only: values_all_headers [of k e, symmetric]) (simp add: mm_equal_range_def)
    finally show ?thesis
      using he [of k] st assms(2) by (auto simp: join_values_def block_values_def headers_def)
  qed
  then show ?thesis using run block_of_distinct [OF block] by blast
qed

definition teapot :: http_response where
  "teapot = sample_response\<lparr>sd_headers := [(''connection'', ''close''), (''set-cookie'', ''a''), (''set-cookie'', ''b'')],
     rs_status_code := 418\<rparr>"

lemma response_block_values_witness:
  "\<exists>b. response_block teapot [] = Inr b \<and> mm_values '':status'' b = [''418''] \<and> mm_values ''connection'' b = []
    \<and> mm_values ''set-cookie'' b = [''a, b'']"
proof -
  have 1: "mm_inv (sd_headers teapot)" by (simp add: teapot_def mm_inv_def)
  have 2: "headers '':status'' teapot = []" by (simp add: teapot_def headers_def mm_equal_range_def)
  obtain b where b: "response_block teapot [] = Inr b" "\<And>k. mm_values k b =
         (if k = '':status'' then [to_dec (unat (rs_status_code teapot))]
          else if connection_header (k, []) then []
          else if k = ''transfer-encoding'' \<and> has k teapot then [''trailers'']
          else block_values k (sd_headers teapot))"
    using response_block_values [OF 1 2] by blast
  have "to_dec (unat (418 :: 16 word)) = ''418''" by code_simp
  moreover have "connection_header (''connection'', [])" "\<not> connection_header (''set-cookie'', [])" by code_simp+
  moreover have "block_values ''set-cookie'' (sd_headers teapot) = [''a, b'']"
    by (simp add: teapot_def block_values_def mm_equal_range_def join_values_def)
  ultimately show ?thesis using b(1) b(2) [of "'':status''"] b(2) [of "''connection''"] b(2) [of "''set-cookie''"]
    by (simp add: teapot_def)
qed

end
