(* ===== verification/H2_Progress.thy ===== *)
theory H2_Progress
  imports H2_Properties
begin

text \<open>
  What the callbacks leave alone, and what they lead to: that a session which is asked for output
  or given bytes comes back, and what becomes of the trailers of a response.  Every callback is
  looked at once, with a measure on the states of the library as a parameter.
\<close>

section \<open>Trailers that were submitted\<close>

definition is_trailer :: "ng_request \<Rightarrow> bool" where
  "is_trailer r \<longleftrightarrow> (case r of Submit_trailer sid h \<Rightarrow> True | _ \<Rightarrow> False)"

definition trailer_calls :: "'n session \<Rightarrow> ng_request list" where
  "trailer_calls w = filter is_trailer (se_calls w)"

lemma trailer_calls_simps [simp]:
  "trailer_calls (w\<lparr>se_ng := g\<rparr>) = trailer_calls w" "trailer_calls (log_h2 es w) = trailer_calls w"
  "trailer_calls (log_io as w) = trailer_calls w" "trailer_calls (renew_ttl w) = trailer_calls w"
  "trailer_calls (stop w) = trailer_calls w" "trailer_calls (w\<lparr>cn_out := out\<rparr>) = trailer_calls w"
  "trailer_calls (w\<lparr>cn_writing := b\<rparr>) = trailer_calls w" "trailer_calls (w\<lparr>cn_inflight := fl\<rparr>) = trailer_calls w"
  "trailer_calls (w\<lparr>se_pending := ps\<rparr>) = trailer_calls w" "trailer_calls (put_stream i s w) = trailer_calls w"
  "trailer_calls (w\<lparr>se_gone := b\<rparr>) = trailer_calls w" "trailer_calls (stream_destroy i w) = trailer_calls w"
  "trailer_calls (w\<lparr>se_requests := rs\<rparr>) = trailer_calls w" "trailer_calls (add_pending_callbacks r w) = trailer_calls w"
  "trailer_calls (w\<lparr>se_responses := ls\<rparr>) = trailer_calls w" "trailer_calls (w\<lparr>se_next := m\<rparr>) = trailer_calls w"
  "trailer_calls (w\<lparr>se_stream_counter := c\<rparr>) = trailer_calls w"
  "trailer_calls (w\<lparr>se_listeners := ss\<rparr>) = trailer_calls w"
  by (simp_all add: trailer_calls_def conn_ops log_h2_def put_stream_def stream_destroy_def unsubscribe_def add_pending_callbacks_def)

lemma trailer_calls_ng:
  "ng_call L r w = (rv, w') \<Longrightarrow> trailer_calls w' = trailer_calls w @ (if is_trailer r then [r] else [])"
  by (auto simp: ng_call_def trailer_calls_def split: prod.splits)

lemma trailer_calls_snd: "trailer_calls (snd (ng_call L r w)) = trailer_calls w @ (if is_trailer r then [r] else [])"
  by (cases "ng_call L r w") (simp add: trailer_calls_ng)

lemma se_ng_simps [simp]:
  "se_ng (stream_destroy i w) = se_ng w" "se_ng (add_pending_callbacks r w) = se_ng w" "se_ng (log_h2 es w) = se_ng w"
  "se_ng (put_stream i s w) = se_ng w"
  by (simp_all add: stream_destroy_def unsubscribe_def add_pending_callbacks_def log_h2_def put_stream_def)

section \<open>Tame results\<close>

text \<open>
  \<open>m\<close> measures what the library has left to do; \<open>d\<close> is how much less it is after each
  turn.  A result is tame when no trailers were submitted on the way, the measure has not grown
  and, if it was below \<open>k\<close>, the bound on the turns was not reached.
\<close>

definition paced :: "'n nghttp2 \<Rightarrow> ('n \<Rightarrow> nat) \<Rightarrow> nat \<Rightarrow> bool" where
  "paced L m d \<longleftrightarrow>
     (\<forall>g. case ng_turn L g of (Call c, g') \<Rightarrow> m g' + d \<le> m g | (Return r s, g') \<Rightarrow> m g' \<le> m g)
   \<and> (\<forall>g a. m (ng_resume L a g) \<le> m g) \<and> (\<forall>g. m (ng_enter_send L g) \<le> m g)
   \<and> (\<forall>g sid i. m (snd (ng_submit L (Set_user_data sid i) g)) \<le> m g)
   \<and> (\<forall>g sid. m (snd (ng_submit L (Submit_rst_stream sid) g)) \<le> m g)
   \<and> (\<forall>g sid. m (snd (ng_submit L (Submit_goaway sid) g)) \<le> m g + 1)"

definition tame :: "('n \<Rightarrow> nat) \<Rightarrow> nat \<Rightarrow> 'n session \<Rightarrow> 'n session result \<Rightarrow> bool" where
  "tame m k w r \<longleftrightarrow> (case r of Inr w' \<Rightarrow> trailer_calls w' = trailer_calls w \<and> m (se_ng w') \<le> m (se_ng w)
     | Inl f \<Rightarrow> m (se_ng w) < k \<longrightarrow> f \<noteq> Out_of_turns)"

lemma tame_simps [simp]:
  "tame m k w (Inr w') \<longleftrightarrow> trailer_calls w' = trailer_calls w \<and> m (se_ng w') \<le> m (se_ng w)"
  "tame m k w (Inl f) \<longleftrightarrow> (m (se_ng w) < k \<longrightarrow> f \<noteq> Out_of_turns)"
  by (simp_all add: tame_def)

lemma tame_cong: "trailer_calls w' = trailer_calls w \<Longrightarrow> se_ng w' = se_ng w \<Longrightarrow> tame m k w' r = tame m k w r"
  by (simp add: tame_def split: sum.splits)

lemma tame_bind: "tame m k w r \<Longrightarrow> (\<And>w'. r = Inr w' \<Longrightarrow> tame m k w' (f w')) \<Longrightarrow> tame m k w (res_bind r f)"
  by (cases r) (force simp: tame_def split: sum.splits)+

lemma tame_bind_value:
  "r \<noteq> Inl Out_of_turns \<Longrightarrow> (\<And>x. r = Inr x \<Longrightarrow> tame m k w (f x)) \<Longrightarrow> tame m k w (res_bind r f)"
  by (cases r) auto

lemma the_stream_turns [simp]: "the_stream i w \<noteq> Inl Out_of_turns"
  by (simp add: the_stream_def split: option.splits)

lemma header_turns [simp]: "header k v d \<noteq> Inl Out_of_turns"
  using header_fault [of k v d] by auto

lemma set_hostname_turns [simp]: "set_hostname p r \<noteq> Inl Out_of_turns"
  by (simp add: set_hostname_def)

section \<open>The callbacks\<close>

lemma tame_upd: "tame m k w (upd_stream i f w)"
  unfolding upd_stream_def by (rule tame_bind_value) simp_all

lemma tame_on_req: "tame m k w (on_req g i w)"
  unfolding on_req_def
proof (rule tame_bind_value)
  fix s
  show "tame m k w (case ss_req s of None \<Rightarrow> Inl Undefined_behaviour
     | Some r \<Rightarrow> (case se_requests w r of None \<Rightarrow> Inl Undefined_behaviour
       | Some q \<Rightarrow> (let (q, ts) = g q in
           Inr (log_h2 (map (Incoming_task r) ts) (w\<lparr>se_requests := (se_requests w)(r \<mapsto> q)\<rparr>)))))"
    by (cases "ss_req s"; cases "se_requests w (the (ss_req s))"; cases "g (the (se_requests w (the (ss_req s))))") simp_all
qed simp

lemma tame_die: "tame m k w (stream_die i w)"
  unfolding stream_die_def by (rule tame_bind_value) simp_all

lemma tame_add_header: "tame m k w (stream_add_header a b i w)"
  unfolding stream_add_header_def
  by (rule tame_bind_value) (auto intro!: tame_bind_value tame_on_req)

lemma tame_uri_host: "tame m k w (stream_uri_host p i w)"
  unfolding stream_uri_host_def by (auto intro!: tame_bind_value)

lemma tame_header_field: "tame m k w (on_header_field a b i w)"
  by (simp add: on_header_field_def tame_upd tame_uri_host tame_add_header)

lemma tame_header_complete: "tame m k w (on_request_header_complete i w)"
  unfolding on_request_header_complete_def
  by (intro tame_bind_value tame_bind tame_on_req tame_upd) simp

lemma tame_finished: "tame m k w (on_request_finished i w)"
  unfolding on_request_finished_def by (intro tame_bind tame_on_req tame_upd)

lemma tame_ng_call:
  fixes w w' :: "'n session"
  assumes "paced L m d" and c: "ng_call L r w = (rv, w')" and "(\<exists>sid i. r = Set_user_data sid i) \<or> (\<exists>sid. r = Submit_rst_stream sid)"
  shows "tame m k w (Inr w')"
proof -
  have "m (snd (ng_submit L r (se_ng w))) \<le> m (se_ng w)"
    using assms(1,3) by (auto simp: paced_def)
  then have "m (se_ng w') \<le> m (se_ng w)"
    using assms(2) by (auto simp: ng_call_def split: prod.splits)
  moreover have "\<not> is_trailer r" using assms(3) by (auto simp: is_trailer_def)
  ultimately show ?thesis using trailer_calls_ng [OF assms(2)] by simp
qed

lemma tame_create:
  fixes w :: "'n session"
  assumes "paced L m d"
  shows "tame m k w (create_stream L sid w)"
proof -
  let ?i = "se_next w"
  let ?w = "w\<lparr>se_next := Suc ?i\<rparr>"
  have new: "case stream_new ?i ?w of Inr (s, w') \<Rightarrow> w' = ?w\<lparr>se_listeners := se_listeners w @ [?i]\<rparr>
      | Inl f \<Rightarrow> f \<noteq> Out_of_turns"
    using new_requests by (simp add: stream_new_def subscribe_def assert_that_def)
  show ?thesis
  proof (cases "stream_new ?i ?w")
    case (Inl f)
    then show ?thesis using new by (simp add: create_stream_def)
  next
    case (Inr x)
    obtain s where x: "x = (s, ?w\<lparr>se_listeners := se_listeners w @ [?i]\<rparr>)"
      using new Inr by (cases x) simp
    define w1 where "w1 = put_stream ?i (s\<lparr>so_id := sid\<rparr>) (?w\<lparr>se_listeners := se_listeners w @ [?i]\<rparr>)"
    have w1: "trailer_calls w1 = trailer_calls w" "se_ng w1 = se_ng w"
      by (simp_all add: w1_def)
    define w2 where "w2 = w1\<lparr>se_requests := (se_requests w1)(?i \<mapsto> request_new new_request),
                 se_responses := (se_responses w1)(?i \<mapsto> local_new)\<rparr>"
    define w3 where "w3 = (if se_request_cb w2 then log_h2 [H2_user_feedback ?i] w2 else w2)"
    have w3: "trailer_calls w3 = trailer_calls w" "se_ng w3 = se_ng w"
      using w1 by (simp_all add: w3_def w2_def)
    have run: "create_stream L sid w = (if \<not> se_connector w1 then Inl Undefined_behaviour
       else res_bind (upd_stream ?i (stream_set_handlers ?i ?i) w3) (\<lambda>w.
            let (rv, w) = ng_call L (Set_user_data sid ?i) w
            in Inr (w\<lparr>se_stream_counter := se_stream_counter w + 1\<rparr>)))"
      using Inr x new_requests(1) by (simp add: create_stream_def w3_def w2_def w1_def Let_def)
    have "tame m k w3 (res_bind (upd_stream ?i (stream_set_handlers ?i ?i) w3) (\<lambda>w.
            let (rv, w) = ng_call L (Set_user_data sid ?i) w
            in Inr (w\<lparr>se_stream_counter := se_stream_counter w + 1\<rparr>)))"
    proof (rule tame_bind [OF tame_upd])
      fix w' :: "'n session"
      obtain rv w'' where c: "ng_call L (Set_user_data sid ?i) w' = (rv, w'')" by (cases "ng_call L (Set_user_data sid ?i) w'")
      then show "tame m k w' (let (rv, w) = ng_call L (Set_user_data sid ?i) w'
            in Inr (w\<lparr>se_stream_counter := se_stream_counter w + 1\<rparr>))"
        using tame_ng_call [OF assms c] by simp
    qed
    then show ?thesis unfolding run tame_cong [OF w3] by simp
  qed
qed

lemma tame_write_if_wanted: "(\<And>w. tame m k w (dw w)) \<Longrightarrow> tame m k w (write_if_wanted L dw w)"
  by (simp add: write_if_wanted_def)

lemma tame_callback:
  assumes "paced L m d" "\<And>w. tame m k w (dw w)"
  shows "tame m k w (res_bind (session_callback L dw c w) (\<lambda>(a, w). Inr w))"
proof -
  have zero: "res_bind (res_bind r (\<lambda>w. Inr (Answer 0, w))) (\<lambda>(a, w). Inr w) = r" for r :: "'a session result"
    by (cases r) simp_all
  note wanted = tame_write_if_wanted [OF assms(2)]
  show ?thesis
  proof (cases c)
    case (On_frame_recv f)
    have "tame m k w (on_frame_recv_callback L dw f w)"
      unfolding on_frame_recv_callback_def
      by (intro tame_bind wanted) (auto split: option.splits intro!: tame_bind tame_header_complete tame_finished)
    then show ?thesis using On_frame_recv by (simp add: session_callback_def zero)
  next
    case (On_stream_close sid e)
    have "tame m k w (on_stream_close_callback L dw sid w)"
      by (auto simp: on_stream_close_callback_def split: option.splits intro!: tame_bind wanted tame_die)
    then show ?thesis using On_stream_close by (simp add: session_callback_def zero)
  next
    case (On_begin_headers f)
    then show ?thesis using tame_create [OF assms(1)]
      by (simp add: session_callback_def zero on_begin_headers_callback_def)
  next
    case (On_header f a b)
    have "tame m k w (on_header_callback L dw f a b w)"
      unfolding on_header_callback_def
      by (intro tame_bind wanted) (auto split: option.splits intro!: tame_header_field)
    then show ?thesis using On_header by (simp add: session_callback_def zero)
  next
    case (On_data_chunk sid b)
    have "tame m k w (on_data_chunk_recv_callback L dw sid b w)"
      by (auto simp: on_data_chunk_recv_callback_def on_request_body_def split: option.splits
          intro!: tame_bind wanted tame_on_req)
    then show ?thesis using On_data_chunk by (simp add: session_callback_def zero)
  next
    case (Frame_not_send f e)
    have "tame m k w' (let (rc, w) = ng_call L (Submit_rst_stream (fr_stream_id f)) w'
        in if rc \<noteq> 0 then Inl (Thrown Failing_at_failing) else Inr w)" for w'
      using tame_ng_call [OF assms(1), of "Submit_rst_stream (fr_stream_id f)" w']
      by (cases "ng_call L (Submit_rst_stream (fr_stream_id f)) w'") auto
    then have "tame m k w (frame_not_send_callback L f w)"
      by (auto simp: frame_not_send_callback_def split: option.splits intro!: tame_bind tame_die)
    then show ?thesis using Frame_not_send by (simp add: session_callback_def zero)
  next
    case (Data_source_read i n)
    have "tame m k w (res_bind (stream_data_source_read i n w) (\<lambda>(a, w). Inr w))"
      by (cases "the_stream i w") (auto simp: stream_data_source_read_def split: prod.splits)
    then show ?thesis using Data_source_read by (simp add: session_callback_def)
  qed (simp_all add: session_callback_def)
qed

section \<open>The knot\<close>

lemma tame_ng_run:
  assumes "paced L m d" "\<And>w. tame m k w (dw w)"
  shows "tame m (if d = 0 then 0 else min n (Suc k)) w
    (res_bind (ng_run L (session_callback L dw) n w) (\<lambda>(r, s, w). Inr w))"
proof (induction n arbitrary: w)
  case (Suc n)
  obtain t g where t: "ng_turn L (se_ng w) = (t, g)" by (cases "ng_turn L (se_ng w)")
  have pace: "case (t, g) of (Call c, g') \<Rightarrow> m g' + d \<le> m (se_ng w) | (Return r s, g') \<Rightarrow> m g' \<le> m (se_ng w)"
    using assms(1) [unfolded paced_def, THEN conjunct1, THEN spec, of "se_ng w"] t by simp
  show ?case
  proof (cases t)
    case (Return r s)
    then show ?thesis using t pace by simp
  next
    case (Call c)
    have less: "m g + d \<le> m (se_ng w)" using pace Call by simp
    let ?w = "w\<lparr>se_ng := g\<rparr>"
    note cb = tame_callback [OF assms, of ?w c]
    show ?thesis
    proof (cases "session_callback L dw c ?w")
      case (Inl f)
      then show ?thesis using cb t Call less by auto
    next
      case (Inr x)
      obtain a w1 where x: "x = (a, w1)" by (cases x)
      let ?w1 = "w1\<lparr>se_ng := ng_resume L a (se_ng w1)\<rparr>"
      have "m (se_ng ?w1) \<le> m (se_ng w1)" using assms(1) by (simp add: paced_def)
      moreover have w1: "trailer_calls w1 = trailer_calls w" "m (se_ng w1) \<le> m g" using cb Inr x by simp_all
      ultimately have le: "m (se_ng ?w1) + d \<le> m (se_ng w)" using less by simp
      have "tame m (if d = 0 then 0 else min n (Suc k)) ?w1 (res_bind (ng_run L (session_callback L dw) n ?w1) (\<lambda>(r, s, w). Inr w))"
        by (rule Suc.IH)
      then have "tame m (if d = 0 then 0 else min (Suc n) (Suc k)) w
          (res_bind (ng_run L (session_callback L dw) n ?w1) (\<lambda>(r, s, w). Inr w))"
        using le w1(1) by (auto simp: tame_def split: sum.splits if_splits)
      then show ?thesis using t Call Inr x by simp
    qed
  qed
qed simp

lemma min_Suc_pred: "(if d = (0 :: nat) then 0 else min n (Suc (if d = 0 then 0 else n - 1))) = (if d = 0 then 0 else n)"
  by simp

lemma tame_do_write:
  assumes "paced L m d"
  shows "tame m (if d = 0 then 0 else n - 1) w (session_do_write L n w)"
proof (induction n arbitrary: w)
  case (Suc n)
  let ?w = "(renew_ttl w)\<lparr>cn_out := []\<rparr>"
  let ?ws = "?w\<lparr>se_ng := ng_enter_send L (se_ng ?w)\<rparr>"
  let ?run = "ng_run L (session_callback L (session_do_write L n)) n ?ws"
  have w: "trailer_calls ?w = trailer_calls w" "se_ng ?w = se_ng w" by simp_all
  have ws: "trailer_calls ?ws = trailer_calls w" "m (se_ng ?ws) \<le> m (se_ng w)"
    using assms by (simp_all add: paced_def)
  have "tame m (if d = 0 then 0 else n) ?ws (res_bind ?run (\<lambda>(r, s, w). Inr w))"
    using tame_ng_run [OF assms Suc.IH, of n ?ws] by (simp only: min_Suc_pred)
  then have run: "tame m (if d = 0 then 0 else n) w (res_bind ?run (\<lambda>(r, s, w). Inr w))"
    using ws by (auto simp: tame_def split: sum.splits if_splits)
  have ow: "tame m (if d = 0 then 0 else n) w
      (res_bind (session_on_write L (session_do_write L n) n ?w) (\<lambda>(ok, out, w). Inr w))"
  proof (cases ?run)
    case (Inl f)
    then show ?thesis using run by (simp add: session_on_write_def mem_send_def)
  next
    case (Inr x)
    then show ?thesis using run by (cases x) (simp add: session_on_write_def mem_send_def)
  qed
  show ?case
  proof (cases "se_connector w \<and> \<not> cn_writing w \<and> \<not> cn_stopped w")
    case False
    then show ?thesis by (auto simp: do_write_fallible_def)
  next
    case True
    then show ?thesis using ow
      by (cases "session_on_write L (session_do_write L n) n ?w")
        (auto simp: do_write_fallible_def session_write_feedbacks_def Let_def split: prod.splits)
  qed
qed simp

lemma tame_on_read:
  assumes "paced L m d"
  shows "tame m (if d = 0 then 0 else n - 2) (w\<lparr>se_ng := ng_enter_recv L data (se_ng w)\<rparr>)
    (res_bind (server_on_read L n data w) (\<lambda>(ok, w'). Inr (w'\<lparr>se_ng := ng_enter_recv L data (se_ng w)\<rparr>)))"
proof -
  let ?w = "w\<lparr>se_ng := ng_enter_recv L data (se_ng w)\<rparr>" and ?dw = "session_do_write L n"
  let ?run = "ng_run L (session_callback L ?dw) n ?w"
  note run = tame_ng_run [OF assms tame_do_write [OF assms, of n], of n ?w]
  show ?thesis
  proof (cases ?run)
    case (Inl f)
    then show ?thesis using run
      by (simp add: server_on_read_def session_on_read_def mem_recv_def split: if_splits)
  next
    case (Inr x)
    obtain rv s w1 where x: "x = (rv, s, w1)" by (cases x)
    have w1: "trailer_calls w1 = trailer_calls w" "m (se_ng w1) \<le> m (se_ng ?w)" using run Inr x by simp_all
    have away: "case (if rv < 0 then go_away L w1 else Inr w1) of
        Inr w2 \<Rightarrow> trailer_calls w2 = trailer_calls w \<and> m (se_ng w2) \<le> m (se_ng ?w) + 1 | Inl f \<Rightarrow> f \<noteq> Out_of_turns"
    proof -
      let ?r = "Submit_goaway (ng_last_proc_stream_id L (se_ng w1))"
      obtain rc w2 where c: "ng_call L ?r w1 = (rc, w2)" by (cases "ng_call L ?r w1")
      have "m (snd (ng_submit L ?r (se_ng w1))) \<le> m (se_ng w1) + 1"
        using assms by (simp add: paced_def)
      then have "m (se_ng w2) \<le> m (se_ng w1) + 1" using c by (auto simp: ng_call_def split: prod.splits)
      then show ?thesis using c w1 trailer_calls_ng [OF c] by (simp add: go_away_def is_trailer_def)
    qed
    show ?thesis
    proof (cases "if rv < 0 then go_away L w1 else Inr w1")
      case (Inl f)
      then show ?thesis using away Inr \<open>?run = Inr x\<close> x w1
        by (auto simp: server_on_read_def session_on_read_def mem_recv_def split: if_splits)
    next
      case (Inr w2)
      have w2: "trailer_calls w2 = trailer_calls w" "m (se_ng w2) \<le> m (se_ng ?w) + 1" using away Inr by simp_all
      have "tame m (if d = 0 then 0 else n - 1) w2 (write_if_wanted L ?dw w2)"
        by (rule tame_write_if_wanted [OF tame_do_write [OF assms]])
      then show ?thesis using w1 w2 Inr \<open>?run = Inr x\<close> x
        by (cases "write_if_wanted L ?dw w2")
          (auto simp: server_on_read_def session_on_read_def mem_recv_def assert_that_def split: if_splits)
    qed
  qed
qed

section \<open>Coming back\<close>


definition turns_left :: "scripted \<Rightarrow> nat" where
  "turns_left g = length (sc_turns g)"

lemma scripted_paced: "paced scripted_library turns_left 1"
  by (auto simp: paced_def scripted_library_def scripted_turn_def turns_left_def
      split: list.splits ng_turn.splits ng_request.splits)


section \<open>The trailers of a response\<close>

lemma paced_zero: "paced L (\<lambda>g. 0) 0"
  by (auto simp: paced_def split: prod.splits ng_turn.splits)

text \<open>The connector brings bytes or asks for output, one after the other.\<close>

fun session_inputs :: "'n nghttp2 \<Rightarrow> nat \<Rightarrow> string option list \<Rightarrow> 'n session \<Rightarrow> 'n session result" where
  "session_inputs L n [] w = Inr w"
| "session_inputs L n (Some d # ins) w = res_bind (server_on_read L n d w) (\<lambda>(ok, w). session_inputs L n ins w)"
| "session_inputs L n (None # ins) w = res_bind (session_do_write L n w) (session_inputs L n ins)"

lemma inputs_trailers: "session_inputs L n ins w = Inr w' \<Longrightarrow> trailer_calls w' = trailer_calls w"
proof (induction L n ins w rule: session_inputs.induct)
  case (2 L n d ins w)
  then obtain ok w1 where "server_on_read L n d w = Inr (ok, w1)" "session_inputs L n ins w1 = Inr w'"
    by (auto simp: res_bind_eq_Inr)
  then show ?case using 2 tame_on_read [OF paced_zero, where n = n and w = w and data = d and L = L] by simp
next
  case (3 L n ins w)
  then obtain w1 where "session_do_write L n w = Inr w1" "session_inputs L n ins w1 = Inr w'"
    by (auto simp: res_bind_eq_Inr)
  then show ?case using 3 tame_do_write [OF paced_zero, where n = n and w = w and L = L] by simp
qed simp

lemma flush_without_trailers:
  assumes "se_streams w i = Some s" "\<not> so_body_sent s" "stream_flush L (session_do_write L n) i w = Inr w'"
  shows "trailer_calls w' = trailer_calls w"
proof (cases "so_closed s")
  case True
  then show ?thesis using assms by (simp add: stream_flush_def)
next
  case False
  then obtain w1 where w1: "session_do_write L n w1 = Inr w'" "trailer_calls w1 = trailer_calls w"
    using assms by (auto simp: stream_flush_def res_bind_eq_Inr Let_def is_trailer_def trailer_calls_snd dest: trailer_calls_ng
        split: option.splits if_splits prod.splits)
  then show ?thesis using tame_do_write [OF paced_zero, where n = n and w = w1 and L = L] by simp
qed


definition trailing_session :: "bool \<Rightarrow> nat \<Rightarrow> scripted session" where
  "trailing_session body_sent nvlen = put_stream 0
     ((out_new \<lparr>ss_status = Some 200, ss_request = stream_request, ss_request_sent = True, ss_req = None, ss_res = None\<rparr>)
        \<lparr>so_id := 1, so_headers_sent := True, so_body_sent := body_sent, so_nvlen := nvlen,
          so_trailers := [(''a'', ''1''), (''b'', ''2'')]\<rparr>)
     (scripted_session [] False)"

lemmas trailing_defs = trailing_session_def put_stream_def scripted_session_def session_defs out_new_def

lemmas trailing_run = trailing_defs connector_new_def response_call_def stream_on_eom_def stream_flush_def script_steps
  live_response_def session_should_stop_def submit_trailers_def fill_headers_def conn_ops


text \<open>
  C31: when the end of the body has been announced, ending a response submits its trailers, all of
  them, if they are no more than its headers; one more, and they are written behind the end of the
  array, which is allocated for as many entries as there are headers.
\<close>

theorem trailers_submitted_or_overflow:
  assumes "se_streams w i = Some s" "\<not> so_closed s" "ss_status s = Some st" "st \<noteq> 101" "\<not> so_resume_needed s"
    and "so_headers_sent s" "so_body_sent s"
  shows "case response_call L n i C_end w of
      Inr w' \<Rightarrow> length (so_trailers s) \<le> so_nvlen s
        \<and> trailer_calls w' = trailer_calls w @ [Submit_trailer (so_id s) (so_trailers s)]
    | Inl f \<Rightarrow> so_nvlen s < length (so_trailers s) \<longrightarrow> f = Undefined_behaviour"
proof -
  let ?s = "s\<lparr>so_eof := True\<rparr>"
  let ?w = "put_stream i ?s w"
  define v where "v = (case live_response s ?w of None \<Rightarrow> ?w | Some r \<Rightarrow> add_pending_callbacks r ?w)"
  have v: "se_streams v i = Some ?s" "trailer_calls v = trailer_calls w"
    by (simp_all add: v_def add_pending_callbacks_def put_stream_def trailer_calls_def split: option.splits)
  have run: "response_call L n i C_end w = noexcept_call (res_bind (submit_trailers L i ?s v) (session_do_write L n))"
    using assms v(1) by (simp add: response_call_def stream_on_eom_def Let_def v_def [symmetric] stream_flush_def)
  show ?thesis
  proof (cases "length (so_trailers s) \<le> so_nvlen s")
    case False
    then show ?thesis by (simp add: run submit_trailers_def fill_headers_def)
  next
    case True
    let ?r = "Submit_trailer (so_id s) (so_trailers s)"
    let ?u = "put_stream i (?s\<lparr>so_trailers_nvlen := length (so_trailers s), so_trailers_nva := Some (so_trailers s)\<rparr>) v"
    obtain rv w1 where c: "ng_call L ?r ?u = (rv, w1)" by (cases "ng_call L ?r ?u")
    then have r: "response_call L n i C_end w = noexcept_call (session_do_write L n w1)"
      using True by (simp add: run submit_trailers_def fill_headers_def)
    have "trailer_calls w1 = trailer_calls w @ [?r]" using trailer_calls_ng [OF c] v(2) by (simp add: is_trailer_def)
    then show ?thesis
      using tame_do_write [OF paced_zero, where n = n and w = w1 and L = L] True
      by (cases "session_do_write L n w1") (auto simp: r noexcept_call_def split: fault.splits)
  qed
qed

lemma trailers_submitted_or_overflow_witness:
  "response_call scripted_library (Suc (Suc 0)) 0 C_end (trailing_session True 1) = Inl Undefined_behaviour
   \<and> trailer_calls (projr (response_call scripted_library (Suc (Suc 0)) 0 C_end (trailing_session True 2)))
      = [Submit_trailer 1 [(''a'', ''1''), (''b'', ''2'')]]"
proof -
  let ?n = "Suc (Suc 0)"
  have s: "\<exists>s. se_streams (trailing_session True m) 0 = Some s \<and> \<not> so_closed s \<and> ss_status s = Some 200
      \<and> \<not> so_resume_needed s \<and> so_headers_sent s \<and> so_body_sent s \<and> so_nvlen s = m \<and> so_id s = 1
      \<and> so_trailers s = [(''a'', ''1''), (''b'', ''2'')]" for m
    by (simp add: trailing_defs)
  have c: "trailer_calls (trailing_session True m) = []" for m by (simp add: trailing_defs trailer_calls_def)
  have r: "case response_call scripted_library ?n 0 C_end (trailing_session True m) of
      Inr w' \<Rightarrow> 2 \<le> m \<and> trailer_calls w' = [Submit_trailer 1 [(''a'', ''1''), (''b'', ''2'')]]
    | Inl f \<Rightarrow> m < 2 \<longrightarrow> f = Undefined_behaviour" for m
  proof -
    obtain s where s: "se_streams (trailing_session True m) 0 = Some s" "\<not> so_closed s" "ss_status s = Some 200"
      "\<not> so_resume_needed s" "so_headers_sent s" "so_body_sent s" "so_nvlen s = m" "so_id s = 1"
      "so_trailers s = [(''a'', ''1''), (''b'', ''2'')]"
      using s [of m] by blast
    from trailers_submitted_or_overflow [OF s(1-3) _ s(4-6), of scripted_library ?n] show ?thesis
      using s(7-9) c [of m] by (simp split: sum.splits)
  qed
  have "\<exists>w'. response_call scripted_library ?n 0 C_end (trailing_session True 2) = Inr w'"
    by (simp add: trailing_run)
  then show ?thesis using r [of 2] r [of 1]
    by (cases "response_call scripted_library ?n 0 C_end (trailing_session True 1)") auto
qed

end
