(* ===== verification/H2_Client_Properties.thy ===== *)
theory H2_Client_Properties
  imports H2_Client H2_Progress
begin

text \<open>
  Properties of the client's side of HTTP/2: the block a request is submitted with, what becomes of
  its body, of the headers of a response that follows an interim one, and of the errors a
  connection ends with.
\<close>

section \<open>The header block of a request\<close>

lemma set_prepared_pseudo: "fill_headers (length b + 4) (ps @ b) = Inr (ps @ b)" if "length ps = 4"
  using that by (simp add: fill_headers_def)

lemma block_of_prepared: "block_of hs (prepare_headers hs [])"
  using prepare_headers_block [OF block_of_Nil, of hs] by simp


text \<open>A session with a request that has not been written yet.\<close>

definition asking_session :: "scripted session_client" where
  "asking_session = put_client 0
     (out_new \<lparr>cs_status = 200, cs_pseudo = no_pseudo_headers, cs_response = sample_response, cs_headers_sent = False,
        cs_res = Some 0, cs_req = Some 0\<rparr>)
     ((session_client_new 100 0 \<lparr>sc_turns = [], sc_view = idle_view, sc_want_write = False\<rparr>)
        \<lparr>se_connector := True, se_listeners := [0], se_next := 1,
          cl_requests := [0 \<mapsto> local_new\<lparr>lo_error_cb := True\<rparr>],
          cl_responses := [0 \<mapsto> (client_response_new sample_response)\<lparr>cb_headers := True, cb_trailer := True\<rparr>]\<rparr>)"

lemmas asking_defs = asking_session_def put_client_def out_new_def session_client_new_def connector.defs h2_base.defs
  session_client.defs connector_new_def

definition small_request :: http_request where
  "small_request = sample_request\<lparr>sd_headers := [(''a'', ''1''), (''a'', ''2''), (''host'', ''h'')], rq_schema := ''http''\<rparr>"


section \<open>Interim responses\<close>

fun header_fields :: "(string \<times> string) list \<Rightarrow> nat \<Rightarrow> 'n session_client \<Rightarrow> 'n session_client result" where
  "header_fields [] i w = Inr w"
| "header_fields (h # hs) i w = res_bind (client_header_field (fst h) (snd h) i w) (header_fields hs i)"

lemma header_fields_as_trailers:
  assumes "cl_streams w i = Some s" "cs_headers_sent s" "cs_res s = Some r" "cl_responses w r = Some q" "cb_trailer q"
    and "\<forall>h \<in> set hs. fst h \<noteq> '':status'' \<and> fst h \<noteq> '':authority''"
  shows "header_fields hs i w = Inr (log_h2 (map (\<lambda>(k, v). Incoming_task r (T_trailer k v)) hs) w)"
  using assms
proof (induction hs arbitrary: w)
  case Nil
  then show ?case by (simp add: log_h2_def)
next
  case (Cons h hs)
  let ?w = "log_h2 [Incoming_task r (T_trailer (fst h) (snd h))] w"
  have "client_header_field (fst h) (snd h) i w = Inr ?w"
    using Cons.prems by (simp add: client_header_field_def stream_client_add_header_def on_response_def the_client_def
        client_response_trailer_def fun_upd_idem)
  moreover have "header_fields hs i ?w = Inr (log_h2 (map (\<lambda>(k, v). Incoming_task r (T_trailer k v)) hs) ?w)"
    by (rule Cons.IH) (use Cons.prems in \<open>auto simp: log_h2_def\<close>)
  ultimately show ?case by (simp add: log_h2_def case_prod_beta)
qed

text \<open>
  C38: when a final response follows an interim one, its headers reach the user as trailers: the
  headers callback is posted for the interim response, every header of the final one as a
  trailer, and the headers callback again, by which time the response has the final status and no
  headers.
\<close>

theorem interim_response:
  assumes "cl_streams w i = Some s" "cs_res s = Some r" "cl_responses w r = Some q" "cb_headers q" "cb_trailer q"
    and "\<forall>h \<in> set hs. fst h \<noteq> '':status'' \<and> fst h \<noteq> '':authority''" "stoi st = Inr n"
  shows "\<exists>w1 q1. res_bind (on_response_header_complete i w) (\<lambda>w.
        res_bind (header_fields (('':status'', st) # hs) i w) (on_response_header_complete i)) = Inr w1
    \<and> se_events w1 = se_events w @ [Incoming_task r T_headers]
        @ map (\<lambda>(k, v). Incoming_task r (T_trailer k v)) hs @ [Incoming_task r T_headers]
    \<and> cl_responses w1 r = Some q1 \<and> sd_headers (cr_preamble q1) = [] \<and> rs_status_code (cr_preamble q1) = word_of_int n"
proof -
  define s1 where "s1 = s\<lparr>cs_response := moved_response (cs_response s), cs_headers_sent := True\<rparr>"
  define q1 where "q1 = q\<lparr>cr_preamble := cs_response s\<rparr>"
  define w1 where "w1 = put_client i s1 (log_h2 [Incoming_task r T_headers] (w\<lparr>cl_responses := (cl_responses w)(r \<mapsto> q1)\<rparr>))"
  have 1: "on_response_header_complete i w = Inr w1"
    using assms(1-4) by (simp add: on_response_header_complete_def on_response_def the_client_def upd_client_def
        client_response_headers_def Let_def w1_def s1_def q1_def log_h2_def)
  define s2 where "s2 = stream_client_status n s1"
  define w2 where "w2 = put_client i s2 w1"
  have "client_header_field '':status'' st i w1 = Inr w2"
    using assms(7) by (simp add: client_header_field_def upd_client_def the_client_def w2_def s2_def)
      (simp add: w1_def put_client_def)
  moreover have "header_fields hs i w2 = Inr (log_h2 (map (\<lambda>(k, v). Incoming_task r (T_trailer k v)) hs) w2)"
    by (rule header_fields_as_trailers [where s = s2 and q = q1])
      (use assms in \<open>auto simp: w2_def w1_def s2_def s1_def q1_def put_client_def stream_client_status_def log_h2_def\<close>)
  ultimately have 2: "header_fields (('':status'', st) # hs) i w1
      = Inr (log_h2 (map (\<lambda>(k, v). Incoming_task r (T_trailer k v)) hs) w2)" by simp
  let ?w3 = "log_h2 (map (\<lambda>(k, v). Incoming_task r (T_trailer k v)) hs) w2"
  have w3: "cl_streams ?w3 i = Some s2" "cs_res s2 = Some r" "cl_responses ?w3 r = Some q1" "cb_headers q1"
    using assms(2,4) by (simp_all add: w2_def w1_def s2_def s1_def q1_def put_client_def stream_client_status_def log_h2_def)
  define q2 where "q2 = q1\<lparr>cr_preamble := cs_response s2\<rparr>"
  have "\<exists>w4. on_response_header_complete i ?w3 = Inr w4
      \<and> se_events w4 = se_events ?w3 @ [Incoming_task r T_headers] \<and> cl_responses w4 r = Some q2"
    using w3 by (simp add: on_response_header_complete_def on_response_def the_client_def upd_client_def
        client_response_headers_def Let_def q2_def log_h2_def put_client_def)
  then obtain w4 where w4: "on_response_header_complete i ?w3 = Inr w4"
      "se_events w4 = se_events ?w3 @ [Incoming_task r T_headers]" "cl_responses w4 r = Some q2" by blast
  have ev: "se_events ?w3 = se_events w @ [Incoming_task r T_headers] @ map (\<lambda>(k, v). Incoming_task r (T_trailer k v)) hs"
    by (simp add: w2_def w1_def put_client_def log_h2_def)
  have "sd_headers (cr_preamble q2) = []" "rs_status_code (cr_preamble q2) = word_of_int n"
    by (simp_all add: q2_def s2_def s1_def stream_client_status_def set_status_def moved_response_def)
  then show ?thesis using 1 2 w4 ev by (intro exI [of _ w4] exI [of _ q2]) simp
qed

lemma interim_response_witness:
  "\<exists>w1. res_bind (on_response_header_complete 0 asking_session) (\<lambda>w.
        res_bind (header_fields [('':status'', ''200''), (''a'', ''1'')] 0 w) (on_response_header_complete 0)) = Inr w1
    \<and> se_events w1 = [Incoming_task 0 T_headers, Incoming_task 0 (T_trailer ''a'' ''1''), Incoming_task 0 T_headers]"
proof -
  obtain s q where s: "cl_streams asking_session 0 = Some s" "cs_res s = Some 0" "cl_responses asking_session 0 = Some q"
      "cb_headers q" "cb_trailer q"
    by (simp add: asking_defs)
  have st: "stoi ''200'' = Inr 200" by code_simp
  have "se_events asking_session = []" by (simp add: asking_defs)
  then show ?thesis using interim_response [OF s, of "[(''a'', ''1'')]" "''200''" 200] st by auto
qed

section \<open>Errors\<close>

text \<open>
  \<open>errors i w\<close> counts the tasks that run the error callback of the request \<open>i\<close>;
  \<open>errs i n w w'\<close>: at least \<open>n\<close> more, and the streams are as before.
\<close>

definition errors :: "nat \<Rightarrow> 'n session_client \<Rightarrow> nat" where
  "errors i w = count_list (se_events w) (Outgoing_task i L_error)"

definition has_error_callback :: "nat \<Rightarrow> 'n session_client \<Rightarrow> bool" where
  "has_error_callback i w \<longleftrightarrow> (\<exists>l. cl_requests w i = Some l \<and> lo_error_cb l)"

definition errs :: "nat \<Rightarrow> nat \<Rightarrow> 'n session_client \<Rightarrow> 'n session_client \<Rightarrow> bool" where
  "errs i n w w' \<longleftrightarrow> (has_error_callback i w \<longrightarrow>
     has_error_callback i w' \<and> cl_streams w' = cl_streams w \<and> errors i w + n \<le> errors i w')"

lemma errs_trans: "errs i m w w1 \<Longrightarrow> errs i n w1 w2 \<Longrightarrow> errs i (m + n) w w2"
  by (auto simp: errs_def)

lemma errs_refl [simp]: "errs i 0 w w"
  by (simp add: errs_def)

lemma errs_mono: "errs i m w w' \<Longrightarrow> n \<le> m \<Longrightarrow> errs i n w w'"
  by (auto simp: errs_def)

lemma errs_on_request: "errs i (if r = i then 1 else 0) w (on_request client_request_error r w)"
  by (auto simp: errs_def on_request_def client_request_error_def has_error_callback_def errors_def log_h2_def
      split: option.splits)

lemma errs_pending: "errs i (count_list rs i) w (fold (on_request client_request_error) rs w)"
proof (induction rs arbitrary: w)
  case (Cons r rs)
  have "errs i ((if r = i then 1 else 0) + count_list rs i) w (fold (on_request client_request_error) (r # rs) w)"
    using errs_trans [OF errs_on_request Cons.IH] by simp
  then show ?case by (rule errs_mono) simp
qed simp

lemma errs_on_response: "on_response f i w = Inr w' \<Longrightarrow> errs j 0 w w'"
  by (auto simp: on_response_def res_bind_eq_Inr errs_def has_error_callback_def errors_def log_h2_def the_client_def
      split: option.splits prod.splits)

lemma errs_notify_error:
  assumes "stream_client_notify_error ec j w = Inr w'" "has_error_callback i w" "cl_streams w j = Some s" "cs_req s = Some j"
  shows "errs i (if j = i then 1 else 0) w w'"
proof -
  obtain w1 where w1: "errs i 0 w w1" "w' = on_request client_request_error j w1"
  proof (cases "cs_res s")
    case None
    then show ?thesis using assms that [of w] by (simp add: stream_client_notify_error_def the_client_def)
  next
    case (Some r)
    then obtain w1 where "on_response (client_response_error ec) j w = Inr w1" "w' = on_request client_request_error j w1"
      using assms by (auto simp: stream_client_notify_error_def the_client_def res_bind_eq_Inr)
    then show ?thesis using that errs_on_response by blast
  qed
  then show ?thesis using errs_trans [OF w1(1) errs_on_request [of i j]] by simp
qed

text \<open>Every stream is the one of its own request, as the session sets them up.\<close>

definition own_requests :: "'n session_client \<Rightarrow> bool" where
  "own_requests w \<longleftrightarrow> (\<forall>i s. cl_streams w i = Some s \<longrightarrow> cs_req s = Some i)"

lemma errs_listeners:
  assumes "client_notify_listeners ec js w = Inr w'" "has_error_callback i w" "own_requests w"
  shows "errs i (count_list js i) w w'"
  using assms
proof (induction js arbitrary: w)
  case (Cons j js)
  obtain w1 where w1: "stream_client_notify_error ec j w = Inr w1" "client_notify_listeners ec js w1 = Inr w'"
    using Cons.prems(1) by (auto simp: res_bind_eq_Inr)
  obtain s where s: "cl_streams w j = Some s"
    using w1(1) by (auto simp: stream_client_notify_error_def the_client_def split: option.splits)
  have one: "errs i (if j = i then 1 else 0) w w1"
    by (rule errs_notify_error [OF w1(1) Cons.prems(2) s]) (use s Cons.prems(3) in \<open>simp add: own_requests_def\<close>)
  then have "has_error_callback i w1" "own_requests w1"
    using Cons.prems(2,3) by (auto simp: errs_def own_requests_def)
  then have "errs i (count_list js i) w1 w'" using Cons.IH [OF w1(2)] by blast
  from errs_trans [OF one this] show ?case by (rule errs_mono) simp
qed simp

text \<open>
  C39: a request that has ended and waits for its write when the connection goes is told of the error
  twice, once as a pending write and once as a stream; the callback that the session registered
  for it destroys the stream the first time, and uses it after that the second time.
\<close>

theorem double_error_use_after_free:
  assumes "client_set_connector False w = Inr w1" "own_requests w"
    and "i \<in> set (se_pending w)" "i \<in> set (se_listeners w)"
    and "cl_streams w i = Some s" "so_eof s" "cl_requests w i = Some l" "lo_error_cb l"
  shows "errors i w + 2 \<le> errors i w1
    \<and> (\<exists>w2. request_error_task i w1 = Inr w2 \<and> request_error_task i w2 = Inl Undefined_behaviour)"
proof -
  define err where "err = (if se_user_close w then Connection_closed else Closed_by_client)"
  define v where "v = client_raise err (w\<lparr>se_connector := False\<rparr>)"
  define u where "u = fold (on_request client_request_error) (se_pending w) v"
  have v: "errs i 0 w v" "se_pending v = se_pending w" "se_listeners v = se_listeners w"
    "cl_streams v = cl_streams w" "has_error_callback i v"
    using assms(7,8) by (auto simp: v_def client_raise_def log_h2_def errs_def has_error_callback_def errors_def
        split: prod.splits)
  have listeners: "se_listeners (fold (on_request client_request_error) rs x) = se_listeners x" for rs and x :: "'a session_client"
    by (induction rs arbitrary: x) (auto simp: on_request_def log_h2_def split: option.splits prod.splits)
  have one: "errs i (count_list (se_pending w) i) v u" unfolding u_def by (rule errs_pending)
  then have u: "has_error_callback i u" "cl_streams u = cl_streams w" using v by (auto simp: errs_def)
  have "client_notify_listeners err (se_listeners w) u = Inr w1"
    using assms(1) v(2,3) listeners
    by (simp add: client_set_connector_def client_on_connector_nulled_def client_notify_error_def u_def v_def err_def Let_def)
  then have two: "errs i (count_list (se_listeners w) i) u w1"
    by (rule errs_listeners [OF _ u(1)]) (use u(2) assms(2) in \<open>simp add: own_requests_def\<close>)
  have "1 \<le> count_list (se_pending w) i" "1 \<le> count_list (se_listeners w) i"
    using assms(3,4) by (simp_all add: Suc_le_eq count_list_0_iff flip: neq0_conv)
  then have all: "errs i 2 w w1"
    using errs_trans [OF v(1) errs_trans [OF one two]] by (rule_tac errs_mono) auto
  have cb: "has_error_callback i w" using assms(7,8) by (simp add: has_error_callback_def)
  then have "errors i w + 2 \<le> errors i w1" "cl_streams w1 i = Some s" using all assms(5) by (simp_all add: errs_def)
  then show ?thesis using assms(6)
    by (simp add: request_error_task_def stream_client_die_def the_client_def stream_client_destroy_def unsubscribe_def)
qed

text \<open>The request has ended while an earlier write is under way.\<close>

definition ended_session :: "scripted session_client" where
  "ended_session = (projr (upd_client 0 (\<lambda>s. s\<lparr>so_headers_sent := True, so_eof := True\<rparr>) asking_session))
     \<lparr>cn_writing := True, se_pending := [0]\<rparr>"

lemma ended_fields:
  "\<exists>s. cl_streams ended_session = [0 \<mapsto> s] \<and> so_eof s \<and> cs_req s = Some 0"
  "cl_requests ended_session 0 = Some (local_new\<lparr>lo_error_cb := True\<rparr>)" "se_pending ended_session = [0]"
  "se_listeners ended_session = [0]"
  by (simp_all add: ended_session_def asking_defs upd_client_def the_client_def) (rule exI, rule conjI, rule refl, simp)

lemma double_error_use_after_free_witness:
  "\<exists>w1 w2. client_set_connector False ended_session = Inr w1 \<and> request_error_task 0 w1 = Inr w2
    \<and> request_error_task 0 w2 = Inl Undefined_behaviour"
proof -
  obtain s where s: "cl_streams ended_session = [0 \<mapsto> s]" "so_eof s" "cs_req s = Some 0"
    using ended_fields(1) by blast
  have own: "own_requests ended_session" using s by (simp add: own_requests_def)
  have "\<exists>w1. client_set_connector False ended_session = Inr w1"
    by (simp add: client_set_connector_def client_on_connector_nulled_def client_raise_def connection_raise_def
        connection_new_def client_notify_error_def stream_client_notify_error_def on_request_def client_request_error_def
        on_response_def client_response_error_def client_response_new_def remote_callbacks.defs client_response.defs
        ended_session_def asking_defs upd_client_def the_client_def log_h2_def Let_def split: prod.splits)
  then obtain w1 where w1: "client_set_connector False ended_session = Inr w1" by blast
  show ?thesis
    using double_error_use_after_free [OF w1 own, of 0 s] ended_fields s w1 by auto
qed

section \<open>The body of a request\<close>

text \<open>
  The library calls the read callback only of the data providers it was given, and a request is
  submitted without one.  \<open>B i\<close> is what the user has written to the request \<open>i\<close>.
\<close>

definition providerless :: "'n nghttp2 \<Rightarrow> bool" where
  "providerless L \<longleftrightarrow> (\<forall>g. case fst (ng_turn L g) of Call (Data_source_read i n) \<Rightarrow> False | _ \<Rightarrow> True)"

definition holds :: "(nat \<Rightarrow> string list) \<Rightarrow> 'n session_client \<Rightarrow> bool" where
  "holds B w \<longleftrightarrow> (\<forall>i s. cl_streams w i = Some s \<longrightarrow> so_body s = B i \<and> so_body_index s = 0)
     \<and> (\<forall>i \<ge> se_next w. B i = [] \<and> cl_streams w i = None)"

definition kept :: "(nat \<Rightarrow> string list) \<Rightarrow> 'n session_client result \<Rightarrow> bool" where
  "kept B r \<longleftrightarrow> (case r of Inr w \<Rightarrow> holds B w | Inl f \<Rightarrow> True)"

lemma kept_simps [simp]: "kept B (Inr w) \<longleftrightarrow> holds B w" "kept B (Inl f)"
  by (simp_all add: kept_def)

lemma kept_bind: "kept B r \<Longrightarrow> (\<And>w. holds B w \<Longrightarrow> kept B (f w)) \<Longrightarrow> kept B (res_bind r f)"
  by (cases r) simp_all

lemma kept_bind_value: "(\<And>x. r = Inr x \<Longrightarrow> kept B (f x)) \<Longrightarrow> kept B (res_bind r f)"
  by (cases r) simp_all

lemma kept_noexcept [simp]: "kept B (noexcept_call r) = kept B r"
  by (cases r) (auto simp: noexcept_call_def split: fault.splits)

lemma holds_cong: "cl_streams w' = cl_streams w \<Longrightarrow> se_next w' = se_next w \<Longrightarrow> holds B w' = holds B w"
  by (simp add: holds_def)

lemma holds_put:
  "holds B w \<Longrightarrow> the_client i w = Inr s \<Longrightarrow> so_body t = so_body s \<Longrightarrow> so_body_index t = so_body_index s \<Longrightarrow>
    holds B (put_client i t w)"
  by (auto simp: holds_def put_client_def the_client_def split: option.splits)

lemma holds_log [simp]: "holds B (log_h2 es w) = holds B w"
  by (rule holds_cong) (simp_all add: log_h2_def)

lemma ng_call_kept:
  "ng_call L r w = (rv, w') \<Longrightarrow> cl_streams w' = cl_streams w \<and> se_next w' = se_next w"
  by (auto simp: ng_call_def split: prod.splits)

lemma ng_call_snd [simp]:
  "cl_streams (snd (ng_call L r w)) = cl_streams w" "se_next (snd (ng_call L r w)) = se_next w"
  "the_client i (snd (ng_call L r w)) = the_client i w"
  by (simp_all add: ng_call_def the_client_def split: prod.splits)

lemma kept_upd:
  "holds B w \<Longrightarrow> (\<And>s. so_body (f s) = so_body s \<and> so_body_index (f s) = so_body_index s) \<Longrightarrow> kept B (upd_client i f w)"
  unfolding upd_client_def by (rule kept_bind_value) (auto intro: holds_put)

lemma kept_on_response: "holds B w \<Longrightarrow> kept B (on_response f i w)"
  by (auto simp: on_response_def holds_def log_h2_def split: option.splits prod.splits intro!: kept_bind_value)

lemma kept_die: "holds B w \<Longrightarrow> kept B (stream_client_die i w)"
  by (auto simp: stream_client_die_def stream_client_destroy_def unsubscribe_def holds_def put_client_def the_client_def
      split: option.splits intro!: kept_bind_value)

lemma kept_header_field:
  assumes h: "holds B w"
  shows "kept B (client_header_field k v i w)"
proof -
  have "kept B (stream_client_uri_host v i w)"
    unfolding stream_client_uri_host_def
    by (intro kept_bind_value, unfold kept_simps, rule holds_put [OF h]) simp_all
  moreover have "kept B (stream_client_add_header k v i w)"
    unfolding stream_client_add_header_def
  proof (rule kept_bind_value)
    fix s
    assume s: "the_client i w = Inr s"
    have "kept B (res_bind (header k v (cs_response s)) (\<lambda>r. Inr (put_client i (s\<lparr>cs_response := r\<rparr>) w)))"
      by (intro kept_bind_value, unfold kept_simps, rule holds_put [OF h s]) simp_all
    then show "kept B (if \<not> cs_headers_sent s
        then res_bind (header k v (cs_response s)) (\<lambda>r. Inr (put_client i (s\<lparr>cs_response := r\<rparr>) w))
        else on_response (client_response_trailer k v) i w)"
      by (simp add: kept_on_response h)
  qed
  moreover have "kept B (upd_client i (stream_client_status n) w)" for n
    by (rule kept_upd [OF h]) (simp add: stream_client_status_def)
  ultimately show ?thesis by (simp add: client_header_field_def split: sum.splits)
qed

lemma kept_header_complete: "holds B w \<Longrightarrow> kept B (on_response_header_complete i w)"
  unfolding on_response_header_complete_def
  by (intro kept_bind_value kept_bind kept_on_response kept_upd) simp_all

lemma kept_finished: "holds B w \<Longrightarrow> kept B (on_response_finished i w)"
  unfolding on_response_finished_def by (intro kept_bind kept_on_response kept_upd) simp_all

lemma kept_create: "holds B w \<Longrightarrow> kept B (res_bind (client_create_stream L sid w) (\<lambda>(i, w). Inr w))"
proof -
  assume h: "holds B w"
  let ?i = "se_next w"
  show ?thesis
  proof (cases "stream_client_new ?i (w\<lparr>se_next := Suc ?i\<rparr>)")
    case (Inl f)
    then show ?thesis by (simp add: client_create_stream_def)
  next
    case (Inr x)
    obtain s w1 where x: "x = (s, w1)" by (cases x)
    have w1: "cl_streams w1 = cl_streams w" "se_next w1 = Suc ?i" "so_body s = []" "so_body_index s = 0"
      using Inr x by (auto simp: stream_client_new_def subscribe_def assert_that_def out_new_def res_bind_eq_Inr split: if_splits)
    show ?thesis
    proof (cases "client_create_stream L sid w")
      case (Inl f)
      then show ?thesis by simp
    next
      case (Inr y)
      obtain j w2 where y: "y = (j, w2)" by (cases y)
      have "cl_streams w2 = (cl_streams w)(?i \<mapsto> stream_client_set_handlers ?i ?i (s\<lparr>so_id := sid\<rparr>))"
        "se_next w2 = Suc ?i"
        using Inr y \<open>stream_client_new ?i (w\<lparr>se_next := Suc ?i\<rparr>) = Inr x\<close> x w1(1,2)
        by (auto simp: client_create_stream_def Let_def upd_client_def the_client_def put_client_def res_bind_eq_Inr split: if_splits)
      then have "holds B w2" using h w1(3,4) by (auto simp: holds_def stream_client_set_handlers_def)
      then show ?thesis using Inr y by simp
    qed
  qed
qed

lemma kept_wanted: "(\<And>w. holds B w \<Longrightarrow> kept B (dw w)) \<Longrightarrow> holds B w \<Longrightarrow> kept B (write_if_wanted L dw w)"
  by (simp add: write_if_wanted_def)

lemma kept_callback:
  assumes "\<And>w. holds B w \<Longrightarrow> kept B (dw w)" "holds B w" "\<And>i n. c \<noteq> Data_source_read i n"
  shows "kept B (res_bind (session_client_callback L dw c w) (\<lambda>(a, w). Inr w))"
proof -
  have zero: "res_bind (res_bind r (\<lambda>w. Inr (Answer 0, w))) (\<lambda>(a, w). Inr w) = r" for r :: "'a session_client result"
    by (cases r) simp_all
  note wanted = kept_wanted [OF assms(1)]
  show ?thesis
  proof (cases c)
    case (On_frame_recv f)
    have "kept B (client_on_frame_recv L dw f w)"
      unfolding client_on_frame_recv_def
      by (rule kept_bind [OF _ wanted])
        (auto split: option.splits intro!: kept_bind kept_header_complete kept_finished assms(2))
    then show ?thesis using On_frame_recv by (simp add: session_client_callback_def zero)
  next
    case (On_stream_close sid e)
    have "kept B (client_on_stream_close L dw sid w)"
      by (auto simp: client_on_stream_close_def split: option.splits intro!: kept_bind [OF _ wanted] kept_die assms(2))
    then show ?thesis using On_stream_close by (simp add: session_client_callback_def zero)
  next
    case (On_begin_headers f)
    have "kept B (client_on_begin_headers L f w)"
      using kept_create [OF assms(2)] assms(2) by (auto simp: client_on_begin_headers_def split: option.splits)
    then show ?thesis using On_begin_headers by (simp add: session_client_callback_def zero)
  next
    case (On_header f k v)
    have "kept B (client_on_header L dw f k v w)"
      unfolding client_on_header_def
      by (rule kept_bind [OF _ wanted]) (auto split: option.splits intro!: kept_header_field assms(2))
    then show ?thesis using On_header by (simp add: session_client_callback_def zero)
  next
    case (On_data_chunk sid d)
    have "kept B (client_on_data_chunk L dw sid d w)"
      unfolding client_on_data_chunk_def on_response_body_def
      by (rule kept_bind [OF _ wanted]) (auto split: option.splits intro!: kept_on_response assms(2))
    then show ?thesis using On_data_chunk by (simp add: session_client_callback_def zero)
  next
    case (Frame_not_send f e)
    have "kept B (let (rc, w) = ng_call L (Submit_rst_stream (fr_stream_id f)) w'
        in if rc \<noteq> 0 then Inl (Thrown Failing_at_failing) else Inr w)" if "holds B w'" for w' :: "'a session_client"
      using that ng_call_kept [of L "Submit_rst_stream (fr_stream_id f)" w'] holds_cong
      by (cases "ng_call L (Submit_rst_stream (fr_stream_id f)) w'") fastforce
    then have "kept B (client_frame_not_send L f w)"
      using assms(2) by (auto simp: client_frame_not_send_def split: option.splits intro!: kept_bind kept_die)
    then show ?thesis using Frame_not_send by (simp add: session_client_callback_def zero)
  qed (use assms(2,3) in \<open>simp_all add: session_client_callback_def\<close>)
qed

lemma kept_ng_run:
  assumes "providerless L" "\<And>w. holds B w \<Longrightarrow> kept B (dw w)"
  shows "holds B w \<Longrightarrow> kept B (res_bind (ng_run L (session_client_callback L dw) n w) (\<lambda>(r, s, w). Inr w))"
proof (induction n arbitrary: w)
  case (Suc n)
  obtain t g where t: "ng_turn L (se_ng w) = (t, g)" by (cases "ng_turn L (se_ng w)")
  have g: "holds B (w\<lparr>se_ng := g\<rparr>)" for g using Suc.prems by (simp add: holds_def)
  show ?case
  proof (cases t)
    case (Return r s)
    then show ?thesis using t g by simp
  next
    case (Call c)
    have "case t of Call (Data_source_read i n) \<Rightarrow> False | _ \<Rightarrow> True"
      using assms(1) [unfolded providerless_def, THEN spec, of "se_ng w"] t by simp
    then have c: "\<And>i n. c \<noteq> Data_source_read i n" using Call by auto
    have cb: "kept B (res_bind (session_client_callback L dw c (w\<lparr>se_ng := g\<rparr>)) (\<lambda>(a, w). Inr w))"
      by (rule kept_callback [OF assms(2) g c])
    show ?thesis
    proof (cases "session_client_callback L dw c (w\<lparr>se_ng := g\<rparr>)")
      case (Inl f)
      then show ?thesis using t Call by simp
    next
      case (Inr x)
      obtain a w1 where x: "x = (a, w1)" by (cases x)
      have "holds B w1" using cb Inr x by simp
      then have "holds B (w1\<lparr>se_ng := ng_resume L a (se_ng w1)\<rparr>)" by (simp add: holds_def)
      from Suc.IH [OF this] show ?thesis using t Call Inr x by simp
    qed
  qed
qed simp

lemma kept_do_write:
  assumes "providerless L"
  shows "holds B w \<Longrightarrow> kept B (session_client_do_write L n w)"
proof (induction n arbitrary: w)
  case (Suc n)
  let ?w = "((renew_ttl w)\<lparr>cn_out := []\<rparr>)\<lparr>se_ng := ng_enter_send L (se_ng w)\<rparr>"
  have w: "cl_streams (renew_ttl x) = cl_streams x" "se_next (renew_ttl x) = se_next x"
    "se_ng (renew_ttl x) = se_ng x" for x :: "'a session_client"
    by (simp_all add: conn_ops)
  have stop: "cl_streams (stop x) = cl_streams x" "se_next (stop x) = se_next x"
    "cl_streams (log_io as x) = cl_streams x" "se_next (log_io as x) = se_next x" for as and x :: "'a session_client"
    by (simp_all add: conn_ops)
  have "holds B ?w" using Suc.prems w by (simp add: holds_def)
  from kept_ng_run [OF assms Suc.IH this, where n = n]
  have run: "kept B (res_bind (ng_run L (session_client_callback L (session_client_do_write L n)) n ?w) (\<lambda>(r, s, w). Inr w))" .
  show ?case
  proof (cases "se_connector w \<and> \<not> cn_writing w \<and> \<not> cn_stopped w")
    case False
    then show ?thesis using Suc.prems by (auto simp: do_write_fallible_def)
  next
    case True
    show ?thesis
    proof (cases "ng_run L (session_client_callback L (session_client_do_write L n)) n ?w")
      case (Inl f)
      then show ?thesis using True by (simp add: do_write_fallible_def session_client_on_write_def mem_send_def w)
    next
      case (Inr x)
      obtain r out w1 where x: "x = (r, out, w1)" by (cases x)
      have "holds B w1" using run Inr x by simp
      then show ?thesis using True Inr x
        by (simp add: do_write_fallible_def session_client_on_write_def mem_send_def session_write_feedbacks_def Let_def w)
          (simp add: holds_def stop)
    qed
  qed
qed simp

lemma kept_on_read:
  assumes "providerless L" "holds B w"
  shows "kept B (res_bind (session_client_on_read L n d w) (\<lambda>(ok, w). Inr w))"
proof -
  let ?dw = "session_client_do_write L n"
  let ?run = "mem_recv L (session_client_callback L ?dw) n d w"
  have "holds B (w\<lparr>se_ng := ng_enter_recv L d (se_ng w)\<rparr>)" using assms(2) by (simp add: holds_def)
  from kept_ng_run [OF assms(1) kept_do_write [OF assms(1)] this, where n = n]
  have run: "kept B (res_bind ?run (\<lambda>(r, s, w). Inr w))" by (simp add: mem_recv_def)
  show ?thesis
  proof (cases ?run)
    case (Inl f)
    then show ?thesis by (simp add: session_client_on_read_def session_on_read_def)
  next
    case (Inr x)
    obtain rv s w1 where x: "x = (rv, s, w1)" by (cases x)
    have w1: "holds B w1" using run Inr x by simp
    have away: "kept B (if rv < 0 then go_away L w1 else Inr w1)"
      using w1 ng_call_kept [of L "Submit_goaway (ng_last_proc_stream_id L (se_ng w1))" w1]
      by (cases "ng_call L (Submit_goaway (ng_last_proc_stream_id L (se_ng w1))) w1")
        (simp add: go_away_def holds_def)
    have wr: "kept B (write_if_wanted L ?dw w2)" if "holds B w2" for w2
      by (rule kept_wanted [OF kept_do_write [OF assms(1)] that])
    have rest: "kept B (res_bind (assert_that b (res_bind (write_if_wanted L ?dw w2) (\<lambda>w. Inr (True, w)))) (\<lambda>(ok, w). Inr w))"
      if "holds B w2" for w2 b
      using wr [OF that] by (cases "write_if_wanted L ?dw w2") (simp_all add: assert_that_def)
    show ?thesis
      using w1 away rest Inr x
      by (cases "if rv < 0 then go_away L w1 else Inr w1") (auto simp: session_client_on_read_def session_on_read_def)
  qed
qed

lemma kept_flush:
  assumes "\<And>w. holds B w \<Longrightarrow> kept B (dw w)" "holds B w"
  shows "kept B (stream_client_flush L dw i w)"
  unfolding stream_client_flush_def kept_noexcept
proof (rule kept_bind_value)
  fix s
  assume s: "the_client i w = Inr s"
  have h: "holds B (snd (ng_call L r w))" for r
    using assms(2) by (simp add: holds_cong [of "snd (ng_call L r w)" w])
  have s': "the_client i (snd (ng_call L r w)) = Inr s" for r using s by simp
  have put: "holds B (put_client i (s\<lparr>so_resume_needed := False\<rparr>) (snd (ng_call L r w)))"
    "holds B (put_client i (s\<lparr>so_id := x, so_headers_sent := True\<rparr>) (snd (ng_call L r w)))" for r x
    by (rule holds_put [OF h s']; simp)+
  have "holds B (put_client i (s\<lparr>so_trailers_nvlen := m, so_trailers_nva := a\<rparr>) w)" for m a
    by (rule holds_put [OF assms(2) s]) simp_all
  then have trailers: "kept B (client_submit_trailers L i s w)"
    unfolding client_submit_trailers_def
    by (intro kept_bind_value) (simp add: holds_cong [of "snd (ng_call L r v)" v for r v])
  have "kept B (if cs_status s \<noteq> 101 then
           if so_resume_needed s
           then Inr (put_client i (s\<lparr>so_resume_needed := False\<rparr>) (snd (ng_call L (Resume_data (so_id s)) w)))
           else if \<not> so_headers_sent s
           then (let (r, w) = ng_call L (Submit_request (submitted_headers s) i) w
                 in Inr (put_client i (s\<lparr>so_id := r, so_headers_sent := True\<rparr>) w))
           else if so_body_sent s \<and> so_eof s then client_submit_trailers L i s w
           else Inr w
         else (let (r, w) = ng_call L (Submit_headers (so_id s) (submitted_headers s)) w
               in assert_that (r = 0) (Inr w)))"
    using assms(2) h put trailers by (simp add: case_prod_beta assert_that_def Let_def)
  from kept_bind [OF this assms(1)]
  show "kept B (if so_closed s then Inr w
     else res_bind
        (if cs_status s \<noteq> 101 then
           if so_resume_needed s
           then Inr (put_client i (s\<lparr>so_resume_needed := False\<rparr>) (snd (ng_call L (Resume_data (so_id s)) w)))
           else if \<not> so_headers_sent s
           then (let (r, w) = ng_call L (Submit_request (submitted_headers s) i) w
                 in Inr (put_client i (s\<lparr>so_id := r, so_headers_sent := True\<rparr>) w))
           else if so_body_sent s \<and> so_eof s then client_submit_trailers L i s w
           else Inr w
         else (let (r, w) = ng_call L (Submit_headers (so_id s) (submitted_headers s)) w
               in assert_that (r = 0) (Inr w)))
        dw)"
    using assms(2) by simp
qed

text \<open>
  A session that starts on a connection; requests are made, the connector brings bytes or asks for
  output and may go, the user writes to a request whose stream is there, and error tasks run.
\<close>

fun written_to :: "nat \<Rightarrow> request_call \<Rightarrow> (nat \<Rightarrow> string list) \<Rightarrow> nat \<Rightarrow> string list" where
  "written_to i (R_body d) B = B(i := B i @ [d])"
| "written_to i _ B = B"

inductive client_reach :: "'n nghttp2 \<Rightarrow> nat \<Rightarrow> (nat \<Rightarrow> string list) \<Rightarrow> 'n session_client \<Rightarrow> bool" for L n where
  client_reach_new: "client_reach L n (\<lambda>i. []) ((session_client_new m junk g)\<lparr>se_connector := True, se_origin := a\<rparr>)"
| client_reach_request: "client_reach L n B w \<Longrightarrow> client_get_user_handlers L w = Inr (i, w') \<Longrightarrow> client_reach L n B w'"
| client_reach_read: "client_reach L n B w \<Longrightarrow> session_client_on_read L n d w = Inr (ok, w') \<Longrightarrow> client_reach L n B w'"
| client_reach_write: "client_reach L n B w \<Longrightarrow> session_client_do_write L n w = Inr w' \<Longrightarrow> client_reach L n B w'"
| client_reach_call: "client_reach L n B w \<Longrightarrow> cl_streams w i \<noteq> None \<Longrightarrow> request_call L n i c w = Inr w' \<Longrightarrow>
    client_reach L n (written_to i c B) w'"
| client_reach_error: "client_reach L n B w \<Longrightarrow> request_error_task i w = Inr w' \<Longrightarrow> client_reach L n B w'"
| client_reach_nulled: "client_reach L n B w \<Longrightarrow> client_set_connector False w = Inr w' \<Longrightarrow> client_reach L n B w'"

lemma kept_request_call:
  assumes "providerless L" "holds B w" "cl_streams w i \<noteq> None"
  shows "kept (written_to i c B) (request_call L n i c w)"
proof -
  let ?dw = "session_client_do_write L n"
  note dw = kept_do_write [OF assms(1), where n = n]
  note flush = kept_flush [where dw = ?dw and L = L and i = i, OF dw]
  obtain s where s: "cl_streams w i = Some s" using assms(3) by auto
  have ts: "the_client i w = Inr s" using s by (simp add: the_client_def)
  note put = holds_put [OF assms(2) ts]
  show ?thesis
  proof (cases c)
    case (R_headers req)
    have "kept B (stream_client_on_header L ?dw req i w)"
      unfolding stream_client_on_header_def Let_def
      by (intro kept_bind_value flush) (use ts in \<open>auto intro: put\<close>)
    then show ?thesis using R_headers by (simp add: request_call_def)
  next
    case (R_body d)
    have "i < se_next w" using assms(2) s by (metis holds_def leI option.distinct(1))
    then have "holds (B(i := B i @ [d])) (put_client i (s\<lparr>so_body := so_body s @ [d]\<rparr>) w)"
      using assms(2) s by (auto simp: holds_def put_client_def)
    then show ?thesis using R_body ts
      by (auto simp: request_call_def stream_client_on_body_def upd_client_def intro: kept_flush [OF dw])
  next
    case (R_trailer k v)
    then show ?thesis using assms(2)
      by (auto simp: request_call_def stream_client_on_trailer_def intro!: kept_upd)
  next
    case R_end
    have eof: "holds B (put_client i (s\<lparr>so_eof := True\<rparr>) w)" by (rule put) simp_all
    have "holds B (add_pending_callbacks r (put_client i (s\<lparr>so_eof := True\<rparr>) w))" for r
      using eof by (simp add: holds_def add_pending_callbacks_def)
    then show ?thesis using R_end ts eof
      by (auto simp: request_call_def stream_client_on_eom_def Let_def intro!: kept_die flush split: option.splits)
  qed
qed

lemma holds_on_request: "holds B (on_request f r w) = holds B w"
  by (rule holds_cong) (auto simp: on_request_def log_h2_def split: option.splits prod.splits)

lemma kept_nulled:
  assumes "holds B w"
  shows "kept B (client_set_connector False w)"
proof -
  have listeners: "kept B (client_notify_listeners ec js x)" if "holds B x" for ec js x
    using that
  proof (induction js arbitrary: x)
    case (Cons j js)
    have "kept B (stream_client_notify_error ec j x)"
      unfolding stream_client_notify_error_def
      by (intro kept_bind_value kept_bind)
        (auto intro: kept_on_response Cons.prems simp: holds_on_request split: option.splits)
    then show ?case using Cons.IH by (auto intro: kept_bind)
  qed simp
  have folded: "holds B (fold (on_request f) rs x) = holds B x" for f rs and x :: "'a session_client"
    by (induction rs arbitrary: x) (simp_all add: holds_on_request)
  have "holds B (client_raise e (w\<lparr>se_connector := False\<rparr>))" for e
    using assms by (simp add: client_raise_def holds_def log_h2_def split: prod.splits)
  then show ?thesis
    by (auto simp: client_set_connector_def client_on_connector_nulled_def client_notify_error_def Let_def folded
        intro!: listeners)
qed


lemma scripted_providerless: "providerless scripted_library"
  by (auto simp: providerless_def scripted_library_def scripted_turn_def
      split: list.splits ng_turn.splits ng_callback.splits if_splits)

definition new_client :: "scripted session_client" where
  "new_client = (session_client_new 100 0 \<lparr>sc_turns = [], sc_view = idle_view, sc_want_write = False\<rparr>)
     \<lparr>se_connector := True, se_origin := Ip_v4 1\<rparr>"


end
