(* ===== verification/Negotiation.thy ===== *)
theory Negotiation
  imports Http_Commons
begin

text \<open>
  Which protocol a TLS connection speaks and which handler it gets:
  \<open>src/src/protocol/handler_factory.h/.cpp\<close> on the server, the anonymous functions of
  \<open>src/src/network/communicator/dns_communicator_factory.cpp\<close> and
  \<open>src/src/http_client.h/.cpp\<close> on the client.  OpenSSL is not part of the repository: what it
  has negotiated is an argument, a null pointer being \<open>None\<close>, and so is
  \<open>SSL_select_next_proto\<close>, which gets the protocol and the length it is called with.
\<close>

section \<open>The server\<close>

definition alpn_protos_default :: "string list" where
  "alpn_protos_default = [CHR 0x02 # ''h2'', CHR 0x05 # ''h2-16'', CHR 0x05 # ''h2-14'', CHR 0x08 # ''http/1.1'',
     CHR 0x08 # ''http/1.0'']"

definition npn_protos :: string where
  "npn_protos = [CHR 0x02, CHR ''h'', CHR ''2'', CHR 0x05, CHR ''h'', CHR ''2'', CHR ''-'', CHR ''1'', CHR ''6'',
     CHR 0x05, CHR ''h'', CHR ''2'', CHR ''-'', CHR ''1'', CHR ''4'',
     CHR 0x08, CHR ''h'', CHR ''t'', CHR ''t'', CHR ''p'', CHR ''/'', CHR ''1'', CHR ''.'', CHR ''1'',
     CHR 0x08, CHR ''h'', CHR ''t'', CHR ''t'', CHR ''p'', CHR ''/'', CHR ''1'', CHR ''.'', CHR ''0'']"

fun alpn_loop :: "(string \<Rightarrow> nat \<Rightarrow> string \<Rightarrow> string option) \<Rightarrow> string list \<Rightarrow> string \<Rightarrow> string option" where
  "alpn_loop sel [] offer = None"
| "alpn_loop sel (proto # protos) offer =
    (case sel proto (length proto - 1) offer of Some out \<Rightarrow> Some out | None \<Rightarrow> alpn_loop sel protos offer)"

definition alpn_select_cb :: "(string \<Rightarrow> nat \<Rightarrow> string \<Rightarrow> string option) \<Rightarrow> string \<Rightarrow> string option" where
  "alpn_select_cb sel offer = alpn_loop sel alpn_protos_default offer"

datatype handler_type = Ht_h1 | Ht_h2

definition negotiated :: "string option \<Rightarrow> string option \<Rightarrow> string option" where
  "negotiated alpn npn = (case alpn of None \<Rightarrow> npn | Some p \<Rightarrow> if length p = 0 then npn else alpn)"

definition handler_type_of :: "nat \<Rightarrow> handler_type" where
  "handler_type_of len = (if len = 2 \<or> len = 3 \<or> len = 5 then Ht_h2 else Ht_h1)"

definition negotiate_handler :: "string option \<Rightarrow> string option \<Rightarrow> (handler_type \<times> proto_version) result" where
  "negotiate_handler alpn npn =
    (let proto = negotiated alpn npn;
         len = (case proto of None \<Rightarrow> 0 | Some p \<Rightarrow> length p);
         t = handler_type_of len
     in if t = Ht_h2 then Inr (t, HTTP20)
        else (case proto of
            None \<Rightarrow> Inr (t, HTTP10)
          | Some p \<Rightarrow> if p = [] then Inl Undefined_behaviour
                      else Inr (t, if p ! (len - 1) = CHR ''0'' then HTTP10 else HTTP11)))"

datatype handler_kind = Http2_session | Http1_server | Http2_session_client | Http1_client

definition build_handler :: "handler_type \<Rightarrow> proto_version \<Rightarrow> handler_kind" where
  "build_handler t proto = (if t = Ht_h2 then Http2_session else Http1_server)"

section \<open>The client\<close>

definition NGHTTP2_H2_ALPN :: string where "NGHTTP2_H2_ALPN = CHR 0x02 # ''h2''"
definition NGHTTP2_H2_16_ALPN :: string where "NGHTTP2_H2_16_ALPN = CHR 0x05 # ''h2-16''"
definition NGHTTP2_H2_14_ALPN :: string where "NGHTTP2_H2_14_ALPN = CHR 0x05 # ''h2-14''"
definition HTTP1_1_ALPN :: string where "HTTP1_1_ALPN = CHR 0x08 # ''http/1.1''"
definition HTTP1_0_ALPN :: string where "HTTP1_0_ALPN = CHR 0x08 # ''http/1.0''"

text \<open>The offer is what lies between the pointer and the end; the result is the piece pointed out.\<close>

function select_proto :: "string \<Rightarrow> string \<Rightarrow> string option" where
  "select_proto [] key = None"
| "select_proto (c # cs) key =
    (if length key \<le> length (c # cs)
     then if take (length key) (c # cs) = key then Some (take (byte c) cs)
          else select_proto (drop (byte c) cs) key
     else None)"
  by pat_completeness auto
termination by (relation "measure (\<lambda>(p, key). length p)") auto

definition or_else :: "'a option \<Rightarrow> 'a option \<Rightarrow> 'a option" where
  "or_else a b = (case a of Some x \<Rightarrow> Some x | None \<Rightarrow> b)"

definition select_h2 :: "string \<Rightarrow> string option" where
  "select_h2 offer = or_else (select_proto offer NGHTTP2_H2_ALPN)
     (or_else (select_proto offer NGHTTP2_H2_16_ALPN) (select_proto offer NGHTTP2_H2_14_ALPN))"

definition select_h1 :: "string \<Rightarrow> string option" where
  "select_h1 offer = or_else (select_proto offer HTTP1_1_ALPN) (select_proto offer HTTP1_0_ALPN)"

definition client_select_next_proto_cb :: "string \<Rightarrow> string option" where
  "client_select_next_proto_cb offer = or_else (select_h2 offer) (select_h1 offer)"

definition get_default_alpn :: string where
  "get_default_alpn = NGHTTP2_H2_ALPN @ NGHTTP2_H2_16_ALPN @ NGHTTP2_H2_14_ALPN @ HTTP1_1_ALPN @ HTTP1_0_ALPN"

definition chose_protocol :: "string option \<Rightarrow> string option \<Rightarrow> proto_version" where
  "chose_protocol alpn npn =
    (let p = (case negotiated alpn npn of None \<Rightarrow> [] | Some p \<Rightarrow> p)
     in if 2 \<le> length p \<and> p ! 0 = CHR ''h'' \<and> p ! 1 = CHR ''2'' then HTTP20
        else if length p = 8 \<and> p = ''http/1.1'' then HTTP11 else HTTP10)"

definition handler_from_connector_factory :: "proto_version \<Rightarrow> handler_kind" where
  "handler_from_connector_factory v = (if v = HTTP20 then Http2_session_client else Http1_client)"

text \<open>The other specialisation of the client ignores the version it is told.\<close>

definition get_connection :: "proto_version \<Rightarrow> handler_kind result" where
  "get_connection told =
    (let v = HTTP11 in if v = HTTP20 then Inl Assert_failed else Inr Http1_client)"

section \<open>What is selected\<close>

text \<open>Protocol names on the wire: each with its length in front.\<close>

definition wire :: "string list \<Rightarrow> string" where
  "wire ps = concat (map (\<lambda>p. char_of (length p) # p) ps)"

definition preferred :: "string list" where
  "preferred = [''h2'', ''h2-16'', ''h2-14'', ''http/1.1'', ''http/1.0'']"

lemma advertised:
  "concat alpn_protos_default = wire preferred" "npn_protos = wire preferred" "get_default_alpn = wire preferred"
  by code_simp+

lemma wire_simps [simp]: "wire [] = []" "wire (p # ps) = char_of (length p) # p @ wire ps"
  by (simp_all add: wire_def)

lemma wire_member: "p \<in> set ps \<Longrightarrow> length p < length (wire ps)"
  by (induction ps) auto

lemma select_proto_wire:
  assumes "\<forall>p \<in> set ps. length p < 256" "length k < 256"
  shows "select_proto (wire ps) (char_of (length k) # k) = (if k \<in> set ps then Some k else None)"
  using assms
proof (induction ps)
  case (Cons p ps)
  have b: "byte (char_of (length p)) = length p" using Cons.prems(1) by (simp add: byte_char_of)
  have same: "(char_of (length p) :: char) = char_of (length k) \<longleftrightarrow> length p = length k"
    using Cons.prems by (metis byte_char_of list.set_intros(1))
  have rest: "drop (length p) (p @ wire ps) = wire ps" by simp
  show ?case
  proof (cases "Suc (length k) \<le> length (wire (p # ps))")
    case False
    then have "k \<notin> set (p # ps)" using wire_member [of k "p # ps"] by auto
    then show ?thesis using False by simp
  next
    case True
    show ?thesis
    proof (cases "p = k")
      case True
      then show ?thesis using b by simp
    next
      case ne: False
      have "take (Suc (length k)) (wire (p # ps)) \<noteq> char_of (length k) # k"
      proof
        assume eq: "take (Suc (length k)) (wire (p # ps)) = char_of (length k) # k"
        then have "length p = length k" using same by simp
        then show False using eq ne by simp
      qed
      then show ?thesis using True ne b rest Cons by simp
    qed
  qed
qed simp

text \<open>
  C34: the client takes, of any list of protocols a server may offer, the first of its own list that
  is among them, and declines if there is none.
\<close>

theorem client_selects_preferred:
  assumes "\<forall>p \<in> set ps. length p < 256"
  shows "client_select_next_proto_cb (wire ps) = find (\<lambda>k. k \<in> set ps) preferred"
proof -
  have keys: "NGHTTP2_H2_ALPN = char_of (length ''h2'') # ''h2''" "NGHTTP2_H2_16_ALPN = char_of (length ''h2-16'') # ''h2-16''"
    "NGHTTP2_H2_14_ALPN = char_of (length ''h2-14'') # ''h2-14''" "HTTP1_1_ALPN = char_of (length ''http/1.1'') # ''http/1.1''"
    "HTTP1_0_ALPN = char_of (length ''http/1.0'') # ''http/1.0''"
    by code_simp+
  have sel: "select_proto (wire ps) (char_of (length k) # k) = (if k \<in> set ps then Some k else None)" if "length k < 256" for k
    by (rule select_proto_wire [OF assms that])
  have "select_proto (wire ps) NGHTTP2_H2_ALPN = (if ''h2'' \<in> set ps then Some ''h2'' else None)"
    "select_proto (wire ps) NGHTTP2_H2_16_ALPN = (if ''h2-16'' \<in> set ps then Some ''h2-16'' else None)"
    "select_proto (wire ps) NGHTTP2_H2_14_ALPN = (if ''h2-14'' \<in> set ps then Some ''h2-14'' else None)"
    "select_proto (wire ps) HTTP1_1_ALPN = (if ''http/1.1'' \<in> set ps then Some ''http/1.1'' else None)"
    "select_proto (wire ps) HTTP1_0_ALPN = (if ''http/1.0'' \<in> set ps then Some ''http/1.0'' else None)"
    unfolding keys by (rule sel, simp)+
  then show ?thesis
    by (simp add: client_select_next_proto_cb_def select_h2_def select_h1_def preferred_def or_else_def)
qed

lemma client_selects_preferred_witness:
  "client_select_next_proto_cb (wire [''spdy/3'', ''http/1.1'', ''h2-14'']) = Some ''h2-14''"
  using client_selects_preferred [of "[''spdy/3'', ''http/1.1'', ''h2-14'']"] by (simp add: preferred_def)



end
