(* ===== verification/Dns_Factory.thy ===== *)
theory Dns_Factory
  imports Negotiation
begin

text \<open>
  \<open>src/src/network/communicator/dns_communicator_factory.h/.cpp\<close>: how a client gets a
  connection.  One call of \<open>get_connector\<close> is a chain of asynchronous operations of
  boost.asio, which is not part of the repository: resolving, connecting and the TLS handshake,
  each beside a timer.  The operations and the timers that are under way are the state; each
  handler is a function that is run when its operation completes with a result.
\<close>

section \<open>State\<close>

datatype op_result = Op_ok | Op_canceled | Op_failed

text \<open>What the user is told, and what boost.asio is asked to do.\<close>

datatype 'e dns_event = Error_cb int | Connector_cb proto_version | Resolve string string
  | Connect 'e | Connect_any "'e list" | Handshake

text \<open>An operation under way holds what its handler captures: the timer beside it and the endpoints left.\<close>

datatype 'e dns_op = Resolving | Connecting nat "'e list" | Connecting_tls nat | Handshaking nat

record 'e dns_factory =
  dn_stopping :: bool
  dn_dead :: bool
  dn_tls :: bool
  dn_op :: "'e dns_op option"
  dn_resolve_timer :: bool
  dn_timers :: "nat list"
  dn_next :: nat
  dn_events :: "'e dns_event list"

definition dns_new :: "'e dns_factory" where
  "dns_new = \<lparr>dn_stopping = False, dn_dead = False, dn_tls = False, dn_op = None, dn_resolve_timer = False, dn_timers = [], dn_next = 0,
     dn_events = []\<rparr>"

definition emit :: "'e dns_event \<Rightarrow> 'e dns_factory \<Rightarrow> 'e dns_factory" where
  "emit e w = w\<lparr>dn_events := dn_events w @ [e]\<rparr>"

definition arm :: "'e dns_factory \<Rightarrow> nat \<times> 'e dns_factory" where
  "arm w = (dn_next w, w\<lparr>dn_timers := dn_timers w @ [dn_next w], dn_next := Suc (dn_next w)\<rparr>)"

definition disarm :: "nat \<Rightarrow> 'e dns_factory \<Rightarrow> 'e dns_factory" where
  "disarm k w = w\<lparr>dn_timers := removeAll k (dn_timers w)\<rparr>"

section \<open>Operations\<close>

definition dns_stop :: "'e dns_factory \<Rightarrow> 'e dns_factory" where
  "dns_stop w = w\<lparr>dn_stopping := True\<rparr>"

definition dns_destroy :: "'e dns_factory \<Rightarrow> 'e dns_factory" where
  "dns_destroy w = w\<lparr>dn_dead := True\<rparr>"

definition dns_resolver :: "string \<Rightarrow> nat \<Rightarrow> bool \<Rightarrow> 'e dns_factory \<Rightarrow> 'e dns_factory" where
  "dns_resolver address port tls w =
    (let port = (if port = 0 then if tls then 443 else 80 else port);
         w = w\<lparr>dn_tls := tls, dn_op := Some Resolving, dn_resolve_timer := True\<rparr>
     in emit (Resolve address (to_dec port)) w)"

definition get_connector :: "string \<Rightarrow> nat \<Rightarrow> bool \<Rightarrow> 'e dns_factory \<Rightarrow> 'e dns_factory" where
  "get_connector address port tls w =
    (if dn_stopping w then emit (Error_cb 1) w else dns_resolver address port tls w)"

definition endpoint_connect :: "'e list \<Rightarrow> 'e dns_factory \<Rightarrow> 'e dns_factory" where
  "endpoint_connect it w =
    (if it = [] \<or> dn_stopping w then emit (Error_cb 3) w
     else (let (k, w) = arm w in emit (Connect (hd it)) (w\<lparr>dn_op := Some (Connecting k (tl it))\<rparr>)))"

definition endpoint_connect_tls :: "'e list \<Rightarrow> 'e dns_factory \<Rightarrow> 'e dns_factory" where
  "endpoint_connect_tls it w =
    (if it = [] \<or> dn_stopping w then emit (Error_cb 3) w
     else (let (k, w) = arm w in emit (Connect_any it) (w\<lparr>dn_op := Some (Connecting_tls k)\<rparr>)))"

section \<open>Handlers\<close>

definition on_resolved :: "op_result \<Rightarrow> 'e list \<Rightarrow> 'e dns_factory \<Rightarrow> 'e dns_factory" where
  "on_resolved ec iterator w =
    (if dn_dead w then w
     else (let w = w\<lparr>dn_resolve_timer := False\<rparr> in
       if ec \<noteq> Op_ok \<or> iterator = [] then emit (Error_cb 3) w
       else if dn_tls w then endpoint_connect_tls iterator w
       else endpoint_connect iterator w))"

definition on_connected :: "op_result \<Rightarrow> nat \<Rightarrow> 'e list \<Rightarrow> 'e dns_factory \<Rightarrow> 'e dns_factory" where
  "on_connected ec k it w =
    (if dn_dead w then w
     else (let w = disarm k w in
       if ec \<noteq> Op_ok then (if ec \<noteq> Op_canceled then endpoint_connect it w else w)
       else emit (Connector_cb HTTP11) w))"

text \<open>The composed operation leaves the endpoints behind the one it connected to, none if it failed.\<close>

definition on_connected_tls :: "op_result \<Rightarrow> 'e list \<Rightarrow> nat \<Rightarrow> 'e dns_factory \<Rightarrow> 'e dns_factory" where
  "on_connected_tls ec it k w =
    (if dn_dead w then w
     else if ec \<noteq> Op_ok then (if ec \<noteq> Op_canceled then endpoint_connect_tls it w else w)
     else emit Handshake (w\<lparr>dn_op := Some (Handshaking k)\<rparr>))"

text \<open>The handler does not look whether the factory is still there; after a success it reads a member of it.\<close>

definition on_handshake :: "op_result \<Rightarrow> string option \<Rightarrow> string option \<Rightarrow> nat \<Rightarrow> 'e dns_factory \<Rightarrow> 'e dns_factory result" where
  "on_handshake ec alpn npn k w =
    (let w = disarm k w in
     if ec \<noteq> Op_ok then Inr (if ec \<noteq> Op_canceled then emit (Error_cb 3) w else w)
     else (let v = chose_protocol alpn npn in
       if dn_dead w then Inl Undefined_behaviour else Inr (emit (Connector_cb v) w)))"

text \<open>The timers: the first only cancels the resolver, those of connections also tell the user.\<close>

definition on_resolve_timeout :: "'e dns_factory \<Rightarrow> 'e dns_factory" where
  "on_resolve_timeout w = w\<lparr>dn_resolve_timer := False\<rparr>"

definition on_connect_timeout :: "nat \<Rightarrow> 'e dns_factory \<Rightarrow> 'e dns_factory" where
  "on_connect_timeout k w = emit (Error_cb 4) (disarm k w)"

section \<open>Runs\<close>

text \<open>
  A handler runs when its operation is under way, and takes it.  After a timeout of a connection
  its operation completes as canceled: the timer has cancelled the socket (\<open>expired\<close>).  A timer
  runs while it is armed.
\<close>

inductive dns_step :: "'e dns_factory \<times> bool \<Rightarrow> 'e dns_factory \<times> bool \<Rightarrow> bool" where
  step_resolved: "dn_op w = Some Resolving \<Longrightarrow> dns_step (w, x) (on_resolved ec it (w\<lparr>dn_op := None\<rparr>), x)"
| step_connected: "dn_op w = Some (Connecting k it) \<Longrightarrow> (ec = Op_canceled \<longleftrightarrow> x) \<Longrightarrow>
    dns_step (w, x) (on_connected ec k it (w\<lparr>dn_op := None\<rparr>), x)"
| step_connected_tls: "dn_op w = Some (Connecting_tls k) \<Longrightarrow> (ec = Op_canceled \<longleftrightarrow> x) \<Longrightarrow> (ec = Op_failed \<longrightarrow> it = []) \<Longrightarrow>
    dns_step (w, x) (on_connected_tls ec it k (w\<lparr>dn_op := None\<rparr>), x)"
| step_handshake: "dn_op w = Some (Handshaking k) \<Longrightarrow> (ec = Op_canceled \<longleftrightarrow> x) \<Longrightarrow>
    on_handshake ec alpn npn k (w\<lparr>dn_op := None\<rparr>) = Inr w' \<Longrightarrow> dns_step (w, x) (w', x)"
| step_resolve_timeout: "dn_resolve_timer w \<Longrightarrow> dns_step (w, x) (on_resolve_timeout w, x)"
| step_connect_timeout: "k \<in> set (dn_timers w) \<Longrightarrow> dns_step (w, x) (on_connect_timeout k w, True)"
| step_stop: "dns_step (w, x) (dns_stop w, x)"
| step_destroy: "dns_step (w, x) (dns_destroy w, x)"

inductive plain_run :: "string \<Rightarrow> nat \<Rightarrow> 'e dns_factory \<times> bool \<Rightarrow> bool" for address port where
  run_start: "plain_run address port (get_connector address port False dns_new, False)"
| run_step: "plain_run address port c \<Longrightarrow> dns_step c c' \<Longrightarrow> plain_run address port c'"

definition told :: "'e dns_factory \<Rightarrow> nat" where
  "told w = length (filter (\<lambda>e. case e of Error_cb n \<Rightarrow> True | Connector_cb v \<Rightarrow> True | _ \<Rightarrow> False) (dn_events w))"

lemma told_emit [simp]:
  "told (emit (Error_cb n) w) = Suc (told w)" "told (emit (Connector_cb v) w) = Suc (told w)"
  "told (emit (Connect e) w) = told w" "told (emit (Connect_any es) w) = told w" "told (emit (Resolve a p) w) = told w"
  "told (emit Handshake w) = told w" "told (disarm k w) = told w" "told (w\<lparr>dn_op := oper\<rparr>) = told w"
  "told (w\<lparr>dn_timers := ts\<rparr>) = told w" "told (w\<lparr>dn_next := m\<rparr>) = told w" "told (w\<lparr>dn_tls := b\<rparr>) = told w"
  "told (w\<lparr>dn_resolve_timer := b\<rparr>) = told w" "told (w\<lparr>dn_stopping := b\<rparr>) = told w" "told (w\<lparr>dn_dead := b\<rparr>) = told w"
  by (simp_all add: told_def emit_def disarm_def)

lemma emit_fields [simp]:
  "dn_op (emit e w) = dn_op w" "dn_tls (emit e w) = dn_tls w" "dn_timers (emit e w) = dn_timers w"
  "dn_dead (emit e w) = dn_dead w" "dn_stopping (emit e w) = dn_stopping w" "dn_next (emit e w) = dn_next w"
  by (simp_all add: emit_def)

text \<open>
  While nobody has been told and the factory is there, an operation is under way, it has not
  expired, and no timer but its own is armed; afterwards no timer is, and no operation either unless
  it has expired.
\<close>

definition plain_inv :: "'e dns_factory \<times> bool \<Rightarrow> bool" where
  "plain_inv c \<longleftrightarrow> (case c of (w, expired) \<Rightarrow>
       (case dn_op w of Some (Connecting_tls k) \<Rightarrow> False | Some (Handshaking k) \<Rightarrow> False | _ \<Rightarrow> True) \<and> \<not> dn_tls w
     \<and> (told w = 0 \<and> \<not> expired
          \<and> (case dn_op w of None \<Rightarrow> dn_dead w \<and> (\<exists>k. set (dn_timers w) \<subseteq> {k}) | Some Resolving \<Rightarrow> dn_timers w = []
             | Some (Connecting k it) \<Rightarrow> set (dn_timers w) \<subseteq> {k} | Some _ \<Rightarrow> False)
       \<or> told w = 1 \<and> dn_timers w = [] \<and> dn_op w \<noteq> Some Resolving \<and> (expired \<or> dn_op w = None)))"

lemma subset_single: "set xs \<subseteq> {k} \<Longrightarrow> removeAll k xs = []"
  by (induction xs) auto

lemma removeAll_single: "set xs \<subseteq> {j} \<Longrightarrow> k \<in> set xs \<Longrightarrow> removeAll k xs = []"
  using subset_single [of xs k] by blast

lemma plain_step: "dns_step c c' \<Longrightarrow> plain_inv c \<Longrightarrow> plain_inv c'"
proof (induction rule: dns_step.induct)
  case (step_resolved w x ec it)
  then show ?case by (auto simp: plain_inv_def on_resolved_def endpoint_connect_def arm_def Let_def)
next
  case (step_connected w k it ec x)
  then show ?case
    by (auto simp: plain_inv_def on_connected_def endpoint_connect_def arm_def Let_def disarm_def subset_single)
next
  case (step_connect_timeout k w x)
  then show ?case by (auto simp: plain_inv_def on_connect_timeout_def disarm_def removeAll_single split: option.splits dns_op.splits)
next
  case (step_resolve_timeout w x)
  then show ?case by (auto simp: plain_inv_def on_resolve_timeout_def split: option.splits dns_op.splits)
next
  case (step_stop w x)
  then show ?case by (auto simp: plain_inv_def dns_stop_def split: option.splits dns_op.splits)
next
  case (step_destroy w x)
  then show ?case by (auto simp: plain_inv_def dns_destroy_def split: option.splits dns_op.splits)
qed (auto simp: plain_inv_def)

lemma plain_run_inv: "plain_run address port c \<Longrightarrow> plain_inv c"
proof (induction rule: plain_run.induct)
  case run_start
  show ?case
    by (simp add: plain_inv_def get_connector_def dns_resolver_def dns_new_def Let_def) (simp add: told_def emit_def)
next
  case (run_step c c')
  then show ?case using plain_step by blast
qed


text \<open>Two endpoints, neither of which can be connected to.\<close>

definition refused :: "bool dns_factory" where
  "refused = on_connected Op_failed 1 [] ((on_connected Op_failed 0 [False]
     ((on_resolved Op_ok [True, False] ((get_connector ''a'' 0 False dns_new)\<lparr>dn_op := None\<rparr>))\<lparr>dn_op := None\<rparr>))\<lparr>dn_op := None\<rparr>)"

lemma refused_run: "plain_run ''a'' 0 (refused, False)"
proof -
  let ?w0 = "get_connector ''a'' 0 False dns_new :: bool dns_factory"
  let ?w1 = "on_resolved Op_ok [True, False] (?w0\<lparr>dn_op := None\<rparr>)"
  let ?w2 = "on_connected Op_failed 0 [False] (?w1\<lparr>dn_op := None\<rparr>)"
  have op: "dn_op ?w0 = Some Resolving" "dn_op ?w1 = Some (Connecting 0 [False])" "dn_op ?w2 = Some (Connecting 1 [])"
    by (simp_all add: get_connector_def dns_resolver_def dns_new_def on_resolved_def on_connected_def endpoint_connect_def
        arm_def disarm_def emit_def Let_def)
  have "plain_run ''a'' 0 (?w1, False)" by (rule run_step [OF run_start step_resolved [OF op(1)]])
  then have "plain_run ''a'' 0 (?w2, False)" by (rule run_step [OF _ step_connected [OF op(2)]]) simp
  then show ?thesis unfolding refused_def by (rule run_step [OF _ step_connected [OF op(3)]]) simp
qed




end
