(* ===== verification/Sni_Solver.thy ===== *)
theory Sni_Solver
  imports Utils
begin

text \<open>
  \<open>src/src/utils/sni_solver.h/.cpp\<close>: which certificate a TLS client gets.  What OpenSSL and
  the file system make of the files of a certificate is a parameter (\<open>load\<close>), and so is
  \<open>X509_check_host\<close> (\<open>check\<close>); a context is the number of the certificate it was made for.
\<close>

section \<open>State\<close>

type_synonym raw_certificate = "string \<times> string \<times> string"

text \<open>An exception, a certificate without a subject, or a certificate.\<close>

datatype 'x load_result = Load_throws | No_subject | Loaded 'x

record 'x certificate =
  ce_server_name :: string
  ce_context :: nat
  ce_x509 :: "'x option"

record 'x sni_solver =
  sn_certificates :: "'x certificate list"
  sn_raw :: "raw_certificate list"
  sn_contexts :: nat

definition sni_solver_new :: "'x sni_solver" where
  "sni_solver_new = \<lparr>sn_certificates = [], sn_raw = [], sn_contexts = 0\<rparr>"

section \<open>Loading\<close>

definition sni_add_certificate :: "string \<Rightarrow> string \<Rightarrow> string \<Rightarrow> 'x sni_solver \<Rightarrow> 'x sni_solver" where
  "sni_add_certificate cert key pass s = s\<lparr>sn_raw := sn_raw s @ [(cert, key, pass)]\<rparr>"

text \<open>
  The common name is not read: the call is commented out, and the buffer it would fill holds
  zeros.
\<close>

definition prepare_certificate ::
  "(raw_certificate \<Rightarrow> 'x load_result) \<Rightarrow> raw_certificate \<Rightarrow> 'x sni_solver \<Rightarrow> bool \<times> 'x sni_solver" where
  "prepare_certificate load raw s =
    (let cert = \<lparr>ce_server_name = [], ce_context = sn_contexts s, ce_x509 = None\<rparr>;
         s = s\<lparr>sn_contexts := Suc (sn_contexts s)\<rparr>
     in case load raw of
          Load_throws \<Rightarrow> (False, s)
        | No_subject \<Rightarrow> (False, s\<lparr>sn_certificates := sn_certificates s @ [cert]\<rparr>)
        | Loaded x \<Rightarrow> (let cn = [] in
            (True, s\<lparr>sn_certificates := sn_certificates s @ [cert\<lparr>ce_server_name := cn, ce_x509 := Some x\<rparr>]\<rparr>)))"

fun prepare_all ::
  "(raw_certificate \<Rightarrow> 'x load_result) \<Rightarrow> raw_certificate list \<Rightarrow> 'x sni_solver \<Rightarrow> bool \<times> 'x sni_solver" where
  "prepare_all load [] s = (True, s)"
| "prepare_all load (t # ts) s =
    (let (ok, s) = prepare_certificate load t s in if \<not> ok then (False, s) else prepare_all load ts s)"

definition load_certificates :: "(raw_certificate \<Rightarrow> 'x load_result) \<Rightarrow> 'x sni_solver \<Rightarrow> bool \<times> 'x sni_solver" where
  "load_certificates load s =
    (let (ok, s) = prepare_all load (sn_raw s) s in if \<not> ok then (False, s) else (sn_certificates s \<noteq> [], s))"

section \<open>The callback\<close>

definition clean_wildcard_name :: "string \<Rightarrow> string result" where
  "clean_wildcard_name name = (if length name < 2 then Inl (Thrown Out_of_range) else Inr (drop 2 name))"

datatype sni_answer = SSL_TLSEXT_ERR_OK | SSL_TLSEXT_ERR_NOACK | TLS1_AD_UNRECOGNIZED_NAME

text \<open>The character behind the last is a null.\<close>

definition char_at :: "string \<Rightarrow> nat \<Rightarrow> char" where
  "char_at s i = (if i < length s then s ! i else CHR 0x00)"

fun find_exact :: "string \<Rightarrow> 'x certificate list \<Rightarrow> nat option" where
  "find_exact required [] = None"
| "find_exact required (c # cs) = (if ce_server_name c = required then Some (ce_context c) else find_exact required cs)"

fun find_wildcard :: "string \<Rightarrow> 'x certificate list \<Rightarrow> nat option result" where
  "find_wildcard required [] = Inr None"
| "find_wildcard required (c # cs) =
    (if \<not> (char_at (ce_server_name c) 0 = CHR ''*'' \<and> char_at (ce_server_name c) 1 = CHR ''.'')
     then find_wildcard required cs
     else res_bind (clean_wildcard_name (ce_server_name c)) (\<lambda>name.
       if ends_with required name then Inr (Some (ce_context c)) else find_wildcard required cs))"

fun find_alternative :: "('x \<Rightarrow> string \<Rightarrow> bool) \<Rightarrow> string \<Rightarrow> 'x certificate list \<Rightarrow> nat option result" where
  "find_alternative check required [] = Inr None"
| "find_alternative check required (c # cs) =
    (case ce_x509 c of
       None \<Rightarrow> Inl Undefined_behaviour
     | Some x \<Rightarrow> if check x required then Inr (Some (ce_context c)) else find_alternative check required cs)"

text \<open>The answer, and the context the connection is switched to.\<close>

definition sni_callback ::
  "('x \<Rightarrow> string \<Rightarrow> bool) \<Rightarrow> bool \<Rightarrow> string option \<Rightarrow> 'x sni_solver option \<Rightarrow> (sni_answer \<times> nat option) result" where
  "sni_callback check ssl name arg =
    (case arg of
       None \<Rightarrow> Inr (SSL_TLSEXT_ERR_NOACK, None)
     | Some instance \<Rightarrow>
        if \<not> ssl then Inr (SSL_TLSEXT_ERR_NOACK, None)
        else (case name of
          None \<Rightarrow> Inr (SSL_TLSEXT_ERR_NOACK, None)
        | Some required \<Rightarrow>
           (case find_exact required (sn_certificates instance) of
              Some c \<Rightarrow> Inr (SSL_TLSEXT_ERR_OK, Some c)
            | None \<Rightarrow> res_bind (find_wildcard required (sn_certificates instance)) (\<lambda>found.
                case found of
                  Some c \<Rightarrow> Inr (SSL_TLSEXT_ERR_OK, Some c)
                | None \<Rightarrow> res_bind (find_alternative check required (sn_certificates instance)) (\<lambda>found.
                    case found of
                      Some c \<Rightarrow> Inr (SSL_TLSEXT_ERR_OK, Some c)
                    | None \<Rightarrow> Inr (TLS1_AD_UNRECOGNIZED_NAME, None))))))"

section \<open>Certificates after loading\<close>

definition certificate_of :: "'x load_result \<Rightarrow> 'x option" where
  "certificate_of r = (case r of Loaded x \<Rightarrow> Some x | _ \<Rightarrow> None)"

lemma prepare_all_loaded:
  "prepare_all load ts s = (True, s') \<Longrightarrow> \<exists>xs. map (\<lambda>t. certificate_of (load t)) ts = map Some xs
     \<and> sn_certificates s' = sn_certificates s
        @ map (\<lambda>(i, x). \<lparr>ce_server_name = [], ce_context = i, ce_x509 = Some x\<rparr>) (zip [sn_contexts s..<sn_contexts s + length xs] xs)"
proof (induction ts arbitrary: s)
  case (Cons t ts)
  show ?case
  proof (cases "load t")
    case (Loaded x)
    let ?s = "s\<lparr>sn_contexts := Suc (sn_contexts s),
      sn_certificates := sn_certificates s @ [\<lparr>ce_server_name = [], ce_context = sn_contexts s, ce_x509 = Some x\<rparr>]\<rparr>"
    have "prepare_all load ts ?s = (True, s')"
      using Cons.prems Loaded by (simp add: prepare_certificate_def)
    from Cons.IH [OF this] obtain xs where xs: "map (\<lambda>t. certificate_of (load t)) ts = map Some xs"
      "sn_certificates s' = sn_certificates ?s
        @ map (\<lambda>(i, x). \<lparr>ce_server_name = [], ce_context = i, ce_x509 = Some x\<rparr>) (zip [sn_contexts ?s..<sn_contexts ?s + length xs] xs)"
      by blast
    have "[sn_contexts s..<sn_contexts s + length (x # xs)] = sn_contexts s # [Suc (sn_contexts s)..<Suc (sn_contexts s) + length xs]"
      using upt_conv_Cons [of "sn_contexts s" "sn_contexts s + length (x # xs)"] by (simp del: upt_Suc)
    moreover have "certificate_of (load t) = Some x" using Loaded by (simp add: certificate_of_def)
    ultimately show ?thesis using xs by (intro exI [of _ "x # xs"]) (simp del: upt_Suc)
  qed (use Cons.prems in \<open>simp_all add: prepare_certificate_def Let_def\<close>)
qed simp

lemma find_alternative_zip:
  "find_alternative check n (map (\<lambda>(i, x). \<lparr>ce_server_name = [], ce_context = i, ce_x509 = Some x\<rparr>) ixs)
    = Inr (map_option fst (find (\<lambda>(i, x). check x n) ixs))"
  by (induction ixs) auto


text \<open>Two files whose names are the names they are good for.\<close>

definition named :: "raw_certificate \<Rightarrow> string load_result" where
  "named raw = Loaded (fst raw)"


text \<open>A wildcard that were read would be good for hosts of other domains too.\<close>

lemma wildcard_other_domain:
  "find_wildcard ''badexample.com'' [\<lparr>ce_server_name = ''*.example.com'', ce_context = 0, ce_x509 = Some ()\<rparr>] = Inr (Some 0)"
  by (simp add: char_at_def clean_wildcard_name_def ends_with_def)

end
