(* ===== verification/Http_Server.thy ===== *)
theory Http_Server
  imports Negotiation Sni_Solver
begin

text \<open>
  \<open>src/src/http_server.h/.cpp\<close>: the server that listens on a plain and a TLS port.  The
  operations of boost.asio are a trace; what resolving a port and opening, binding and listening on
  an endpoint lead to is the parameter \<open>network\<close>.  The handlers of the accept operations, of
  the handshake and of its timer are functions of the result they are called with.
\<close>

section \<open>State\<close>

record 'e network =
  nw_resolve :: "nat \<Rightarrow> 'e list option"
  nw_open :: "'e \<Rightarrow> bool"
  nw_bind :: "'e \<Rightarrow> bool"
  nw_listen :: "'e \<Rightarrow> bool"

datatype server_event = Async_accept | Async_accept_tls nat | Acceptor_closed | Acceptor_tls_closed
  | Selection_registered nat | Connect_timer | Connect_timer_canceled | Tls_handshake | Tls_shutdown
  | Client_connected handler_kind

record ('e, 'x) http_server =
  hs_running :: bool
  hs_connect_timeout :: nat
  hs_ssl_ctx :: "nat option"
  hs_sni :: "'x sni_solver"
  hs_ssl :: bool
  hs_ssl_port :: "16 word"
  hs_http_port :: "16 word"
  hs_plain_acceptor :: "'e option"
  hs_ssl_acceptor :: "'e option"
  hs_connect_cb :: bool
  hs_events :: "server_event list"

definition http_server_new :: "nat \<Rightarrow> 16 word \<Rightarrow> 16 word \<Rightarrow> ('e, 'x) http_server" where
  "http_server_new connect_timeout ssl_port http_port =
    \<lparr>hs_running = False, hs_connect_timeout = connect_timeout, hs_ssl_ctx = None, hs_sni = sni_solver_new,
     hs_ssl = (ssl_port \<noteq> 0), hs_ssl_port = ssl_port, hs_http_port = http_port, hs_plain_acceptor = None,
     hs_ssl_acceptor = None, hs_connect_cb = False, hs_events = []\<rparr>"

definition hs_log :: "server_event list \<Rightarrow> ('e, 'x) http_server \<Rightarrow> ('e, 'x) http_server" where
  "hs_log es w = w\<lparr>hs_events := hs_events w @ es\<rparr>"

definition server_on_client_connect :: "('e, 'x) http_server \<Rightarrow> ('e, 'x) http_server" where
  "server_on_client_connect w = w\<lparr>hs_connect_cb := True\<rparr>"

definition server_add_certificate ::
  "string \<Rightarrow> string \<Rightarrow> string \<Rightarrow> ('e, 'x) http_server \<Rightarrow> ('e, 'x) http_server result" where
  "server_add_certificate cert key pass w =
    (if hs_running w then Inl (Thrown Invalid_argument)
     else Inr (w\<lparr>hs_sni := sni_add_certificate cert key pass (hs_sni w)\<rparr>))"

section \<open>Listening\<close>

text \<open>Whether it failed; each step is only taken if those before it succeeded.\<close>

definition make_acceptor :: "'e network \<Rightarrow> 'e \<Rightarrow> bool" where
  "make_acceptor N endpoint =
    (let ec = (\<not> nw_open N endpoint);
         ec = (if \<not> ec then \<not> nw_bind N endpoint else ec)
     in if \<not> ec then \<not> nw_listen N endpoint else ec)"

fun listen_loop :: "'e network \<Rightarrow> 'e list \<Rightarrow> 'e option \<Rightarrow> bool \<Rightarrow> 'e option \<times> bool" where
  "listen_loop N [] acceptor ec = (acceptor, ec)"
| "listen_loop N (e # es) acceptor ec =
    (let ec = make_acceptor N e in listen_loop N es (if \<not> ec then Some e else acceptor) ec)"

definition server_listen :: "'e network \<Rightarrow> bool \<Rightarrow> ('e, 'x) http_server \<Rightarrow> ('e, 'x) http_server result" where
  "server_listen N ssl w =
    (let port = (if ssl then hs_ssl_port w else hs_http_port w);
         acceptor = (if ssl then hs_ssl_acceptor w else hs_plain_acceptor w);
         (acceptor, ec) = (case nw_resolve N (unat port) of
            None \<Rightarrow> (acceptor, True) | Some it \<Rightarrow> listen_loop N it acceptor False);
         w = (if ssl then w\<lparr>hs_ssl_acceptor := acceptor\<rparr> else w\<lparr>hs_plain_acceptor := acceptor\<rparr>);
         ec = (if acceptor = None then False else ec)
     in if ec then Inl (Thrown Boost_error_code) else Inr w)"

section \<open>Accepting\<close>

definition start_accept :: "('e, 'x) http_server \<Rightarrow> ('e, 'x) http_server" where
  "start_accept w = (if \<not> hs_running w then w else hs_log [Async_accept] w)"

definition start_accept_tls :: "nat \<Rightarrow> ('e, 'x) http_server \<Rightarrow> ('e, 'x) http_server" where
  "start_accept_tls ssl_ctx w = (if \<not> hs_running w then w else hs_log [Async_accept_tls ssl_ctx] w)"

datatype accept_result = Accepted | Accept_canceled | Accept_failed

definition on_accept :: "accept_result \<Rightarrow> ('e, 'x) http_server \<Rightarrow> ('e, 'x) http_server" where
  "on_accept ec w =
    (if ec = Accept_canceled then w
     else if ec = Accepted
     then (let h = build_handler Ht_h1 UNSET
           in start_accept (if hs_connect_cb w then hs_log [Client_connected h] w else w))
     else start_accept w)"

definition on_accept_tls :: "accept_result \<Rightarrow> nat \<Rightarrow> ('e, 'x) http_server \<Rightarrow> ('e, 'x) http_server" where
  "on_accept_tls ec ssl_ctx w =
    (if ec = Accept_canceled then w
     else start_accept_tls ssl_ctx (if ec = Accepted then hs_log [Connect_timer, Tls_handshake] w else w))"

text \<open>The handler that negotiation builds is never null.\<close>

definition on_handshake_done ::
  "accept_result \<Rightarrow> string option \<Rightarrow> string option \<Rightarrow> ('e, 'x) http_server \<Rightarrow> ('e, 'x) http_server result" where
  "on_handshake_done ec alpn npn w =
    (let w = (if ec \<noteq> Accept_canceled then hs_log [Connect_timer_canceled] w else w)
     in if ec = Accepted
        then res_bind (negotiate_handler alpn npn) (\<lambda>(t, v).
          Inr (if hs_connect_cb w then hs_log [Client_connected (build_handler t v)] w else w))
        else Inr w)"

definition on_connect_timer :: "bool \<Rightarrow> ('e, 'x) http_server \<Rightarrow> ('e, 'x) http_server" where
  "on_connect_timer canceled w = (if canceled then w else hs_log [Tls_shutdown] w)"

section \<open>Starting and stopping\<close>

definition server_start ::
  "'e network \<Rightarrow> (raw_certificate \<Rightarrow> 'x load_result) \<Rightarrow> ('e, 'x) http_server \<Rightarrow> ('e, 'x) http_server result" where
  "server_start N load w = noexcept_call
    (if hs_running w then Inr w
     else (let w = w\<lparr>hs_running := True\<rparr>;
               (ok, sni) = (if hs_ssl w then load_certificates load (hs_sni w) else (False, hs_sni w));
               w = w\<lparr>hs_ssl := ok, hs_sni := sni\<rparr>
       in res_bind
           (if hs_ssl w
            then server_listen N True (hs_log (map (\<lambda>c. Selection_registered (ce_context c)) (sn_certificates sni))
                   (w\<lparr>hs_ssl_ctx := Some (ce_context (hd (sn_certificates sni)))\<rparr>))
            else Inr w)
          (\<lambda>w. res_bind (server_listen N False w) (\<lambda>w.
             let w = (if hs_plain_acceptor w \<noteq> None then start_accept w else w)
             in if hs_ssl_acceptor w \<noteq> None
                then (case hs_ssl_ctx w of None \<Rightarrow> Inl Assert_failed | Some ctx \<Rightarrow> Inr (start_accept_tls ctx w))
                else Inr w))))"

definition server_stop :: "('e, 'x) http_server \<Rightarrow> ('e, 'x) http_server" where
  "server_stop w =
    (if hs_running w
     then (let w = w\<lparr>hs_running := False\<rparr>;
               w = (if hs_plain_acceptor w \<noteq> None then hs_log [Acceptor_closed] w else w)
           in if hs_ssl_acceptor w \<noteq> None then hs_log [Acceptor_tls_closed] w else w)
     else w)"

section \<open>What starting leads to\<close>

definition listens :: "'e network \<Rightarrow> 'e \<Rightarrow> bool" where
  "listens N e \<longleftrightarrow> nw_open N e \<and> nw_bind N e \<and> nw_listen N e"

lemma make_acceptor_listens: "make_acceptor N e = (\<not> listens N e)"
  by (auto simp: make_acceptor_def listens_def)

lemma listen_loop_result:
  "listen_loop N es a ec = (case find (listens N) (rev es) of Some e \<Rightarrow> Some e | None \<Rightarrow> a,
     if es = [] then ec else \<not> listens N (last es))"
proof (induction es arbitrary: a ec)
  case (Cons e es)
  have "find P (xs @ [x]) = (case find P xs of Some y \<Rightarrow> Some y | None \<Rightarrow> if P x then Some x else None)"
    for P :: "'a \<Rightarrow> bool" and xs x
    by (induction xs) auto
  then show ?case using Cons.IH by (auto simp: make_acceptor_listens Let_def split: option.splits)
qed simp


definition busy_port :: "bool network" where
  "busy_port = \<lparr>nw_resolve = (\<lambda>port. Some [False, True]), nw_open = (\<lambda>e. True), nw_bind = (\<lambda>e. \<not> e), nw_listen = (\<lambda>e. True)\<rparr>"


end
